(* ===== verification/Prelude.thy ===== *)
theory Prelude
  imports Main "HOL-Library.Word"
begin

text \<open>
  Prelude of the development: the machine types of the UEFI C environment
  (UINT8 to UINT64, EFI_STATUS), the status codes the driver returns, the
  rounding macros of Emulator.h, the outcome type in which an assertion
  failure, a NULL dereference or a long jump is a value, the build
  configuration (the MAU options of Emulator.dsc), and the generic lemmas on
  lists and words the components share.
\<close>

unbundle bit_operations_syntax

section \<open>Collections of rewrite rules\<close>

named_theorems frame_simps \<open>what an operation leaves unchanged\<close>
named_theorems status_defs \<open>the numeric values of the status codes\<close>

section \<open>Machine integers and status codes\<close>

type_synonym u8 = "8 word"
type_synonym u16 = "16 word"
type_synonym u32 = "32 word"
type_synonym u64 = "64 word"

text \<open>A C pointer that may be NULL is an optional address: None is NULL.\<close>

type_synonym ptr = u64
type_synonym efi_status = u64
type_synonym efi_handle = u64

definition EFI_SUCCESS :: efi_status where [status_defs]: "EFI_SUCCESS = 0"
definition EFI_INVALID_PARAMETER :: efi_status where
  [status_defs]: "EFI_INVALID_PARAMETER = 0x8000000000000002"
definition EFI_UNSUPPORTED :: efi_status where
  [status_defs]: "EFI_UNSUPPORTED = 0x8000000000000003"
definition EFI_BUFFER_TOO_SMALL :: efi_status where
  [status_defs]: "EFI_BUFFER_TOO_SMALL = 0x8000000000000005"
definition EFI_DEVICE_ERROR :: efi_status where
  [status_defs]: "EFI_DEVICE_ERROR = 0x8000000000000007"
definition EFI_OUT_OF_RESOURCES :: efi_status where
  [status_defs]: "EFI_OUT_OF_RESOURCES = 0x8000000000000009"
definition EFI_NOT_FOUND :: efi_status where
  [status_defs]: "EFI_NOT_FOUND = 0x800000000000000E"
definition EFI_ABORTED :: efi_status where
  [status_defs]: "EFI_ABORTED = 0x8000000000000015"
definition EFI_INCOMPATIBLE_VERSION :: efi_status where
  [status_defs]: "EFI_INCOMPATIBLE_VERSION = 0x8000000000000019"
definition EFI_SECURITY_VIOLATION :: efi_status where
  [status_defs]: "EFI_SECURITY_VIOLATION = 0x800000000000001A"
definition EFI_END_OF_MEDIA :: efi_status where
  [status_defs]: "EFI_END_OF_MEDIA = 0x800000000000001C"

text \<open>EFI_ERROR tests the sign bit of the status.\<close>

definition EFI_ERROR :: "efi_status \<Rightarrow> bool" where
  "EFI_ERROR s \<longleftrightarrow> 0x8000000000000000 \<le> s"

lemma EFI_ERROR_simps [simp]:
  "\<not> EFI_ERROR EFI_SUCCESS"
  "EFI_ERROR EFI_INVALID_PARAMETER"
  "EFI_ERROR EFI_UNSUPPORTED"
  "EFI_ERROR EFI_BUFFER_TOO_SMALL"
  "EFI_ERROR EFI_DEVICE_ERROR"
  "EFI_ERROR EFI_OUT_OF_RESOURCES"
  "EFI_ERROR EFI_NOT_FOUND"
  "EFI_ERROR EFI_ABORTED"
  "EFI_ERROR EFI_INCOMPATIBLE_VERSION"
  "EFI_ERROR EFI_SECURITY_VIOLATION"
  "EFI_ERROR EFI_END_OF_MEDIA"
  by (simp_all add: EFI_ERROR_def status_defs)

lemma EFI_ERROR_zero [simp]: "\<not> EFI_ERROR 0"
  by (simp add: EFI_ERROR_def)

lemma EFI_ERROR_not_success: "EFI_ERROR s \<Longrightarrow> s \<noteq> EFI_SUCCESS"
  by (auto simp: EFI_SUCCESS_def)

section \<open>Page arithmetic\<close>

abbreviation EFI_PAGE_SIZE :: u64 where "EFI_PAGE_SIZE \<equiv> 4096"

text \<open>The macros of Emulator.h: the alignment is expected to be a power of two.\<close>

definition ROUND_UP :: "u64 \<Rightarrow> u64 \<Rightarrow> u64" where
  "ROUND_UP x n = (x + n - 1) AND NOT (n - 1)"

definition ROUND_DOWN :: "u64 \<Rightarrow> u64 \<Rightarrow> u64" where
  "ROUND_DOWN x n = x AND NOT (n - 1)"

text \<open>The page macros of the UEFI headers: EFI_SIZE_TO_PAGES and EFI_PAGES_TO_SIZE.\<close>

definition EFI_SIZE_TO_PAGES :: "u64 \<Rightarrow> u64" where
  "EFI_SIZE_TO_PAGES x = drop_bit 12 x + (if x AND 0xFFF \<noteq> 0 then 1 else 0)"

definition EFI_PAGES_TO_SIZE :: "u64 \<Rightarrow> u64" where
  "EFI_PAGES_TO_SIZE p = push_bit 12 p"

section \<open>Outcomes\<close>

text \<open>
  A function of the driver returns, leaves by a long jump, or stops the
  machine: a failed ASSERT of a DEBUG build, a NULL dereference, or an exception
  that no handler takes.
\<close>

datatype crash = ASSERT_failed | NULL_dereference | Unhandled_exception

datatype ('j, 'a) outcome = Done 'a | Jumped 'j | Crashed crash

text \<open>Sequencing: None is a computation that does not return (or whose fuel is used up).\<close>

definition obind ::
  "('j, 'a) outcome option \<Rightarrow> ('a \<Rightarrow> ('j, 'b) outcome option) \<Rightarrow> ('j, 'b) outcome option" where
  "obind m f =
     (case m of
        None \<Rightarrow> None
      | Some (Done x) \<Rightarrow> f x
      | Some (Jumped j) \<Rightarrow> Some (Jumped j)
      | Some (Crashed c) \<Rightarrow> Some (Crashed c))"

lemma obind_simps [simp]:
  "obind None f = None" "obind (Some (Done x)) f = f x" "obind (Some (Jumped j)) f = Some (Jumped j)"
  "obind (Some (Crashed c)) f = Some (Crashed c)"
  by (simp_all add: obind_def)

lemma obind_Done: "obind m f = Some (Done y) \<longleftrightarrow> (\<exists>x. m = Some (Done x) \<and> f x = Some (Done y))"
  by (auto simp: obind_def split: option.splits outcome.splits)

lemma obind_Jumped:
  "obind m f = Some (Jumped j) \<longleftrightarrow> m = Some (Jumped j) \<or> (\<exists>x. m = Some (Done x) \<and> f x = Some (Jumped j))"
  by (auto simp: obind_def split: option.splits outcome.splits)

fun is_crash :: "('j, 'a) outcome \<Rightarrow> bool" where
  "is_crash (Crashed _) = True"
| "is_crash _ = False"

section \<open>Build configuration\<close>

text \<open>
  The options of Emulator.dsc and of the .inf files; each field is the
  preprocessor symbol of its name.  \<open>NDEBUG\<close> is the RELEASE build.
\<close>

record build =
  MAU_SUPPORTS_X64_BINS :: bool
  MAU_SUPPORTS_AARCH64_BINS :: bool
  MAU_ON_PRIVATE_STACK :: bool
  MAU_CHECK_ORPHAN_CONTEXTS :: bool
  MAU_WRAPPED_ENTRY_POINTS :: bool
  MAU_TRY_WITHOUT_MMU :: bool
  MAU_EMU_TIMEOUT_NONE :: bool
  NDEBUG :: bool

section \<open>Generic lemmas\<close>

lemma dropWhile_suffix_all:
  "(\<And>x. x \<in> set ys \<Longrightarrow> \<not> P x) \<Longrightarrow> \<exists>zs. dropWhile P (xs @ ys) = zs @ ys \<and> set zs \<subseteq> set xs"
  by (induction xs) (auto intro: exI [of _ "[]"] simp: dropWhile_eq_self_iff neq_Nil_conv)

lemma takeWhile_dropWhile_cases:
  obtains ys zs where "xs = ys @ zs" "takeWhile P xs = ys" "dropWhile P xs = zs"
  by (metis takeWhile_dropWhile_id)

lemma unat_add_lt:
  "unat (a :: 'a::len word) + unat b < 2 ^ LENGTH('a) \<Longrightarrow> unat (a + b) = unat a + unat b"
  by (simp add: unat_word_ariths)

text \<open>The number of pages that hold \<open>m\<close> bytes.\<close>

lemma ceil_pages_bounds: "m \<le> (m + 4095) div 4096 * 4096" "(m + 4095) div 4096 * 4096 < m + (4096 :: nat)"
  using div_mult_mod_eq [of "m + 4095" 4096] mod_less_divisor [of 4096 "m + 4095"] by linarith+

lemma ceil_pages_eqI: "P * 4096 < m + 4096 \<Longrightarrow> m \<le> P * 4096 \<Longrightarrow> (m + 4095) div 4096 = (P :: nat)"
  by (rule div_nat_eqI) (simp_all add: mult.commute)

lemma unat_of_nat64: "n < 2 ^ 64 \<Longrightarrow> unat (of_nat n :: u64) = n"
  by (simp add: unsigned_of_nat take_bit_nat_eq_self)

lemma unat_lt64: "unat (x :: u64) < 2 ^ 64"
  by (rule order_less_le_trans [OF unsigned_less]) simp

lemma unat_diff_le: "b \<le> a \<Longrightarrow> unat (a - b) = unat a - unat (b :: 'a::len word)"
  by (simp add: unat_sub)

end
