(* ===== verification/Machine.thy ===== *)
theory Machine
  imports Prelude
begin

text \<open>
  The memory the native code and the emulated code share: bytes at 64-bit
  addresses, accessed little-endian, as the C code does through UINT64, UINT32
  and UINT16 pointers.  The lemmas say what a load sees after a store at the
  same, at a disjoint or at a stack-relative address.
\<close>

type_synonym memory = "u64 \<Rightarrow> u8"

section \<open>Loads and stores\<close>

definition load16 :: "memory \<Rightarrow> u64 \<Rightarrow> u16" where
  "load16 m a = ucast (m a) OR push_bit 8 (ucast (m (a + 1)))"

definition load32 :: "memory \<Rightarrow> u64 \<Rightarrow> u32" where
  "load32 m a = ucast (load16 m a) OR push_bit 16 (ucast (load16 m (a + 2)))"

definition load64 :: "memory \<Rightarrow> u64 \<Rightarrow> u64" where
  "load64 m a = ucast (load32 m a) OR push_bit 32 (ucast (load32 m (a + 4)))"

definition store64 :: "u64 \<Rightarrow> u64 \<Rightarrow> memory \<Rightarrow> memory" where
  "store64 a v m = (\<lambda>x. if x - a < 8 then ucast (drop_bit (8 * unat (x - a)) v) else m x)"

section \<open>A load after a store\<close>

lemma store64_byte:
  "i < 8 \<Longrightarrow> store64 a v m (a + i) = ucast (drop_bit (8 * unat i) v)"
  by (simp add: store64_def)

lemma assemble16:
  "ucast (ucast v :: u8) OR push_bit 8 (ucast (ucast (drop_bit 8 v) :: u8)) = (ucast (v :: u64) :: u16)"
  by (rule bit_word_eqI) (auto simp: bit_simps not_le less_Suc_eq)

lemma assemble32:
  "ucast (ucast v :: u16) OR push_bit 16 (ucast (ucast (drop_bit 16 v) :: u16)) = (ucast (v :: u64) :: u32)"
  by (rule bit_word_eqI) (auto simp: bit_simps not_le)

lemma assemble64:
  "ucast (ucast v :: u32) OR push_bit 32 (ucast (ucast (drop_bit 32 v) :: u32)) = (v :: u64)"
  by (rule bit_word_eqI) (auto simp: bit_simps not_le)

lemma load64_store64_same [simp]: "load64 (store64 a v m) a = v"
proof -
  let ?m = "store64 a v m"
  have b: "?m a = ucast v"
    "?m (a + 1) = ucast (drop_bit 8 v)"
    "?m (a + 2) = ucast (drop_bit 16 v)"
    "?m (a + 3) = ucast (drop_bit 8 (drop_bit 16 v))"
    "?m (a + 4) = ucast (drop_bit 32 v)"
    "?m (a + 5) = ucast (drop_bit 8 (drop_bit 32 v))"
    "?m (a + 6) = ucast (drop_bit 16 (drop_bit 32 v))"
    "?m (a + 7) = ucast (drop_bit 8 (drop_bit 16 (drop_bit 32 v)))"
    by (simp_all add: store64_def)
  have h: "load16 ?m a = ucast v"
    "load16 ?m (a + 2) = ucast (drop_bit 16 v)"
    "load16 ?m (a + 4) = ucast (drop_bit 32 v)"
    "load16 ?m (a + 6) = ucast (drop_bit 16 (drop_bit 32 v))"
    unfolding load16_def
    by (simp_all only: add.assoc one_add_one numeral_plus_one add_num_simps b assemble16)
  have w: "load32 ?m a = ucast v" "load32 ?m (a + 4) = ucast (drop_bit 32 v)"
    unfolding load32_def
    by (simp_all only: add.assoc numeral_plus_numeral add_num_simps h assemble32)
  show ?thesis
    unfolding load64_def by (simp only: w assemble64)
qed

text \<open>Two eight-byte cells that do not overlap, also across the end of the address space.\<close>

definition disjoint64 :: "u64 \<Rightarrow> u64 \<Rightarrow> bool" where
  "disjoint64 a b \<longleftrightarrow> 8 \<le> b - a \<and> 8 \<le> a - b"

lemma unat_uminus64: "x \<noteq> 0 \<Longrightarrow> unat (- x :: u64) = 2 ^ 64 - unat x"
  using unat_sub_if' [of 0 x] by (auto simp: unat_eq_0 not_le)

lemma disjoint64_byte:
  assumes "disjoint64 a b" "i < 8"
  shows "\<not> (b + i - a < 8)"
proof -
  let ?d = "unat (b - a)"
  have d1: "8 \<le> ?d" using assms(1) by (simp add: disjoint64_def word_le_nat_alt)
  have ne: "b - a \<noteq> 0" using d1 by auto
  have "unat (a - b) = 2 ^ 64 - ?d"
    using unat_uminus64 [of "b - a"] ne by simp
  moreover have "8 \<le> unat (a - b)"
    using assms(1) by (simp add: disjoint64_def word_le_nat_alt)
  ultimately have d2: "?d \<le> 2 ^ 64 - 8" by simp
  have i: "unat i < 8" using assms(2) by (simp add: word_less_nat_alt)
  have "unat (b - a + i) = ?d + unat i"
    by (rule unat_add_lt) (use d2 i in simp)
  then have "8 \<le> unat (b + i - a)"
    using d1 by (simp add: algebra_simps)
  then show ?thesis by (simp add: word_less_nat_alt)
qed

lemma load64_store64_disjoint:
  assumes "disjoint64 a b"
  shows "load64 (store64 a v m) b = load64 m b"
proof -
  have b: "store64 a v m (b + i) = m (b + i)" if "i < 8" for i
    using disjoint64_byte [OF assms that] by (simp add: store64_def)
  have b0: "store64 a v m b = m b" using b [of 0] by simp
  show ?thesis
    unfolding load64_def load32_def load16_def
    by (simp add: b b0 add.assoc)
qed

section \<open>Cells of a stack\<close>

text \<open>
  The \<open>i\<close>-th eight-byte cell above \<open>a\<close>.  Cells of one stack frame
  are pairwise disjoint as long as the frame is shorter than the address space.
\<close>

definition cell :: "u64 \<Rightarrow> nat \<Rightarrow> u64" where
  "cell a i = a + of_nat (8 * i)"

lemma cell_0 [simp]: "cell a 0 = a"
  by (simp add: cell_def)

lemma cell_cell [simp]: "cell (cell a i) j = cell a (i + j)"
  by (simp add: cell_def algebra_simps)

lemma cell_Suc: "cell (a - 8) (Suc i) = cell a i"
  by (simp add: cell_def algebra_simps)

lemma unat_minus_of_nat64: "0 < n \<Longrightarrow> n < 2 ^ 64 \<Longrightarrow> unat (- (of_nat n) :: u64) = 2 ^ 64 - n"
  by (subst unat_uminus64) (auto simp: unat_of_nat64 unat_eq_0 [symmetric])

lemma cell_disjoint_less:
  assumes "i < j" "j < 2 ^ 60"
  shows "disjoint64 (cell a i) (cell a j)"
proof -
  let ?n = "8 * (j - i)"
  have n: "0 < ?n" "8 \<le> ?n" "?n < 2 ^ 64 - 8" "?n < 2 ^ 64" using assms by auto
  have e: "cell a j - cell a i = of_nat ?n"
    using assms(1) by (simp add: cell_def of_nat_diff algebra_simps)
  then have e': "cell a i - cell a j = - of_nat ?n"
    by (metis minus_diff_eq)
  show ?thesis
    unfolding disjoint64_def e e'
    using n unat_of_nat64 [OF n(4)] unat_minus_of_nat64 [OF n(1,4)]
    by (simp only: word_le_nat_alt) simp
qed

lemma disjoint64_sym: "disjoint64 a b \<longleftrightarrow> disjoint64 b a"
  by (auto simp: disjoint64_def)

lemma cell_disjoint:
  assumes "i \<noteq> j" "i < 2 ^ 60" "j < 2 ^ 60"
  shows "disjoint64 (cell a i) (cell a j)"
  using assms cell_disjoint_less [of i j a] cell_disjoint_less [of j i a] disjoint64_sym
  by (cases "i < j") (auto simp: not_less)

lemma load64_store64_cell:
  assumes "i < 2 ^ 60" "j < 2 ^ 60"
  shows "load64 (store64 (cell a i) v m) (cell a j) = (if i = j then v else load64 m (cell a j))"
  using assms by (auto simp: load64_store64_disjoint cell_disjoint)

end
