(* ===== verification/Critical.thy ===== *)
theory Critical
  imports Prelude
begin

text \<open>
  Critical sections (CriticalBegin and CriticalEnd of Emulator.h) and the hooks
  of EfiHooks.c.  While the emulation engine runs, interrupts are off and the
  interrupt functions of EFI_CPU_ARCH_PROTOCOL only change the apparent
  interrupt state; the last apparent state becomes the real one when the
  section ends.  The locale \<open>virtual_irq\<close> states this contract; it is
  interpreted on the model at the end.
\<close>

section \<open>State\<close>

text \<open>
  A slot of EFI_CPU_ARCH_PROTOCOL holds the firmware's own function or the hook
  of this driver.  \<open>hw_interrupts\<close> is the interrupt enable bit of the host
  processor, which SaveAndDisableInterrupts and SetInterruptState of BaseLib
  read and write.  \<open>assert_failed\<close> latches a failed ASSERT.
\<close>

datatype fnptr = Firmware | Hook

record hook_state =
  gIgnoreInterruptManipulation :: u64
  gApparentInterruptState :: bool
  hw_interrupts :: bool
  assert_failed :: bool
  gCpu_EnableInterrupt :: fnptr
  gCpu_DisableInterrupt :: fnptr
  gCpu_GetInterruptState :: fnptr
  mRealEnableInterrupt :: fnptr
  mRealDisableInterrupt :: fnptr
  mRealGetInterruptState :: fnptr

text \<open>
  The firmware's functions are code outside the repository: parameters.  Each
  takes the interrupt bit and returns a status and the new bit or the state read.
\<close>

record fw_cpu =
  fw_EnableInterrupt :: "bool \<Rightarrow> efi_status \<times> bool"
  fw_DisableInterrupt :: "bool \<Rightarrow> efi_status \<times> bool"
  fw_GetInterruptState :: "bool \<Rightarrow> efi_status \<times> bool"

text \<open>What the PI specification documents of them.\<close>

definition fw_cpu_ok :: "fw_cpu \<Rightarrow> bool" where
  "fw_cpu_ok fw \<longleftrightarrow>
     (\<forall>b. fw_EnableInterrupt fw b = (EFI_SUCCESS, True)) \<and>
     (\<forall>b. fw_DisableInterrupt fw b = (EFI_SUCCESS, False)) \<and>
     (\<forall>b. fw_GetInterruptState fw b = (EFI_SUCCESS, b))"

definition ASSERT :: "bool \<Rightarrow> hook_state \<Rightarrow> hook_state" where
  "ASSERT c s = (if c then s else s\<lparr>assert_failed := True\<rparr>)"

lemma ASSERT_True [simp]: "ASSERT True s = s"
  by (simp add: ASSERT_def)

section \<open>Critical sections\<close>

definition CriticalBegin :: "hook_state \<Rightarrow> hook_state" where
  "CriticalBegin s =
     (let InterruptState = hw_interrupts s;
          s1 = s\<lparr>hw_interrupts := False,
                 gIgnoreInterruptManipulation := gIgnoreInterruptManipulation s + 1\<rparr>
      in if gIgnoreInterruptManipulation s1 > 0
         then s1\<lparr>gApparentInterruptState := InterruptState\<rparr> else s1)"

definition CriticalEnd :: "hook_state \<Rightarrow> hook_state" where
  "CriticalEnd s =
     (let s1 = ASSERT (gIgnoreInterruptManipulation s \<noteq> 0) s;
          s2 = s1\<lparr>gIgnoreInterruptManipulation := gIgnoreInterruptManipulation s1 - 1\<rparr>
      in if gIgnoreInterruptManipulation s2 = 0
         then s2\<lparr>hw_interrupts := gApparentInterruptState s2\<rparr> else s2)"

section \<open>The hooks\<close>

text \<open>
  A call through a slot: the firmware's function or the hook.  A hook may call
  through the saved slot; \<open>call\<close> is that inner call.
\<close>

definition EfiHooksCpuEnableInterrupt ::
  "(fnptr \<Rightarrow> hook_state \<Rightarrow> (efi_status \<times> hook_state) option) \<Rightarrow>
   hook_state \<Rightarrow> (efi_status \<times> hook_state) option" where
  "EfiHooksCpuEnableInterrupt call s =
     (let s1 = s\<lparr>gApparentInterruptState := True\<rparr>
      in if gIgnoreInterruptManipulation s1 = 0 then call (mRealEnableInterrupt s1) s1
         else Some (EFI_SUCCESS, s1))"

definition EfiHooksCpuDisableInterrupt ::
  "(fnptr \<Rightarrow> hook_state \<Rightarrow> (efi_status \<times> hook_state) option) \<Rightarrow>
   hook_state \<Rightarrow> (efi_status \<times> hook_state) option" where
  "EfiHooksCpuDisableInterrupt call s =
     (let s1 = s\<lparr>gApparentInterruptState := False\<rparr>
      in if gIgnoreInterruptManipulation s1 = 0 then call (mRealDisableInterrupt s1) s1
         else Some (EFI_SUCCESS, s1))"

text \<open>
  GetInterruptState writes through its State argument; \<open>State_is_NULL\<close>
  is the check the hook makes.  The result is the status and the value written.
\<close>

definition EfiHooksCpuGetInterruptState ::
  "(fnptr \<Rightarrow> hook_state \<Rightarrow> (efi_status \<times> bool option) option) \<Rightarrow>
   bool \<Rightarrow> hook_state \<Rightarrow> (efi_status \<times> bool option) option" where
  "EfiHooksCpuGetInterruptState call State_is_NULL s =
     (if State_is_NULL then Some (EFI_INVALID_PARAMETER, None)
      else if gIgnoreInterruptManipulation s = 0 then call (mRealGetInterruptState s) s
      else Some (EFI_SUCCESS, Some (gApparentInterruptState s)))"

text \<open>Calls through a slot, with fuel for hooks that call themselves; None is no return.\<close>

fun call_EnableInterrupt ::
  "fw_cpu \<Rightarrow> nat \<Rightarrow> fnptr \<Rightarrow> hook_state \<Rightarrow> (efi_status \<times> hook_state) option" where
  "call_EnableInterrupt fw 0 f s = None"
| "call_EnableInterrupt fw (Suc n) Firmware s =
     (let (st, b) = fw_EnableInterrupt fw (hw_interrupts s) in Some (st, s\<lparr>hw_interrupts := b\<rparr>))"
| "call_EnableInterrupt fw (Suc n) Hook s =
     EfiHooksCpuEnableInterrupt (call_EnableInterrupt fw n) s"

fun call_DisableInterrupt ::
  "fw_cpu \<Rightarrow> nat \<Rightarrow> fnptr \<Rightarrow> hook_state \<Rightarrow> (efi_status \<times> hook_state) option" where
  "call_DisableInterrupt fw 0 f s = None"
| "call_DisableInterrupt fw (Suc n) Firmware s =
     (let (st, b) = fw_DisableInterrupt fw (hw_interrupts s) in Some (st, s\<lparr>hw_interrupts := b\<rparr>))"
| "call_DisableInterrupt fw (Suc n) Hook s =
     EfiHooksCpuDisableInterrupt (call_DisableInterrupt fw n) s"

fun call_GetInterruptState ::
  "fw_cpu \<Rightarrow> nat \<Rightarrow> fnptr \<Rightarrow> bool \<Rightarrow> hook_state \<Rightarrow> (efi_status \<times> bool option) option" where
  "call_GetInterruptState fw 0 f isnull s = None"
| "call_GetInterruptState fw (Suc n) Firmware isnull s =
     (let (st, b) = fw_GetInterruptState fw (hw_interrupts s)
      in Some (st, if EFI_ERROR st then None else Some b))"
| "call_GetInterruptState fw (Suc n) Hook isnull s =
     EfiHooksCpuGetInterruptState (\<lambda>f. call_GetInterruptState fw n f isnull) isnull s"

section \<open>Installing and removing the hooks\<close>

definition EfiHooksInit :: "fw_cpu \<Rightarrow> nat \<Rightarrow> hook_state \<Rightarrow> (efi_status \<times> hook_state) option" where
  "EfiHooksInit fw n s =
     (case call_GetInterruptState fw n (gCpu_GetInterruptState s) False s of
        None \<Rightarrow> None
      | Some (Status, v) \<Rightarrow>
          (let s1 = (case v of None \<Rightarrow> s | Some b \<Rightarrow> s\<lparr>gApparentInterruptState := b\<rparr>)
           in if EFI_ERROR Status then Some (Status, s1)
              else let s2 = CriticalBegin s1;
                       s3 = s2\<lparr>mRealEnableInterrupt := gCpu_EnableInterrupt s2,
                               mRealDisableInterrupt := gCpu_DisableInterrupt s2,
                               mRealGetInterruptState := gCpu_GetInterruptState s2\<rparr>;
                       s4 = s3\<lparr>gCpu_EnableInterrupt := Hook,
                               gCpu_DisableInterrupt := Hook,
                               gCpu_GetInterruptState := Hook\<rparr>
                   in Some (EFI_SUCCESS, CriticalEnd s4)))"

definition EfiHooksCleanup :: "hook_state \<Rightarrow> hook_state" where
  "EfiHooksCleanup s =
     (let s1 = CriticalBegin s;
          s2 = s1\<lparr>gCpu_EnableInterrupt := mRealEnableInterrupt s1,
                  gCpu_DisableInterrupt := mRealDisableInterrupt s1,
                  gCpu_GetInterruptState := mRealGetInterruptState s1\<rparr>
      in CriticalEnd s2)"

section \<open>Lemmas\<close>

text \<open>Outside every section, with the apparent state in step with the real one.\<close>

definition quiet :: "hook_state \<Rightarrow> bool" where
  "quiet s \<longleftrightarrow> gIgnoreInterruptManipulation s = 0 \<and> gApparentInterruptState s = hw_interrupts s"

text \<open>Inside exactly one section.\<close>

definition masked :: "hook_state \<Rightarrow> bool" where
  "masked s \<longleftrightarrow> gIgnoreInterruptManipulation s = 1 \<and> \<not> hw_interrupts s"

definition hooked :: "hook_state \<Rightarrow> bool" where
  "hooked s \<longleftrightarrow>
     gCpu_EnableInterrupt s = Hook \<and> gCpu_DisableInterrupt s = Hook \<and> gCpu_GetInterruptState s = Hook \<and>
     mRealEnableInterrupt s = Firmware \<and> mRealDisableInterrupt s = Firmware \<and>
     mRealGetInterruptState s = Firmware"

definition unhooked :: "hook_state \<Rightarrow> bool" where
  "unhooked s \<longleftrightarrow>
     gCpu_EnableInterrupt s = Firmware \<and> gCpu_DisableInterrupt s = Firmware \<and>
     gCpu_GetInterruptState s = Firmware"

lemma CriticalEnd_CriticalBegin [simp]:
  "quiet s \<Longrightarrow> CriticalEnd (CriticalBegin s) = s"
  by (simp add: quiet_def CriticalBegin_def CriticalEnd_def Let_def)

lemma CriticalBegin_masked: "quiet s \<Longrightarrow> masked (CriticalBegin s)"
  by (simp add: quiet_def masked_def CriticalBegin_def Let_def)

lemma CriticalBegin_irq [simp]: "hw_interrupts (CriticalBegin s) = False"
  by (simp add: CriticalBegin_def Let_def)

lemma CriticalEnd_quiet: "masked s \<Longrightarrow> quiet (CriticalEnd s)"
  by (simp add: quiet_def masked_def CriticalEnd_def Let_def)

lemma CriticalEnd_no_assert: "masked s \<Longrightarrow> assert_failed (CriticalEnd s) = assert_failed s"
  by (simp add: masked_def CriticalEnd_def Let_def)

lemmas critical_defs = CriticalBegin_def CriticalEnd_def quiet_def masked_def Let_def

text \<open>One request to enable or disable interrupts, as any client makes it through gCpu.\<close>

definition request :: "fw_cpu \<Rightarrow> bool \<Rightarrow> hook_state \<Rightarrow> hook_state" where
  "request fw b s =
     (case (if b then call_EnableInterrupt fw 2 (gCpu_EnableInterrupt s) s
            else call_DisableInterrupt fw 2 (gCpu_DisableInterrupt s) s) of
        Some (_, s') \<Rightarrow> s' | None \<Rightarrow> s)"

text \<open>The interrupt state the rest of the system sees.\<close>

definition virt :: "hook_state \<Rightarrow> bool" where
  "virt s = (if gIgnoreInterruptManipulation s = 0 then hw_interrupts s else gApparentInterruptState s)"

lemma request_hooked:
  assumes "fw_cpu_ok fw" "hooked s"
  shows "request fw b s =
    (if gIgnoreInterruptManipulation s = 0
     then s\<lparr>gApparentInterruptState := b, hw_interrupts := b\<rparr>
     else s\<lparr>gApparentInterruptState := b\<rparr>)"
  using assms
  by (cases b) (simp_all add: request_def hooked_def fw_cpu_ok_def numeral_2_eq_2
      EfiHooksCpuEnableInterrupt_def EfiHooksCpuDisableInterrupt_def Let_def)

section \<open>The interface: virtual interrupts\<close>

text \<open>
  What the emulator promises to the rest of the system: requests are honoured
  at once outside a section, recorded inside, and take effect at its end.
\<close>

locale virtual_irq =
  fixes enter :: "'s \<Rightarrow> 's" and leave :: "'s \<Rightarrow> 's" and op :: "bool \<Rightarrow> 's \<Rightarrow> 's"
    and irq :: "'s \<Rightarrow> bool" and vis :: "'s \<Rightarrow> bool"
    and outside :: "'s \<Rightarrow> bool" and inside :: "'s \<Rightarrow> bool"
  assumes outside_vis: "outside s \<Longrightarrow> vis s = irq s"
    and inside_irq: "inside s \<Longrightarrow> \<not> irq s"
    and enter_inside: "outside s \<Longrightarrow> inside (enter s)"
    and enter_vis: "outside s \<Longrightarrow> vis (enter s) = vis s"
    and leave_outside: "inside s \<Longrightarrow> outside (leave s)"
    and leave_vis: "inside s \<Longrightarrow> vis (leave s) = vis s"
    and op_outside: "outside s \<Longrightarrow> outside (op b s)"
    and op_inside: "inside s \<Longrightarrow> inside (op b s)"
    and op_vis: "outside s \<or> inside s \<Longrightarrow> vis (op b s) = b"
begin

lemma ops_inside: "inside s \<Longrightarrow> inside (fold op bs s) \<and> vis (fold op bs s) = last (vis s # bs)"
  by (induction bs arbitrary: s) (auto simp: op_inside op_vis)

text \<open>
  A section with any requests inside runs with interrupts off throughout, and
  afterwards the interrupts are as the last request (or the state before it) says.
\<close>

lemma section_defers:
  assumes "outside s"
  shows "\<not> irq (fold op bs (enter s)) \<and> irq (leave (fold op bs (enter s))) = last (irq s # bs)"
proof -
  have i: "inside (fold op bs (enter s))"
    and v: "vis (fold op bs (enter s)) = last (irq s # bs)"
    using ops_inside [OF enter_inside [OF assms], of bs] enter_vis [OF assms] outside_vis [OF assms]
    by (auto split: if_splits)
  have "irq (leave (fold op bs (enter s))) = vis (fold op bs (enter s))"
    using outside_vis [OF leave_outside [OF i]] leave_vis [OF i] by simp
  with v inside_irq [OF i] show ?thesis by simp
qed

end

lemma request_frame [frame_simps]:
  assumes "fw_cpu_ok fw" "hooked s"
  shows "hooked (request fw b s)" "virt (request fw b s) = b"
    "gIgnoreInterruptManipulation (request fw b s) = gIgnoreInterruptManipulation s"
    "assert_failed (request fw b s) = assert_failed s"
  using assms by (simp_all add: request_hooked) (simp_all add: hooked_def virt_def)

lemma hooked_critical [simp]:
  "hooked (CriticalBegin s) = hooked s" "hooked (CriticalEnd s) = hooked s"
  by (simp_all add: hooked_def CriticalBegin_def CriticalEnd_def ASSERT_def Let_def)

interpretation vi: virtual_irq CriticalBegin CriticalEnd "request fw" hw_interrupts virt
  "\<lambda>s. quiet s \<and> hooked s \<and> fw_cpu_ok fw" "\<lambda>s. masked s \<and> hooked s \<and> fw_cpu_ok fw" for fw
proof
  show "quiet (request fw b s) \<and> hooked (request fw b s) \<and> fw_cpu_ok fw"
    if "quiet s \<and> hooked s \<and> fw_cpu_ok fw" for s b
    using that request_frame(1) [of fw s b] by (simp add: request_hooked quiet_def)
  show "masked (request fw b s) \<and> hooked (request fw b s) \<and> fw_cpu_ok fw"
    if "masked s \<and> hooked s \<and> fw_cpu_ok fw" for s b
    using that request_frame(1) [of fw s b] by (simp add: request_hooked masked_def)
  show "virt (request fw b s) = b"
    if "quiet s \<and> hooked s \<and> fw_cpu_ok fw \<or> masked s \<and> hooked s \<and> fw_cpu_ok fw" for s b
    using that request_frame(2) [of fw s b] by blast
qed (simp_all add: CriticalBegin_masked CriticalEnd_quiet,
  auto simp: critical_defs virt_def)

definition fw_cpu_std :: fw_cpu where
  "fw_cpu_std = \<lparr>fw_EnableInterrupt = (\<lambda>_. (EFI_SUCCESS, True)),
     fw_DisableInterrupt = (\<lambda>_. (EFI_SUCCESS, False)),
     fw_GetInterruptState = (\<lambda>b. (EFI_SUCCESS, b))\<rparr>"

lemma fw_cpu_std_ok: "fw_cpu_ok fw_cpu_std"
  by (simp add: fw_cpu_ok_def fw_cpu_std_def)

definition example_hooks :: "bool \<Rightarrow> fnptr \<Rightarrow> hook_state" where
  "example_hooks b f =
     \<lparr>gIgnoreInterruptManipulation = 0, gApparentInterruptState = b, hw_interrupts = b,
      assert_failed = False, gCpu_EnableInterrupt = f, gCpu_DisableInterrupt = f,
      gCpu_GetInterruptState = f, mRealEnableInterrupt = Firmware,
      mRealDisableInterrupt = Firmware, mRealGetInterruptState = Firmware\<rparr>"

lemma example_hooks_simps [simp]:
  "quiet (example_hooks b f)" "hooked (example_hooks b Hook)" "unhooked (example_hooks b Firmware)"
  "hw_interrupts (example_hooks b f) = b"
  by (simp_all add: example_hooks_def quiet_def hooked_def unhooked_def)

text \<open>
  When EfiHooksInit runs a second time without EfiHooksCleanup between, the saved
  pointers are the hooks themselves: outside a critical section a call through
  the protocol recurses for ever.
\<close>

definition self_hooked :: "hook_state \<Rightarrow> bool" where
  "self_hooked s \<longleftrightarrow>
     gCpu_EnableInterrupt s = Hook \<and> gCpu_DisableInterrupt s = Hook \<and> mRealEnableInterrupt s = Hook \<and>
     mRealDisableInterrupt s = Hook \<and> gIgnoreInterruptManipulation s = 0"

lemma EfiHooksInit_hooked:
  assumes "fw_cpu_ok fw" "hooked s" "quiet s"
  obtains s' where "EfiHooksInit fw 2 s = Some (EFI_SUCCESS, s')" "self_hooked s'"
  using assms
  by (simp add: EfiHooksInit_def hooked_def fw_cpu_ok_def numeral_2_eq_2 critical_defs
      EfiHooksCpuGetInterruptState_def self_hooked_def)

lemma self_hooked_diverges:
  assumes "self_hooked s"
  shows "call_EnableInterrupt fw n (gCpu_EnableInterrupt s) s = None"
    "call_DisableInterrupt fw n (gCpu_DisableInterrupt s) s = None"
proof -
  have "call_EnableInterrupt fw n Hook t = None"
    if "mRealEnableInterrupt t = Hook" "gIgnoreInterruptManipulation t = 0" for t
    using that by (induction n arbitrary: t) (auto simp: EfiHooksCpuEnableInterrupt_def Let_def)
  then show "call_EnableInterrupt fw n (gCpu_EnableInterrupt s) s = None" using assms by (simp add: self_hooked_def)
  have "call_DisableInterrupt fw n Hook t = None"
    if "mRealDisableInterrupt t = Hook" "gIgnoreInterruptManipulation t = 0" for t
    using that by (induction n arbitrary: t) (auto simp: EfiHooksCpuDisableInterrupt_def Let_def)
  then show "call_DisableInterrupt fw n (gCpu_DisableInterrupt s) s = None" using assms by (simp add: self_hooked_def)
qed

section \<open>Properties\<close>

text \<open>
  C9: inside a critical section no sequence of calls to the hooked
  EnableInterrupt and DisableInterrupt can turn the host's interrupts on, and
  when the section ends the interrupts are as the last of those calls asked
  for, or as they were before the section if there was none.
\<close>

theorem critical_section_defers_requests:
  assumes "fw_cpu_ok fw" "hooked s" "quiet s"
  shows "\<not> hw_interrupts (fold (request fw) bs (CriticalBegin s)) \<and>
    hw_interrupts (CriticalEnd (fold (request fw) bs (CriticalBegin s))) = last (hw_interrupts s # bs)"
  using assms by (intro vi.section_defers) simp

theorem critical_section_defers_requests_witness:
  "\<not> hw_interrupts (fold (request fw_cpu_std) [False, True] (CriticalBegin (example_hooks True Hook))) \<and>
   hw_interrupts (CriticalEnd (fold (request fw_cpu_std) [False, True] (CriticalBegin (example_hooks True Hook)))) =
     last (hw_interrupts (example_hooks True Hook) # [False, True])"
  by (rule critical_section_defers_requests) (simp_all add: fw_cpu_std_ok)

text \<open>
  C10: the hooks implement one virtual interrupt flag: at any nesting depth a
  request sets it, GetInterruptState reads it back, and only outside a section
  does the request reach the hardware.
\<close>

theorem hooks_refine_virtual_flag:
  assumes "fw_cpu_ok fw" "hooked s"
  shows "virt (request fw b s) = b \<and>
    call_GetInterruptState fw 2 (gCpu_GetInterruptState s) False (request fw b s) = Some (EFI_SUCCESS, Some b) \<and>
    hw_interrupts (request fw b s) = (if gIgnoreInterruptManipulation s = 0 then b else hw_interrupts s)"
proof -
  have "mRealGetInterruptState s = Firmware" "gCpu_GetInterruptState s = Hook"
    "fw_GetInterruptState fw c = (EFI_SUCCESS, c)" for c
    using assms by (simp_all add: hooked_def fw_cpu_ok_def)
  moreover have "virt (request fw b s) = b"
    using assms by (rule request_frame(2))
  ultimately show ?thesis
    using assms by (simp add: request_hooked numeral_2_eq_2 EfiHooksCpuGetInterruptState_def)
qed

theorem hooks_refine_virtual_flag_witness:
  "virt (request fw_cpu_std False (CriticalBegin (example_hooks True Hook))) = False \<and>
   call_GetInterruptState fw_cpu_std 2 (gCpu_GetInterruptState (CriticalBegin (example_hooks True Hook))) False
     (request fw_cpu_std False (CriticalBegin (example_hooks True Hook))) = Some (EFI_SUCCESS, Some False) \<and>
   hw_interrupts (request fw_cpu_std False (CriticalBegin (example_hooks True Hook))) =
     (if gIgnoreInterruptManipulation (CriticalBegin (example_hooks True Hook)) = 0 then False
      else hw_interrupts (CriticalBegin (example_hooks True Hook)))"
  by (rule hooks_refine_virtual_flag) (simp_all add: fw_cpu_std_ok)

text \<open>
  EfiHooksInit on an unhooked, idle system installs all three hooks without
  disturbing the interrupts, and EfiHooksCleanup restores the firmware's own
  functions and leaves the interrupts as they are.
\<close>

lemma EfiHooksInit_Cleanup_roundtrip:
  assumes "fw_cpu_ok fw" "unhooked s" "gIgnoreInterruptManipulation s = 0"
  shows "\<exists>s'. EfiHooksInit fw 1 s = Some (EFI_SUCCESS, s') \<and> hooked s' \<and> quiet s' \<and>
    hw_interrupts s' = hw_interrupts s \<and> unhooked (EfiHooksCleanup s') \<and>
    hw_interrupts (EfiHooksCleanup s') = hw_interrupts s \<and>
    assert_failed (EfiHooksCleanup s') = assert_failed s"
  using assms
  by (simp add: EfiHooksInit_def EfiHooksCleanup_def unhooked_def fw_cpu_ok_def hooked_def
      critical_defs)

text \<open>
  A critical section entered inside another one loses the interrupt state:
  CriticalBegin saves the state of the hardware at every depth, so the inner
  section overwrites the saved state with "off", and interrupts stay off after
  the outer section has ended although they were on before it.
\<close>

lemma nested_critical_section_loses_state:
  assumes "quiet s"
  shows "\<not> hw_interrupts (CriticalEnd (CriticalEnd (CriticalBegin (CriticalBegin s))))"
  using assms by (simp add: critical_defs)

end
