(* ===== verification/Engine.thy ===== *)
theory Engine
  imports Machine Critical
begin

text \<open>
  The emulated processors: the CpuContext of Emulator.h, the Unicorn engine
  behind it, the REG\_READ and REG\_WRITE macros and the block callback
  CpuTimeoutCb.  Unicorn is not part of the repository: its calls are the
  fields of \<open>uc_ops\<close>, and \<open>uc_ok\<close> collects what its
  documentation promises of them.
\<close>

section \<open>Processors and registers\<close>

text \<open>The two CpuContext variables of Cpu.c, by name.\<close>

datatype cpu_id = CpuX64 | CpuAArch64

instantiation cpu_id :: enum
begin

definition enum_cpu_id :: "cpu_id list" where "enum_cpu_id = [CpuX64, CpuAArch64]"
definition enum_all_cpu_id :: "(cpu_id \<Rightarrow> bool) \<Rightarrow> bool" where
  "enum_all_cpu_id P = (P CpuX64 \<and> P CpuAArch64)"
definition enum_ex_cpu_id :: "(cpu_id \<Rightarrow> bool) \<Rightarrow> bool" where
  "enum_ex_cpu_id P = (P CpuX64 \<or> P CpuAArch64)"

instance
proof
  show univ: "(UNIV :: cpu_id set) = set enum_class.enum"
    using cpu_id.exhaust by (auto simp: enum_cpu_id_def)
  show "distinct (enum_class.enum :: cpu_id list)"
    by (simp add: enum_cpu_id_def)
  show "enum_class.enum_all P = Ball UNIV P" "enum_class.enum_ex P = Bex UNIV P" for P :: "cpu_id \<Rightarrow> bool"
    by (simp_all add: univ enum_cpu_id_def enum_all_cpu_id_def enum_ex_cpu_id_def)
qed

end

lemma ex_cpu: "(\<exists>c :: cpu_id. P c) \<longleftrightarrow> P CpuX64 \<or> P CpuAArch64"
  and all_cpu: "(\<forall>c :: cpu_id. P c) \<longleftrightarrow> P CpuX64 \<and> P CpuAArch64"
  by (metis cpu_id.exhaust)+

text \<open>The register numbers of unicorn.h that Cpu.c and Native.c use.\<close>

datatype uc_reg =
    UC_X86_REG_RIP | UC_X86_REG_RSP | UC_X86_REG_RAX
  | UC_X86_REG_RCX | UC_X86_REG_RDX | UC_X86_REG_R8 | UC_X86_REG_R9
  | UC_ARM64_REG_PC | UC_ARM64_REG_SP | UC_ARM64_REG_LR
  | UC_ARM64_REG_X0 | UC_ARM64_REG_X1 | UC_ARM64_REG_X2 | UC_ARM64_REG_X3
  | UC_ARM64_REG_X4 | UC_ARM64_REG_X5 | UC_ARM64_REG_X6 | UC_ARM64_REG_X7
  | UC_REG_other nat

text \<open>The error codes the driver distinguishes; the others only stop the emulation.\<close>

datatype uc_err = UC_ERR_OK | UC_ERR_FIND_TB | UC_ERR_other nat

datatype uc_prot = UC_PROT_ALL | UC_PROT_READ_WRITE

section \<open>State\<close>

text \<open>
  CpuContext: the register numbers and function pointers CpuInitEx selects (a
  pointer to one of the X64 or AArch64 functions, or NULL), the number of run
  contexts on the chain, the bounds of the stack and of the code cache, the
  registers saved at initialisation, and the timeout counters.
\<close>

datatype isa_functions = X64Functions | AArch64Functions

record 'c CpuContext =
  EmuMachineType :: u16
  StackReg :: uc_reg
  ProgramCounterReg :: uc_reg
  ReturnValueReg :: uc_reg
  Contexts :: int
  EmuThunkPre :: "isa_functions option"
  EmuThunkPost :: "isa_functions option"
  NativeThunk :: "isa_functions option"
  UnicornCodeGenBuf :: u64
  UnicornCodeGenBufEnd :: u64
  EmuStackStart :: u64
  EmuStackTop :: u64
  InitialState :: 'c
  TbCount :: u64
  ExitPeriodTbs :: u64
  ExitPeriodTicks :: u64
  StoppedOnTimeout :: bool

text \<open>
  The state every component works on: the shared memory, the critical section
  state of the host, and per processor its engine and its CpuContext.  The later
  theories extend this record.
\<close>

record ('u, 'c) machine =
  mem :: memory
  hooks :: hook_state
  UE :: "cpu_id \<Rightarrow> 'u"
  cpus :: "cpu_id \<Rightarrow> 'c CpuContext"

text \<open>The timeout counters as CpuTimeoutCb sees them: TbCount, ExitPeriodTbs, StoppedOnTimeout.\<close>

type_synonym tb_state = "u64 \<times> u64 \<times> bool"

text \<open>
  The calls into Unicorn.  \<open>uc_emu_start\<close> gets the processor the engine
  was opened for, the two callbacks that are installed on the engine (is this address native code; a block was entered,
  which also says whether uc\_emu\_stop was called), the program counter, and the
  state the emulated code works on; None is an emulation that never comes back.
\<close>

record ('u, 'c) uc_ops =
  uc_reg_read :: "'u \<Rightarrow> uc_reg \<Rightarrow> uc_err \<times> u64"
  uc_reg_write :: "'u \<Rightarrow> uc_reg \<Rightarrow> u64 \<Rightarrow> uc_err \<times> 'u"
  uc_context_save :: "'u \<Rightarrow> uc_err \<times> 'c"
  uc_context_restore :: "'u \<Rightarrow> 'c \<Rightarrow> uc_err \<times> 'u"
  uc_mem_protect :: "'u \<Rightarrow> u64 \<Rightarrow> u64 \<Rightarrow> uc_prot \<Rightarrow> uc_err \<times> 'u"
  uc_ctl_remove_cache :: "'u \<Rightarrow> u64 \<Rightarrow> u64 \<Rightarrow> 'u"
  uc_emu_start :: "cpu_id \<Rightarrow> (u64 \<Rightarrow> bool) \<Rightarrow> (tb_state \<Rightarrow> tb_state \<times> bool) \<Rightarrow> u64 \<Rightarrow>
    'u \<times> memory \<times> tb_state \<Rightarrow> (uc_err \<times> 'u \<times> memory \<times> tb_state) option"

definition rd :: "('u, 'c) uc_ops \<Rightarrow> 'u \<Rightarrow> uc_reg \<Rightarrow> u64" where
  "rd U u r = snd (uc_reg_read U u r)"

definition wr :: "('u, 'c) uc_ops \<Rightarrow> uc_reg \<Rightarrow> u64 \<Rightarrow> 'u \<Rightarrow> 'u" where
  "wr U r v u = snd (uc_reg_write U u r v)"

text \<open>
  What is fixed for a build and a load of the driver: Unicorn, the build options,
  the address of the variable CpuReturnToNative, the instruction alignment of
  the host (NATIVE\_INSN\_ALIGNMENT of Emulator.h), the driver's own image and
  the addresses of functions whose pointers are compared or handed out.
\<close>

datatype host_arch = MDE_CPU_AARCH64 | MDE_CPU_RISCV64 | MDE_CPU_LOONGARCH64

definition NATIVE_INSN_ALIGNMENT :: "host_arch \<Rightarrow> u64" where
  "NATIVE_INSN_ALIGNMENT a = (case a of MDE_CPU_AARCH64 \<Rightarrow> 4 | MDE_CPU_RISCV64 \<Rightarrow> 2 | MDE_CPU_LOONGARCH64 \<Rightarrow> 4)"

definition HOST_MACHINE_TYPE :: "host_arch \<Rightarrow> u16" where
  "HOST_MACHINE_TYPE a =
     (case a of MDE_CPU_AARCH64 \<Rightarrow> 0xAA64 | MDE_CPU_RISCV64 \<Rightarrow> 0x5064 | MDE_CPU_LOONGARCH64 \<Rightarrow> 0x6264)"

record ('u, 'c) env =
  UC :: "('u, 'c) uc_ops"
  options :: build
  host :: host_arch
  RETURN_TO_NATIVE_MAGIC :: u64
  gDriverImage_ImageBase :: u64
  gDriverImage_ImageSize :: u64
  address_of_CpuRunImage :: u64

section \<open>Register access\<close>

text \<open>The macros of Emulator.h: the error code is asserted to be UC\_ERR\_OK.\<close>

definition ASSERT_w :: "bool \<Rightarrow> ('u, 'c, 'z) machine_scheme \<Rightarrow> ('u, 'c, 'z) machine_scheme" where
  "ASSERT_w c w = w\<lparr>hooks := ASSERT c (hooks w)\<rparr>"

definition REG_READ ::
  "('u, 'c) uc_ops \<Rightarrow> cpu_id \<Rightarrow> uc_reg \<Rightarrow> ('u, 'c, 'z) machine_scheme \<Rightarrow>
   u64 \<times> ('u, 'c, 'z) machine_scheme" where
  "REG_READ U cpu x w =
     (let (UcErr, Reg) = uc_reg_read U (UE w cpu) x in (Reg, ASSERT_w (UcErr = UC_ERR_OK) w))"

definition REG_WRITE ::
  "('u, 'c) uc_ops \<Rightarrow> cpu_id \<Rightarrow> uc_reg \<Rightarrow> u64 \<Rightarrow> ('u, 'c, 'z) machine_scheme \<Rightarrow>
   ('u, 'c, 'z) machine_scheme" where
  "REG_WRITE U cpu x Val w =
     (let (UcErr, u) = uc_reg_write U (UE w cpu) x Val
      in ASSERT_w (UcErr = UC_ERR_OK) (w\<lparr>UE := (UE w)(cpu := u)\<rparr>))"

section \<open>Block callback\<close>

definition CpuTimeoutCb :: "tb_state \<Rightarrow> tb_state \<times> bool" where
  "CpuTimeoutCb t =
     (case t of (count, period, stopped) \<Rightarrow>
        let count1 = count + 1
        in if count1 AND (period - 1) = 0 then ((count1, period, True), True)
           else ((count1, period, stopped), False))"

section \<open>What Unicorn documents\<close>

text \<open>
  Register accesses and context saves succeed; a register that was written reads
  back, the others keep their value; restoring a saved context gives every
  register its value at the save.  uc\_emu\_start stops with UC\_ERR\_FIND\_TB
  only at an address the find-failure callback called native, and the timeout
  counters change only by calls of the block callback.
\<close>

definition program_counter_reg :: "cpu_id \<Rightarrow> uc_reg" where
  "program_counter_reg cpu = (case cpu of CpuX64 \<Rightarrow> UC_X86_REG_RIP | CpuAArch64 \<Rightarrow> UC_ARM64_REG_PC)"

definition uc_regs_ok :: "('u, 'c) uc_ops \<Rightarrow> bool" where
  "uc_regs_ok U \<longleftrightarrow>
     (\<forall>u r. fst (uc_reg_read U u r) = UC_ERR_OK) \<and>
     (\<forall>u r v. fst (uc_reg_write U u r v) = UC_ERR_OK) \<and>
     (\<forall>u r v r'. rd U (wr U r v u) r' = (if r' = r then v else rd U u r'))"

definition uc_context_ok :: "('u, 'c) uc_ops \<Rightarrow> bool" where
  "uc_context_ok U \<longleftrightarrow>
     (\<forall>u. fst (uc_context_save U u) = UC_ERR_OK) \<and>
     (\<forall>u c. fst (uc_context_restore U u c) = UC_ERR_OK) \<and>
     (\<forall>u u' r. rd U (snd (uc_context_restore U u' (snd (uc_context_save U u)))) r = rd U u r)"

definition uc_emu_ok :: "('u, 'c) uc_ops \<Rightarrow> bool" where
  "uc_emu_ok U \<longleftrightarrow>
     (\<forall>cpu is_native block pc u m t e u' m' t'.
        uc_emu_start U cpu is_native block pc (u, m, t) = Some (e, u', m', t') \<longrightarrow>
          (\<exists>n. t' = ((fst \<circ> block) ^^ n) t) \<and>
          (e = UC_ERR_FIND_TB \<longrightarrow> is_native (rd U u' (program_counter_reg cpu))))"

definition uc_ok :: "('u, 'c) uc_ops \<Rightarrow> bool" where
  "uc_ok U \<longleftrightarrow> uc_regs_ok U \<and> uc_context_ok U \<and> uc_emu_ok U"

section \<open>Lemmas\<close>

lemma ASSERT_w_True [simp]: "ASSERT_w True w = w"
  by (simp add: ASSERT_w_def)

lemma uc_ok_regs: "uc_ok U \<Longrightarrow> uc_regs_ok U"
  by (simp add: uc_ok_def)

lemma uc_regs_okD:
  assumes "uc_regs_ok U"
  shows "uc_reg_read U u r = (UC_ERR_OK, rd U u r)" "uc_reg_write U u r v = (UC_ERR_OK, wr U r v u)"
  using assms by (simp_all add: uc_regs_ok_def rd_def wr_def prod_eq_iff)

lemma REG_READ_ok: "uc_regs_ok U \<Longrightarrow> REG_READ U cpu r w = (rd U (UE w cpu) r, w)"
  by (simp add: REG_READ_def uc_regs_okD)

text \<open>The state with another engine state for one processor.\<close>

definition set_UE :: "cpu_id \<Rightarrow> 'u \<Rightarrow> ('u, 'c, 'z) machine_scheme \<Rightarrow> ('u, 'c, 'z) machine_scheme" where
  "set_UE c u w = w\<lparr>UE := (UE w)(c := u)\<rparr>"

lemma set_UE_simps [simp]:
  "UE (set_UE c u w) c' = (if c' = c then u else UE w c')"
  "mem (set_UE c u w) = mem w" "hooks (set_UE c u w) = hooks w" "cpus (set_UE c u w) = cpus w"
  "set_UE c u (set_UE c v w) = set_UE c u w"
  "set_UE c (UE w c) w = w"
  "set_UE c u (w\<lparr>mem := m\<rparr>) = (set_UE c u w)\<lparr>mem := m\<rparr>"
  by (simp_all add: set_UE_def)

lemma REG_WRITE_ok: "uc_regs_ok U \<Longrightarrow> REG_WRITE U cpu r v w = set_UE cpu (wr U r v (UE w cpu)) w"
  by (simp add: REG_WRITE_def uc_regs_okD set_UE_def)

lemma rd_wr: "uc_regs_ok U \<Longrightarrow> rd U (wr U r v u) r' = (if r' = r then v else rd U u r')"
  by (simp add: uc_regs_ok_def)

lemmas reg_simps = REG_READ_ok REG_WRITE_ok rd_wr

section \<open>A concrete engine\<close>

text \<open>
  An engine that meets these promises, for concrete evaluations: the registers
  are a function, and the code at an address is one block with a given effect on
  registers and memory, after which the emulation stops at the new program
  counter.
\<close>

definition function_ops ::
  "(cpu_id \<Rightarrow> u64 \<Rightarrow> (uc_reg \<Rightarrow> u64) \<times> memory \<Rightarrow> (uc_reg \<Rightarrow> u64) \<times> memory) \<Rightarrow>
   (uc_reg \<Rightarrow> u64, uc_reg \<Rightarrow> u64) uc_ops" where
  "function_ops guest = \<lparr>
     uc_reg_read = (\<lambda>u r. (UC_ERR_OK, u r)),
     uc_reg_write = (\<lambda>u r v. (UC_ERR_OK, u(r := v))),
     uc_context_save = (\<lambda>u. (UC_ERR_OK, u)),
     uc_context_restore = (\<lambda>u c. (UC_ERR_OK, c)),
     uc_mem_protect = (\<lambda>u a n p. (UC_ERR_OK, u)),
     uc_ctl_remove_cache = (\<lambda>u a b. u),
     uc_emu_start = (\<lambda>cpu is_native block pc (u, m, t).
       let (u', m') = guest cpu pc (u, m); t' = fst (block t)
       in Some (if is_native (u' (program_counter_reg cpu)) then UC_ERR_FIND_TB else UC_ERR_other 1, u', m', t'))\<rparr>"

lemma function_ops_ok: "uc_ok (function_ops guest)"
proof -
  have "uc_emu_ok (function_ops guest)"
    unfolding uc_emu_ok_def
    by (auto simp: function_ops_def rd_def split: prod.splits if_splits intro: exI [of _ 1])
  then show ?thesis
    by (simp add: uc_ok_def uc_regs_ok_def uc_context_ok_def function_ops_def rd_def wr_def)
qed

definition default_build :: build where
  "default_build = \<lparr>MAU_SUPPORTS_X64_BINS = True, MAU_SUPPORTS_AARCH64_BINS = False, MAU_ON_PRIVATE_STACK = False,
     MAU_CHECK_ORPHAN_CONTEXTS = False, MAU_WRAPPED_ENTRY_POINTS = False, MAU_TRY_WITHOUT_MMU = False,
     MAU_EMU_TIMEOUT_NONE = False, NDEBUG = True\<rparr>"

definition example_env ::
  "(cpu_id \<Rightarrow> u64 \<Rightarrow> (uc_reg \<Rightarrow> u64) \<times> memory \<Rightarrow> (uc_reg \<Rightarrow> u64) \<times> memory) \<Rightarrow>
   (uc_reg \<Rightarrow> u64, uc_reg \<Rightarrow> u64) env" where
  "example_env guest = \<lparr>UC = function_ops guest, options = default_build, host = MDE_CPU_AARCH64,
     RETURN_TO_NATIVE_MAGIC = 0x4000, gDriverImage_ImageBase = 0x3000, gDriverImage_ImageSize = 0x2000,
     address_of_CpuRunImage = 0x3100\<rparr>"

end
