(* ===== verification/Image.thy ===== *)
theory Image
  imports Engine
begin

text \<open>
  Image.c and the address classification of Emulator.c and Emulator.h: the list
  of emulated images, lookup by address and by handle, the three functions of
  EDKII_PECOFF_IMAGE_EMULATOR_PROTOCOL, and the predicates that tell native code,
  emulated code, this driver and the code cache apart.  The locale
  \<open>range_map\<close> is the contract of the image list as a map from addresses
  to images.
\<close>

section \<open>Data\<close>

text \<open>A jump buffer holds the number of the SetJump that filled it.\<close>

record ImageRecord =
  ImageBase :: u64
  ImageEntry :: u64
  ImageSize :: u64
  ImageHandle :: efi_handle
  rec_Cpu :: "cpu_id option"
  ImageExitJumpBuffer :: nat
  ImageExitStatus :: u64
  ImageExitDataSize :: u64
  ImageExitData :: u64

text \<open>mImageList holds the records in list order; attr_calls are the calls of gCpu->SetMemoryAttributes, latest first.\<close>

record ('u, 'c) image_world = "('u, 'c) machine" +
  mImageList :: "ptr list"
  Records :: "ptr \<Rightarrow> ImageRecord"
  attr_calls :: "(u64 \<times> u64 \<times> u64) list"

text \<open>
  PeCoffLib, the pool allocator and the CPU protocol are firmware: what they
  answer is a parameter.  PeCoffLoaderGetImageInfo gives the status, the
  subsystem and the machine type of the image at an address; AllocatePool gives
  a record with whatever the memory held.
\<close>

record image_services =
  PeCoffLoaderGetImageInfo :: "memory \<Rightarrow> u64 \<Rightarrow> efi_status \<times> u16 \<times> u16"
  AllocatePool_Record :: "(ptr \<times> ImageRecord) option"
  fw_SetMemoryAttributes :: "u64 \<Rightarrow> u64 \<Rightarrow> u64 \<Rightarrow> efi_status"

definition EFI_IMAGE_SUBSYSTEM_EFI_APPLICATION :: u16 where "EFI_IMAGE_SUBSYSTEM_EFI_APPLICATION = 10"
definition EFI_IMAGE_SUBSYSTEM_EFI_BOOT_SERVICE_DRIVER :: u16 where
  "EFI_IMAGE_SUBSYSTEM_EFI_BOOT_SERVICE_DRIVER = 11"
definition EFI_IMAGE_MACHINE_X64 :: u16 where "EFI_IMAGE_MACHINE_X64 = 0x8664"
definition EFI_IMAGE_MACHINE_AARCH64 :: u16 where "EFI_IMAGE_MACHINE_AARCH64 = 0xAA64"
definition EFI_MEMORY_XP :: u64 where "EFI_MEMORY_XP = 0x4000"

section \<open>Lookup\<close>

definition covers :: "ImageRecord \<Rightarrow> u64 \<Rightarrow> bool" where
  "covers Record Address \<longleftrightarrow> Address \<ge> ImageBase Record \<and> Address < ImageBase Record + ImageSize Record"

definition ImageFindByAddress :: "u64 \<Rightarrow> ('u, 'c, 'z) image_world_scheme \<Rightarrow> ptr option" where
  "ImageFindByAddress Address w = find (\<lambda>Record. covers (Records w Record) Address) (mImageList w)"

definition ImageFindByHandle :: "efi_handle \<Rightarrow> ('u, 'c, 'z) image_world_scheme \<Rightarrow> ptr option" where
  "ImageFindByHandle Handle w = find (\<lambda>Record. Handle = ImageHandle (Records w Record)) (mImageList w)"

definition EmulatorIsNativeCall :: "('u, 'c) env \<Rightarrow> u64 \<Rightarrow> ('u, 'c, 'z) image_world_scheme \<Rightarrow> bool" where
  "EmulatorIsNativeCall E ProgramCounter w =
     (if ProgramCounter AND (NATIVE_INSN_ALIGNMENT (host E) - 1) \<noteq> 0 then False
      else if ProgramCounter < EFI_PAGE_SIZE then True
      else if ImageFindByAddress ProgramCounter w \<noteq> None then False
      else True)"

text \<open>The find-failure callback of Cpu.c.\<close>

definition CpuIsNativeCb :: "('u, 'c) env \<Rightarrow> ('u, 'c, 'z) image_world_scheme \<Rightarrow> u64 \<Rightarrow> bool" where
  "CpuIsNativeCb E w Address =
     (if Address = RETURN_TO_NATIVE_MAGIC E \<or> EmulatorIsNativeCall E Address w then True else False)"

definition IsDriverImagePointer :: "('u, 'c) env \<Rightarrow> u64 \<Rightarrow> bool" where
  "IsDriverImagePointer E Pointer \<longleftrightarrow>
     Pointer \<ge> gDriverImage_ImageBase E \<and>
     Pointer \<le> gDriverImage_ImageBase E + gDriverImage_ImageSize E - 1"

definition CpuAddrIsCodeGen :: "('u, 'c) env \<Rightarrow> u64 \<Rightarrow> ('u, 'c, 'z) machine_scheme \<Rightarrow> bool" where
  "CpuAddrIsCodeGen E Address w =
     (if MAU_SUPPORTS_X64_BINS (options E) \<and>
         Address \<ge> UnicornCodeGenBuf (cpus w CpuX64) \<and> Address < UnicornCodeGenBufEnd (cpus w CpuX64) then True
      else if MAU_SUPPORTS_AARCH64_BINS (options E) \<and>
         Address \<ge> UnicornCodeGenBuf (cpus w CpuAArch64) \<and> Address < UnicornCodeGenBufEnd (cpus w CpuAArch64) then True
      else False)"

section \<open>Code ranges of the engine\<close>

text \<open>Both functions of Cpu.c only report a failing uc\_mem\_protect on the debug console.\<close>

definition CpuRegisterCodeRange ::
  "('u, 'c) env \<Rightarrow> cpu_id \<Rightarrow> u64 \<Rightarrow> u64 \<Rightarrow> ('u, 'c, 'z) machine_scheme \<Rightarrow> ('u, 'c, 'z) machine_scheme" where
  "CpuRegisterCodeRange E Cpu Base Size w =
     (let w1 = hooks_update CriticalBegin w;
          (UcErr, u) = uc_mem_protect (UC E) (UE w1 Cpu) Base Size UC_PROT_ALL;
          w2 = w1\<lparr>UE := (UE w1)(Cpu := u)\<rparr>
      in hooks_update CriticalEnd w2)"

definition CpuUnregisterCodeRange ::
  "('u, 'c) env \<Rightarrow> cpu_id \<Rightarrow> u64 \<Rightarrow> u64 \<Rightarrow> ('u, 'c, 'z) machine_scheme \<Rightarrow> ('u, 'c, 'z) machine_scheme" where
  "CpuUnregisterCodeRange E Cpu Base Size w =
     (let w1 = hooks_update CriticalBegin w;
          (UcErr, u) = uc_mem_protect (UC E) (UE w1 Cpu) Base Size UC_PROT_READ_WRITE;
          w2 = w1\<lparr>UE := (UE w1)(Cpu := uc_ctl_remove_cache (UC E) u Base (Base + Size))\<rparr>
      in hooks_update CriticalEnd w2)"

section \<open>The image emulator protocol\<close>

definition SetMemoryAttributes ::
  "image_services \<Rightarrow> u64 \<Rightarrow> u64 \<Rightarrow> u64 \<Rightarrow> ('u, 'c, 'z) image_world_scheme \<Rightarrow>
   efi_status \<times> ('u, 'c, 'z) image_world_scheme" where
  "SetMemoryAttributes S Base Size Attributes w =
     (fw_SetMemoryAttributes S Base Size Attributes, w\<lparr>attr_calls := (Base, Size, Attributes) # attr_calls w\<rparr>)"

definition ImageProtocolSupported :: "u16 \<Rightarrow> bool" where
  "ImageProtocolSupported ImageType =
     (if ImageType \<noteq> EFI_IMAGE_SUBSYSTEM_EFI_APPLICATION \<and>
         ImageType \<noteq> EFI_IMAGE_SUBSYSTEM_EFI_BOOT_SERVICE_DRIVER
      then False else True)"

text \<open>The processor of an image, from the machine type, as the \#ifdef blocks of ImageProtocolRegister select it.\<close>

definition image_cpu :: "build \<Rightarrow> u16 \<Rightarrow> cpu_id option" where
  "image_cpu b Machine =
     (let Cpu = (if MAU_SUPPORTS_X64_BINS b \<and> Machine = EFI_IMAGE_MACHINE_X64 then Some CpuX64 else None)
      in if MAU_SUPPORTS_AARCH64_BINS b \<and> Cpu = None \<and> Machine = EFI_IMAGE_MACHINE_AARCH64
         then Some CpuAArch64 else Cpu)"

text \<open>
  The result is the status, the entry point (an in and out argument) and the
  state.  An image of an unsupported machine type fails the assertion
  Record->Cpu != NULL, or, without assertions, dereferences it.
\<close>

definition ImageProtocolRegister ::
  "('u, 'c) env \<Rightarrow> image_services \<Rightarrow> u64 \<Rightarrow> u64 \<Rightarrow> u64 \<Rightarrow> ('u, 'c, 'z) image_world_scheme \<Rightarrow>
   ('j, efi_status \<times> u64 \<times> ('u, 'c, 'z) image_world_scheme) outcome" where
  "ImageProtocolRegister E S Base Size EntryPoint w =
     (let (Status, ImageType, Machine) = PeCoffLoaderGetImageInfo S (mem w) Base
      in if EFI_ERROR Status then Done (Status, EntryPoint, w)
         else if \<not> NDEBUG (options E) \<and>
            \<not> (ImageType = EFI_IMAGE_SUBSYSTEM_EFI_APPLICATION \<or>
               ImageType = EFI_IMAGE_SUBSYSTEM_EFI_BOOT_SERVICE_DRIVER)
         then Crashed ASSERT_failed
         else case AllocatePool_Record S of
           None \<Rightarrow> Done (EFI_OUT_OF_RESOURCES, EntryPoint, w)
         | Some (Record, contents) \<Rightarrow>
             (case image_cpu (options E) Machine of
                None \<Rightarrow> Crashed (if NDEBUG (options E) then NULL_dereference else ASSERT_failed)
              | Some Cpu \<Rightarrow>
                  let w1 = w\<lparr>Records := (Records w)(Record := contents\<lparr>rec_Cpu := Some Cpu, ImageBase := Base,
                                ImageEntry := EntryPoint, ImageSize := Size\<rparr>)\<rparr>;
                      w2 = CpuRegisterCodeRange E Cpu Base Size w1;
                      w3 = w2\<lparr>mImageList := mImageList w2 @ [Record]\<rparr>;
                      (Status, w4) = SetMemoryAttributes S Base Size EFI_MEMORY_XP w3
                  in if EFI_ERROR Status then Done (Status, EntryPoint, w4)
                     else Done (EFI_SUCCESS, address_of_CpuRunImage E, w4)))"

definition ImageProtocolUnregister ::
  "('u, 'c) env \<Rightarrow> image_services \<Rightarrow> u64 \<Rightarrow> ('u, 'c, 'z) image_world_scheme \<Rightarrow>
   ('j, efi_status \<times> ('u, 'c, 'z) image_world_scheme) outcome" where
  "ImageProtocolUnregister E S Base w =
     (case ImageFindByAddress Base w of
        None \<Rightarrow> Done (EFI_NOT_FOUND, w)
      | Some Record \<Rightarrow>
          (case rec_Cpu (Records w Record) of
             None \<Rightarrow> Crashed NULL_dereference
           | Some Cpu \<Rightarrow>
               let w1 = CpuUnregisterCodeRange E Cpu (ImageBase (Records w Record)) (ImageSize (Records w Record)) w;
                   (Status, w2) = SetMemoryAttributes S (ImageBase (Records w Record)) (ImageSize (Records w Record)) 0 w1
               in Done (Status, w2\<lparr>mImageList := remove1 Record (mImageList w2)\<rparr>)))"

section \<open>Lemmas\<close>

lemma range_frame [frame_simps]:
  "mImageList (CpuRegisterCodeRange E c a n w) = mImageList w"
  "Records (CpuRegisterCodeRange E c a n w) = Records w"
  "attr_calls (CpuRegisterCodeRange E c a n w) = attr_calls w"
  "mem (CpuRegisterCodeRange E c a n w) = mem w"
  "cpus (CpuRegisterCodeRange E c a n w) = cpus w"
  "mImageList (CpuUnregisterCodeRange E c a n w) = mImageList w"
  "Records (CpuUnregisterCodeRange E c a n w) = Records w"
  "attr_calls (CpuUnregisterCodeRange E c a n w) = attr_calls w"
  "mem (CpuUnregisterCodeRange E c a n w) = mem w"
  "cpus (CpuUnregisterCodeRange E c a n w) = cpus w"
  by (simp_all add: CpuRegisterCodeRange_def CpuUnregisterCodeRange_def Let_def split: prod.split)

lemma range_hooks [frame_simps]:
  "quiet (hooks w) \<Longrightarrow> hooks (CpuRegisterCodeRange E c a n w) = hooks w"
  "quiet (hooks w) \<Longrightarrow> hooks (CpuUnregisterCodeRange E c a n w) = hooks w"
  by (simp_all add: CpuRegisterCodeRange_def CpuUnregisterCodeRange_def Let_def split: prod.split)

text \<open>
  The invariant of the image list: no record twice, each record of a supported
  processor and of a non-empty range that does not wrap, and no address in two
  images.
\<close>

definition images_ok :: "('u, 'c, 'z) image_world_scheme \<Rightarrow> bool" where
  "images_ok w \<longleftrightarrow> distinct (mImageList w) \<and>
     (\<forall>p \<in> set (mImageList w). rec_Cpu (Records w p) \<noteq> None \<and>
        ImageBase (Records w p) < ImageBase (Records w p) + ImageSize (Records w p) \<and>
        (\<forall>q \<in> set (mImageList w). \<forall>a. covers (Records w p) a \<and> covers (Records w q) a \<longrightarrow> p = q))"

definition fresh_range :: "u64 \<Rightarrow> u64 \<Rightarrow> ptr \<Rightarrow> ('u, 'c, 'z) image_world_scheme \<Rightarrow> bool" where
  "fresh_range b n p w \<longleftrightarrow> p \<notin> set (mImageList w) \<and> b < b + n \<and>
     (\<forall>q \<in> set (mImageList w). \<forall>a. b \<le> a \<and> a < b + n \<longrightarrow> \<not> covers (Records w q) a)"

lemma ImageFindByAddress_iff:
  assumes "images_ok w"
  shows "ImageFindByAddress a w = Some p \<longleftrightarrow> p \<in> set (mImageList w) \<and> covers (Records w p) a"
proof
  assume "ImageFindByAddress a w = Some p"
  then show "p \<in> set (mImageList w) \<and> covers (Records w p) a"
    by (auto simp: ImageFindByAddress_def find_Some_iff)
next
  assume p: "p \<in> set (mImageList w) \<and> covers (Records w p) a"
  then obtain q where q: "ImageFindByAddress a w = Some q"
    by (cases "ImageFindByAddress a w") (auto simp: ImageFindByAddress_def find_None_iff)
  then have "q \<in> set (mImageList w) \<and> covers (Records w q) a"
    by (auto simp: ImageFindByAddress_def find_Some_iff)
  with p q assms show "ImageFindByAddress a w = Some p"
    unfolding images_ok_def by blast
qed

lemma ImageFindByAddress_None:
  "ImageFindByAddress a w = None \<longleftrightarrow> (\<forall>p \<in> set (mImageList w). \<not> covers (Records w p) a)"
  by (auto simp: ImageFindByAddress_def find_None_iff)

text \<open>The state after a registration and after a removal.\<close>

definition image_added ::
  "('u, 'c) env \<Rightarrow> cpu_id \<Rightarrow> u64 \<Rightarrow> u64 \<Rightarrow> u64 \<Rightarrow> ptr \<Rightarrow> ImageRecord \<Rightarrow>
   ('u, 'c, 'z) image_world_scheme \<Rightarrow> ('u, 'c, 'z) image_world_scheme" where
  "image_added E Cpu b n entry p contents w =
     (let w2 = CpuRegisterCodeRange E Cpu b n (w\<lparr>Records := (Records w)(p := contents\<lparr>rec_Cpu := Some Cpu, ImageBase := b,
                 ImageEntry := entry, ImageSize := n\<rparr>)\<rparr>)
      in w2\<lparr>mImageList := mImageList w2 @ [p], attr_calls := (b, n, EFI_MEMORY_XP) # attr_calls w2\<rparr>)"

definition image_removed ::
  "('u, 'c) env \<Rightarrow> ptr \<Rightarrow> ('u, 'c, 'z) image_world_scheme \<Rightarrow> ('u, 'c, 'z) image_world_scheme" where
  "image_removed E p w =
     (let w1 = CpuUnregisterCodeRange E (the (rec_Cpu (Records w p))) (ImageBase (Records w p)) (ImageSize (Records w p)) w
      in w1\<lparr>mImageList := remove1 p (mImageList w1),
            attr_calls := (ImageBase (Records w p), ImageSize (Records w p), 0) # attr_calls w1\<rparr>)"

lemma image_added_simps [simp]:
  "mImageList (image_added E c b n e p r w) = mImageList w @ [p]"
  "Records (image_added E c b n e p r w) =
     (Records w)(p := r\<lparr>rec_Cpu := Some c, ImageBase := b, ImageEntry := e, ImageSize := n\<rparr>)"
  "attr_calls (image_added E c b n e p r w) = (b, n, EFI_MEMORY_XP) # attr_calls w"
  "mem (image_added E c b n e p r w) = mem w"
  "quiet (hooks w) \<Longrightarrow> hooks (image_added E c b n e p r w) = hooks w"
  by (simp_all add: image_added_def Let_def frame_simps)

lemma image_removed_simps [simp]:
  "mImageList (image_removed E p w) = remove1 p (mImageList w)"
  "Records (image_removed E p w) = Records w"
  "mem (image_removed E p w) = mem w"
  "quiet (hooks w) \<Longrightarrow> hooks (image_removed E p w) = hooks w"
  by (simp_all add: image_removed_def Let_def frame_simps)

lemma ImageProtocolRegister_added:
  assumes "PeCoffLoaderGetImageInfo S (mem w) b = (st, ty, machine)" "\<not> EFI_ERROR st"
    and "ImageProtocolSupported ty" "AllocatePool_Record S = Some (p, r)" "image_cpu (options E) machine = Some c"
  shows "ImageProtocolRegister E S b n e w =
    (let Status = fw_SetMemoryAttributes S b n EFI_MEMORY_XP
     in if EFI_ERROR Status then Done (Status, e, image_added E c b n e p r w)
        else Done (EFI_SUCCESS, address_of_CpuRunImage E, image_added E c b n e p r w))"
  using assms
  by (auto simp: ImageProtocolRegister_def ImageProtocolSupported_def SetMemoryAttributes_def image_added_def
      Let_def split: if_splits)

lemma ImageProtocolUnregister_removed:
  assumes "images_ok w" "ImageFindByAddress b w = Some p"
  shows "ImageProtocolUnregister E S b w =
    Done (fw_SetMemoryAttributes S (ImageBase (Records w p)) (ImageSize (Records w p)) 0, image_removed E p w)"
proof -
  from assms obtain c where "rec_Cpu (Records w p) = Some c"
    by (auto simp: ImageFindByAddress_iff images_ok_def)
  with assms(2) show ?thesis
    by (simp add: ImageProtocolUnregister_def SetMemoryAttributes_def image_removed_def Let_def)
qed

lemma images_ok_added:
  assumes "images_ok w" "fresh_range b n p w"
  shows "images_ok (image_added E c b n e p r w)"
  using assms unfolding images_ok_def fresh_range_def
  by (auto simp: covers_def)

lemma images_ok_removed: "images_ok w \<Longrightarrow> images_ok (image_removed E p w)"
  unfolding images_ok_def by (auto dest: notin_set_remove1 intro: distinct_remove1)

section \<open>The interface: a map from address ranges\<close>

locale range_map =
  fixes ok :: "'m \<Rightarrow> bool" and fresh :: "u64 \<Rightarrow> u64 \<Rightarrow> 'v \<Rightarrow> 'm \<Rightarrow> bool"
    and lookup :: "u64 \<Rightarrow> 'm \<Rightarrow> 'v option"
    and add :: "u64 \<Rightarrow> u64 \<Rightarrow> 'v \<Rightarrow> 'm \<Rightarrow> 'm" and del :: "'v \<Rightarrow> 'm \<Rightarrow> 'm"
  assumes fresh_free: "fresh b n v m \<Longrightarrow> b \<le> a \<and> a < b + n \<Longrightarrow> lookup a m = None"
    and fresh_unused: "ok m \<Longrightarrow> fresh b n v m \<Longrightarrow> lookup a m \<noteq> Some v"
    and add_ok: "ok m \<Longrightarrow> fresh b n v m \<Longrightarrow> ok (add b n v m)"
    and lookup_add: "ok m \<Longrightarrow> fresh b n v m \<Longrightarrow>
      lookup a (add b n v m) = (if b \<le> a \<and> a < b + n then Some v else lookup a m)"
    and del_ok: "ok m \<Longrightarrow> ok (del v m)"
    and lookup_del: "ok m \<Longrightarrow> lookup a (del v m) = (if lookup a m = Some v then None else lookup a m)"
begin

lemma lookup_del_add:
  "ok m \<Longrightarrow> fresh b n v m \<Longrightarrow> ok (del v (add b n v m)) \<and> lookup a (del v (add b n v m)) = lookup a m"
  using fresh_free [of b n v m a] fresh_unused [of m b n v a]
  by (simp add: add_ok del_ok lookup_add lookup_del)

text \<open>Removing an older range leaves a newer one in place.\<close>

lemma lookup_del_other:
  "ok m \<Longrightarrow> fresh b n v m \<Longrightarrow> v' \<noteq> v \<Longrightarrow> b \<le> a \<and> a < b + n \<Longrightarrow> lookup a (del v' (add b n v m)) = Some v"
  by (simp add: add_ok lookup_add lookup_del)

end

interpretation im: range_map "images_ok :: ('u, 'c, 'z) image_world_scheme \<Rightarrow> bool" fresh_range ImageFindByAddress
  "\<lambda>b n p. image_added E c b n e p r" "\<lambda>p. image_removed E p"
proof
  fix w :: "('u, 'c, 'z) image_world_scheme" and b n p a
  show "ImageFindByAddress a w = None" if "fresh_range b n p w" "b \<le> a \<and> a < b + n"
    using that by (auto simp: ImageFindByAddress_None fresh_range_def)
  show "ImageFindByAddress a w \<noteq> Some p" if "images_ok w" "fresh_range b n p w"
    using that by (auto simp: ImageFindByAddress_iff fresh_range_def)
  show add: "images_ok (image_added E c b n e p r w)" if "images_ok w" "fresh_range b n p w"
    using that by (rule images_ok_added)
  show "ImageFindByAddress a (image_added E c b n e p r w) =
      (if b \<le> a \<and> a < b + n then Some p else ImageFindByAddress a w)" if "images_ok w" "fresh_range b n p w"
  proof (cases "b \<le> a \<and> a < b + n")
    case True
    with add [OF that] show ?thesis
      by (simp add: ImageFindByAddress_iff covers_def)
  next
    case False
    have p: "p \<notin> set (mImageList w)" using that by (simp add: fresh_range_def)
    show ?thesis
    proof (cases "ImageFindByAddress a w")
      case None
      with False p have "ImageFindByAddress a (image_added E c b n e p r w) = None"
        by (auto simp: ImageFindByAddress_None covers_def)
      with None False show ?thesis by simp
    next
      case (Some q)
      with that(1) have q: "q \<in> set (mImageList w)" "covers (Records w q) a"
        by (simp_all add: ImageFindByAddress_iff)
      with p have "ImageFindByAddress a (image_added E c b n e p r w) = Some q"
        using add [OF that] by (auto simp: ImageFindByAddress_iff)
      with Some False show ?thesis by auto
    qed
  qed
  show del: "images_ok (image_removed E p w)" if "images_ok w"
    using that by (rule images_ok_removed)
  show "ImageFindByAddress a (image_removed E p w) =
      (if ImageFindByAddress a w = Some p then None else ImageFindByAddress a w)" if "images_ok w"
  proof (cases "ImageFindByAddress a w")
    case None
    then have "ImageFindByAddress a (image_removed E p w) = None"
      by (auto simp: ImageFindByAddress_None dest: notin_set_remove1)
    with None show ?thesis by simp
  next
    case (Some q)
    with that have q: "q \<in> set (mImageList w)" "covers (Records w q) a"
      by (simp_all add: ImageFindByAddress_iff)
    show ?thesis
    proof (cases "q = p")
      case True
      have "ImageFindByAddress a (image_removed E p w) = None"
        using that q True unfolding ImageFindByAddress_None images_ok_def by auto
      with Some True show ?thesis by simp
    next
      case False
      with q del [OF that] have "ImageFindByAddress a (image_removed E p w) = Some q"
        by (simp add: ImageFindByAddress_iff)
      with Some False show ?thesis by auto
    qed
  qed
qed

section \<open>Properties\<close>

definition registers ::
  "image_services \<Rightarrow> memory \<Rightarrow> build \<Rightarrow> u64 \<Rightarrow> ptr \<Rightarrow> cpu_id \<Rightarrow> bool" where
  "registers S m bld b p c \<longleftrightarrow>
     (\<exists>st ty machine r. PeCoffLoaderGetImageInfo S m b = (st, ty, machine) \<and> \<not> EFI_ERROR st \<and>
        ImageProtocolSupported ty \<and> image_cpu bld machine = Some c \<and> AllocatePool_Record S = Some (p, r))"

lemma registers_added:
  assumes "registers S (mem w) (options E) b p c"
  obtains r where "(ImageProtocolRegister E S b n e w :: ('j, efi_status \<times> u64 \<times> ('u, 'c, 'z) image_world_scheme) outcome) =
    (let Status = fw_SetMemoryAttributes S b n EFI_MEMORY_XP
     in if EFI_ERROR Status then Done (Status, e, image_added E c b n e p r w)
        else Done (EFI_SUCCESS, address_of_CpuRunImage E, image_added E c b n e p r w))"
proof -
  from assms obtain st ty machine r where
    "PeCoffLoaderGetImageInfo S (mem w) b = (st, ty, machine)" "\<not> EFI_ERROR st"
    "ImageProtocolSupported ty" "AllocatePool_Record S = Some (p, r)" "image_cpu (options E) machine = Some c"
    unfolding registers_def by blast
  from that [OF ImageProtocolRegister_added [OF this]] show ?thesis .
qed

text \<open>
  C14: registering a supported image at a free address range returns success with
  CpuRunImage as the new entry point, keeps the image list well-formed, and from
  then on exactly the addresses of the range are found as this image and are not
  taken for native code; every other address is classified as before.  The
  critical section state is as before.
\<close>

theorem ImageProtocolRegister_lookup:
  assumes "images_ok w" "fresh_range b n p w" "registers S (mem w) (options E) b p c"
    and "\<not> EFI_ERROR (fw_SetMemoryAttributes S b n EFI_MEMORY_XP)" "EFI_PAGE_SIZE \<le> b" "quiet (hooks w)"
  shows "\<exists>w'. (ImageProtocolRegister E S b n e w :: ('j, efi_status \<times> u64 \<times> ('u, 'c, 'z) image_world_scheme) outcome) =
      Done (EFI_SUCCESS, address_of_CpuRunImage E, w') \<and>
    images_ok w' \<and> hooks w' = hooks w \<and> rec_Cpu (Records w' p) = Some c \<and> ImageEntry (Records w' p) = e \<and>
    (\<forall>a. ImageFindByAddress a w' = (if b \<le> a \<and> a < b + n then Some p else ImageFindByAddress a w) \<and>
         EmulatorIsNativeCall E a w' = (EmulatorIsNativeCall E a w \<and> \<not> (b \<le> a \<and> a < b + n)))"
proof -
  obtain r where r: "(ImageProtocolRegister E S b n e w :: ('j, efi_status \<times> u64 \<times> ('u, 'c, 'z) image_world_scheme) outcome) =
      Done (EFI_SUCCESS, address_of_CpuRunImage E, image_added E c b n e p r w)"
    by (rule registers_added [OF assms(3), of n e]) (use assms(4) in \<open>simp add: Let_def\<close>)
  moreover have find: "ImageFindByAddress a (image_added E c b n e p r w) =
      (if b \<le> a \<and> a < b + n then Some p else ImageFindByAddress a w)" for a
    by (rule im.lookup_add [OF assms(1,2)])
  moreover have "EmulatorIsNativeCall E a (image_added E c b n e p r w) =
      (EmulatorIsNativeCall E a w \<and> \<not> (b \<le> a \<and> a < b + n))" for a
    using assms(5) by (auto simp: EmulatorIsNativeCall_def find)
  ultimately show ?thesis
    using images_ok_added [OF assms(1,2)] assms(6) by auto
qed

text \<open>
  C15: a registered image is found from every one of its addresses, and
  unregistering it by any of them restores the list and the classification of
  every address to what they were before the registration; the range was made
  non-executable and then restored with exactly the same bounds.
\<close>

theorem ImageProtocolRegister_Unregister_roundtrip:
  assumes "images_ok w" "fresh_range b n p w" "registers S (mem w) (options E) b p c"
    and "\<not> EFI_ERROR (fw_SetMemoryAttributes S b n EFI_MEMORY_XP)" "b \<le> a" "a < b + n" "quiet (hooks w)"
  shows "\<exists>w' w''. (ImageProtocolRegister E S b n e w :: ('j, efi_status \<times> u64 \<times> ('u, 'c, 'z) image_world_scheme) outcome) =
      Done (EFI_SUCCESS, address_of_CpuRunImage E, w') \<and>
    (ImageProtocolUnregister E S a w' :: ('j, efi_status \<times> ('u, 'c, 'z) image_world_scheme) outcome) =
      Done (fw_SetMemoryAttributes S b n 0, w'') \<and>
    mImageList w'' = mImageList w \<and> (\<forall>x. ImageFindByAddress x w'' = ImageFindByAddress x w) \<and>
    attr_calls w'' = (b, n, 0) # (b, n, EFI_MEMORY_XP) # attr_calls w \<and> hooks w'' = hooks w"
proof -
  obtain r where r: "(ImageProtocolRegister E S b n e w :: ('j, efi_status \<times> u64 \<times> ('u, 'c, 'z) image_world_scheme) outcome) =
      Done (EFI_SUCCESS, address_of_CpuRunImage E, image_added E c b n e p r w)"
    by (rule registers_added [OF assms(3), of n e]) (use assms(4) in \<open>simp add: Let_def\<close>)
  let ?w = "image_added E c b n e p r w"
  have "ImageFindByAddress a ?w = Some p"
    using im.lookup_add [OF assms(1,2), of a E c e r] assms(5,6) by simp
  from ImageProtocolUnregister_removed [OF images_ok_added [OF assms(1,2)] this]
  have u: "(ImageProtocolUnregister E S a ?w :: ('j, efi_status \<times> ('u, 'c, 'z) image_world_scheme) outcome) = Done (fw_SetMemoryAttributes S b n 0, image_removed E p ?w)"
    by simp
  have "p \<notin> set (mImageList w)" using assms(2) by (simp add: fresh_range_def)
  then have "remove1 p (mImageList w @ [p]) = mImageList w"
    by (simp add: remove1_append)
  with r u im.lookup_del_add [OF assms(1,2), of E c e r] assms(7) show ?thesis
    by (auto simp: image_removed_def Let_def frame_simps)
qed

text \<open>
  When SetMemoryAttributes fails, ImageProtocolRegister reports the error but
  the image stays on the list: its addresses are still taken for emulated code,
  although the loader was told that the registration failed.
\<close>

lemma ImageProtocolRegister_failure_keeps_image:
  assumes "images_ok w" "fresh_range b n p w" "registers S (mem w) (options E) b p c"
    and "EFI_ERROR (fw_SetMemoryAttributes S b n EFI_MEMORY_XP)"
  shows "\<exists>w'. (ImageProtocolRegister E S b n e w :: ('j, efi_status \<times> u64 \<times> ('u, 'c, 'z) image_world_scheme) outcome) =
      Done (fw_SetMemoryAttributes S b n EFI_MEMORY_XP, e, w') \<and>
    mImageList w' = mImageList w @ [p] \<and> ImageFindByAddress b w' = Some p"
proof -
  obtain r where r: "(ImageProtocolRegister E S b n e w :: ('j, efi_status \<times> u64 \<times> ('u, 'c, 'z) image_world_scheme) outcome) =
      Done (fw_SetMemoryAttributes S b n EFI_MEMORY_XP, e, image_added E c b n e p r w)"
    by (rule registers_added [OF assms(3), of n e]) (use assms(4) in \<open>simp add: Let_def\<close>)
  with im.lookup_add [OF assms(1,2), of b E c e r] assms(2) show ?thesis
    by (auto simp: fresh_range_def)
qed

subsection \<open>Witnesses\<close>

definition example_record :: ImageRecord where
  "example_record = \<lparr>ImageBase = 0x20000, ImageEntry = 0x20100, ImageSize = 0x4000, ImageHandle = 0x55,
     rec_Cpu = Some CpuX64, ImageExitJumpBuffer = 0, ImageExitStatus = 0, ImageExitDataSize = 0, ImageExitData = 0\<rparr>"

definition example_cpu :: "(uc_reg \<Rightarrow> u64) CpuContext" where
  "example_cpu = \<lparr>EmuMachineType = 0x8664, StackReg = UC_X86_REG_RSP, ProgramCounterReg = UC_X86_REG_RIP,
     ReturnValueReg = UC_X86_REG_RAX, Contexts = 0, EmuThunkPre = Some X64Functions,
     EmuThunkPost = Some X64Functions, NativeThunk = Some X64Functions, UnicornCodeGenBuf = 0x900000,
     UnicornCodeGenBufEnd = 0xA00000, EmuStackStart = 0x700000, EmuStackTop = 0x800000,
     InitialState = (\<lambda>r. if r = UC_X86_REG_RSP then 0x800000 else 0),
     TbCount = 0, ExitPeriodTbs = 0x1000, ExitPeriodTicks = 1000, StoppedOnTimeout = False\<rparr>"

definition example_images :: "(uc_reg \<Rightarrow> u64, uc_reg \<Rightarrow> u64) image_world" where
  "example_images = \<lparr>mem = (\<lambda>_. 0), hooks = example_hooks True Hook, UE = (\<lambda>_ _. 0), cpus = (\<lambda>_. example_cpu),
     mImageList = [0x100], Records = (\<lambda>_. example_record), attr_calls = []\<rparr>"

definition example_image_services :: "efi_status \<Rightarrow> image_services" where
  "example_image_services st = \<lparr>PeCoffLoaderGetImageInfo = (\<lambda>m a. (EFI_SUCCESS, 10, 0x8664)),
     AllocatePool_Record = Some (0x200, example_record), fw_SetMemoryAttributes = (\<lambda>b n a. st)\<rparr>"

lemma example_ranges_disjoint: "0x40000 \<le> (a :: u64) \<Longrightarrow> a < 0x48000 \<Longrightarrow> 0x20000 \<le> a \<Longrightarrow> a < 0x24000 \<Longrightarrow> False"
  by (simp add: word_le_nat_alt word_less_nat_alt)

lemma example_images_facts:
  "images_ok example_images"
  "fresh_range 0x40000 0x8000 0x200 example_images"
  "registers (example_image_services st) (mem example_images) (options (example_env g)) 0x40000 0x200 CpuX64"
  "fw_SetMemoryAttributes (example_image_services st) b n x = st"
  "quiet (hooks example_images)"
  by (auto simp: images_ok_def example_images_def example_record_def fresh_range_def covers_def registers_def
      example_image_services_def example_env_def default_build_def image_cpu_def EFI_IMAGE_MACHINE_X64_def
      ImageProtocolSupported_def EFI_IMAGE_SUBSYSTEM_EFI_APPLICATION_def Let_def example_hooks_def quiet_def
      dest: example_ranges_disjoint)

theorem ImageProtocolRegister_lookup_witness:
  "\<exists>w'. (ImageProtocolRegister (example_env (\<lambda>_ _ s. s)) (example_image_services EFI_SUCCESS) 0x40000 0x8000 0x40100
        example_images :: (unit, _) outcome) = Done (EFI_SUCCESS, 0x3100, w') \<and>
    images_ok w' \<and> ImageFindByAddress 0x47FFF w' = Some 0x200 \<and> ImageFindByAddress 0x48000 w' = None \<and>
    ImageFindByAddress 0x20000 w' = Some 0x100"
proof -
  have a: "address_of_CpuRunImage (example_env (\<lambda>_ _ s. s)) = 0x3100" by (simp add: example_env_def)
  have f: "ImageFindByAddress 0x48000 example_images = None" "ImageFindByAddress 0x20000 example_images = Some 0x100"
    by (simp_all add: ImageFindByAddress_def example_images_def covers_def example_record_def)
  from ImageProtocolRegister_lookup [where E = "example_env (\<lambda>_ _ s. s)" and S = "example_image_services EFI_SUCCESS"
      and w = example_images and e = "0x40100", OF example_images_facts(1-3) _ _ example_images_facts(5)]
  show ?thesis by (auto simp: example_images_facts(4) a f)
qed

theorem ImageProtocolRegister_Unregister_roundtrip_witness:
  "\<exists>w' w''. (ImageProtocolRegister (example_env (\<lambda>_ _ s. s)) (example_image_services EFI_SUCCESS) 0x40000 0x8000 0x40100
        example_images :: (unit, _) outcome) = Done (EFI_SUCCESS, 0x3100, w') \<and>
    (ImageProtocolUnregister (example_env (\<lambda>_ _ s. s)) (example_image_services EFI_SUCCESS) 0x41234 w' :: (unit, _) outcome) =
      Done (EFI_SUCCESS, w'') \<and> mImageList w'' = [0x100]"
proof -
  have a: "address_of_CpuRunImage (example_env (\<lambda>_ _ s. s)) = 0x3100" "mImageList example_images = [0x100]"
    by (simp_all add: example_env_def example_images_def)
  from ImageProtocolRegister_Unregister_roundtrip [where E = "example_env (\<lambda>_ _ s. s)"
      and S = "example_image_services EFI_SUCCESS" and a = "0x41234" and w = example_images and e = "0x40100",
      OF example_images_facts(1-3) _ _ _ example_images_facts(5)]
  show ?thesis by (auto simp: example_images_facts(4) a)
qed

end
