(* ===== verification/Thunk.thy ===== *)
theory Thunk
  imports Image
begin

text \<open>
  The calling conventions of Cpu.c and Native.c: the emulated stack, the two
  EmuThunkPre functions that pass the sixteen arguments of a native caller to
  emulated code, the two EmuThunkPost functions that drop them, and the part of
  NativeThunkX64 and NativeThunkAArch64 that collects the arguments of an
  emulated caller.  The locale \<open>call_thunk\<close> states what the two
  conventions have in common; it is interpreted for both.
\<close>

section \<open>The emulated stack\<close>

abbreviation MAX_ARGS :: nat where "MAX_ARGS \<equiv> 16"
abbreviation SYSV_X64_ABI_REDZONE :: u64 where "SYSV_X64_ABI_REDZONE \<equiv> 128"

text \<open>An array of arguments is read through its pointer: Args i is Args[i].\<close>

type_synonym args = "nat \<Rightarrow> u64"

definition CpuStackPushRedZone ::
  "('u, 'c) env \<Rightarrow> cpu_id \<Rightarrow> ('u, 'c, 'z) machine_scheme \<Rightarrow> ('u, 'c, 'z) machine_scheme" where
  "CpuStackPushRedZone E Cpu w =
     (let (Rsp, w1) = REG_READ (UC E) Cpu (StackReg (cpus w Cpu)) w;
          Rsp = Rsp - SYSV_X64_ABI_REDZONE
      in REG_WRITE (UC E) Cpu (StackReg (cpus w1 Cpu)) Rsp w1)"

definition CpuStackPop64 ::
  "('u, 'c) env \<Rightarrow> cpu_id \<Rightarrow> ('u, 'c, 'z) machine_scheme \<Rightarrow> u64 \<times> ('u, 'c, 'z) machine_scheme" where
  "CpuStackPop64 E Cpu w =
     (let (Rsp, w1) = REG_READ (UC E) Cpu (StackReg (cpus w Cpu)) w;
          Val = load64 (mem w1) Rsp;
          Rsp = Rsp + 8
      in (Val, REG_WRITE (UC E) Cpu (StackReg (cpus w1 Cpu)) Rsp w1))"

definition CpuStackPush64 ::
  "('u, 'c) env \<Rightarrow> cpu_id \<Rightarrow> u64 \<Rightarrow> ('u, 'c, 'z) machine_scheme \<Rightarrow> ('u, 'c, 'z) machine_scheme" where
  "CpuStackPush64 E Cpu Val w =
     (let (Rsp, w1) = REG_READ (UC E) Cpu (StackReg (cpus w Cpu)) w;
          Rsp = Rsp - 8;
          w2 = REG_WRITE (UC E) Cpu (StackReg (cpus w1 Cpu)) Rsp w1
      in w2\<lparr>mem := store64 Rsp Val (mem w2)\<rparr>)"

section \<open>From native to emulated code\<close>

definition CpuX64EmuThunkPre ::
  "('u, 'c) env \<Rightarrow> cpu_id \<Rightarrow> args \<Rightarrow> ('u, 'c, 'z) machine_scheme \<Rightarrow> ('u, 'c, 'z) machine_scheme" where
  "CpuX64EmuThunkPre E Cpu Args w =
     (let w = REG_WRITE (UC E) Cpu UC_X86_REG_RCX (Args 0) w;
          w = REG_WRITE (UC E) Cpu UC_X86_REG_RDX (Args 1) w;
          w = REG_WRITE (UC E) Cpu UC_X86_REG_R8 (Args 2) w;
          w = REG_WRITE (UC E) Cpu UC_X86_REG_R9 (Args 3) w;
          w = fold (\<lambda>Index. CpuStackPush64 E Cpu (Args ((MAX_ARGS - 1) - Index))) [0..<MAX_ARGS - 4] w;
          w = fold (\<lambda>Index. CpuStackPush64 E Cpu 0) [0..<4] w
      in CpuStackPush64 E Cpu (RETURN_TO_NATIVE_MAGIC E) w)"

definition CpuAArch64EmuThunkPre ::
  "('u, 'c) env \<Rightarrow> cpu_id \<Rightarrow> args \<Rightarrow> ('u, 'c, 'z) machine_scheme \<Rightarrow> ('u, 'c, 'z) machine_scheme" where
  "CpuAArch64EmuThunkPre E Cpu Args w =
     (let w = REG_WRITE (UC E) Cpu UC_ARM64_REG_X0 (Args 0) w;
          w = REG_WRITE (UC E) Cpu UC_ARM64_REG_X1 (Args 1) w;
          w = REG_WRITE (UC E) Cpu UC_ARM64_REG_X2 (Args 2) w;
          w = REG_WRITE (UC E) Cpu UC_ARM64_REG_X3 (Args 3) w;
          w = REG_WRITE (UC E) Cpu UC_ARM64_REG_X4 (Args 4) w;
          w = REG_WRITE (UC E) Cpu UC_ARM64_REG_X5 (Args 5) w;
          w = REG_WRITE (UC E) Cpu UC_ARM64_REG_X6 (Args 6) w;
          w = REG_WRITE (UC E) Cpu UC_ARM64_REG_X7 (Args 7) w;
          w = fold (\<lambda>Index. CpuStackPush64 E Cpu (Args ((MAX_ARGS - 1) - Index))) [0..<MAX_ARGS - 8] w
      in REG_WRITE (UC E) Cpu UC_ARM64_REG_LR (RETURN_TO_NATIVE_MAGIC E) w)"

text \<open>The popped values are only compared for a debug message.\<close>

definition CpuX64EmuThunkPost ::
  "('u, 'c) env \<Rightarrow> cpu_id \<Rightarrow> args \<Rightarrow> ('u, 'c, 'z) machine_scheme \<Rightarrow> ('u, 'c, 'z) machine_scheme" where
  "CpuX64EmuThunkPost E Cpu Args w =
     (let w = fold (\<lambda>Index w. snd (CpuStackPop64 E Cpu w)) [0..<4] w
      in fold (\<lambda>Index w. snd (CpuStackPop64 E Cpu w)) [4..<MAX_ARGS] w)"

definition CpuAArch64EmuThunkPost ::
  "('u, 'c) env \<Rightarrow> cpu_id \<Rightarrow> args \<Rightarrow> ('u, 'c, 'z) machine_scheme \<Rightarrow> ('u, 'c, 'z) machine_scheme" where
  "CpuAArch64EmuThunkPost E Cpu Args w =
     fold (\<lambda>Index w. snd (CpuStackPop64 E Cpu w)) [8..<MAX_ARGS] w"

text \<open>The calls through the function pointers of CpuContext.\<close>

definition call_EmuThunkPre ::
  "isa_functions \<Rightarrow> ('u, 'c) env \<Rightarrow> cpu_id \<Rightarrow> args \<Rightarrow> ('u, 'c, 'z) machine_scheme \<Rightarrow> ('u, 'c, 'z) machine_scheme" where
  "call_EmuThunkPre f = (case f of X64Functions \<Rightarrow> CpuX64EmuThunkPre | AArch64Functions \<Rightarrow> CpuAArch64EmuThunkPre)"

definition call_EmuThunkPost ::
  "isa_functions \<Rightarrow> ('u, 'c) env \<Rightarrow> cpu_id \<Rightarrow> args \<Rightarrow> ('u, 'c, 'z) machine_scheme \<Rightarrow> ('u, 'c, 'z) machine_scheme" where
  "call_EmuThunkPost f = (case f of X64Functions \<Rightarrow> CpuX64EmuThunkPost | AArch64Functions \<Rightarrow> CpuAArch64EmuThunkPost)"

section \<open>From emulated to native code\<close>

text \<open>
  The arguments of the native call, the return address the wrappers are told, and
  the state, as the first halves of NativeThunkX64 and NativeThunkAArch64 read
  them.  StackArgs of NativeThunkX64 starts at the return address, so that
  argument 4 is StackArgs[5].
\<close>

definition X64NativeArgs ::
  "('u, 'c) env \<Rightarrow> cpu_id \<Rightarrow> ('u, 'c, 'z) machine_scheme \<Rightarrow> args \<times> u64 \<times> u64 \<times> ('u, 'c, 'z) machine_scheme" where
  "X64NativeArgs E Cpu w =
     (let (Rsp, w) = REG_READ (UC E) Cpu UC_X86_REG_RSP w;
          (Rcx, w) = REG_READ (UC E) Cpu UC_X86_REG_RCX w;
          (Rdx, w) = REG_READ (UC E) Cpu UC_X86_REG_RDX w;
          (R8, w) = REG_READ (UC E) Cpu UC_X86_REG_R8 w;
          (R9, w) = REG_READ (UC E) Cpu UC_X86_REG_R9 w;
          StackArgs = (\<lambda>i. load64 (mem w) (cell Rsp i))
      in (\<lambda>i. if i = 0 then Rcx else if i = 1 then Rdx else if i = 2 then R8 else if i = 3 then R9
              else StackArgs (i + 1),
          StackArgs 0, Rsp, w))"

definition AArch64NativeArgs ::
  "('u, 'c) env \<Rightarrow> cpu_id \<Rightarrow> ('u, 'c, 'z) machine_scheme \<Rightarrow> args \<times> u64 \<times> u64 \<times> ('u, 'c, 'z) machine_scheme" where
  "AArch64NativeArgs E Cpu w =
     (let (Lr, w) = REG_READ (UC E) Cpu UC_ARM64_REG_LR w;
          (Sp, w) = REG_READ (UC E) Cpu UC_ARM64_REG_SP w;
          (X0, w) = REG_READ (UC E) Cpu UC_ARM64_REG_X0 w;
          (X1, w) = REG_READ (UC E) Cpu UC_ARM64_REG_X1 w;
          (X2, w) = REG_READ (UC E) Cpu UC_ARM64_REG_X2 w;
          (X3, w) = REG_READ (UC E) Cpu UC_ARM64_REG_X3 w;
          (X4, w) = REG_READ (UC E) Cpu UC_ARM64_REG_X4 w;
          (X5, w) = REG_READ (UC E) Cpu UC_ARM64_REG_X5 w;
          (X6, w) = REG_READ (UC E) Cpu UC_ARM64_REG_X6 w;
          (X7, w) = REG_READ (UC E) Cpu UC_ARM64_REG_X7 w;
          StackArgs = (\<lambda>i. load64 (mem w) (cell Sp i))
      in (\<lambda>i. if i < 8 then [X0, X1, X2, X3, X4, X5, X6, X7] ! i else StackArgs (i - 8), Lr, Sp, w))"

section \<open>Pushes and pops\<close>

lemma CpuStackPush64_ok:
  assumes "uc_regs_ok (UC E)"
  shows "CpuStackPush64 E c v w =
    (let u = UE w c; r = StackReg (cpus w c); a = rd (UC E) u r - 8
     in (set_UE c (wr (UC E) r a u) w)\<lparr>mem := store64 a v (mem w)\<rparr>)"
  by (simp add: CpuStackPush64_def reg_simps [OF assms] Let_def)

lemma CpuStackPop64_ok:
  assumes "uc_regs_ok (UC E)"
  shows "CpuStackPop64 E c w =
    (let u = UE w c; r = StackReg (cpus w c); a = rd (UC E) u r
     in (load64 (mem w) a, set_UE c (wr (UC E) r (a + 8) u) w))"
  by (simp add: CpuStackPop64_def reg_simps [OF assms] Let_def)

lemma word_diff_8_le:
  fixes d :: u64
  assumes "of_nat (8 * Suc n) \<le> d" "n < 2 ^ 56"
  shows "of_nat (8 * n) \<le> d - 8" "\<not> d < 8"
proof -
  have n: "8 * Suc n < 2 ^ 64" using assms(2) by simp
  have d: "8 * Suc n \<le> unat d"
    using assms(1) unat_of_nat64 [OF n] by (simp only: word_le_nat_alt)
  then have "8 \<le> d" by (simp add: word_le_nat_alt)
  then have "unat (d - 8) = unat d - 8" by (simp add: unat_diff_le)
  moreover have "unat (of_nat (8 * n) :: u64) = 8 * n"
    using assms(2) by (intro unat_of_nat64) simp
  ultimately show "of_nat (8 * n) \<le> d - 8" using d by (simp only: word_le_nat_alt) simp
  show "\<not> d < 8" using \<open>8 \<le> d\<close> by simp
qed

text \<open>
  A sequence of pushes: the stack pointer is lower by eight bytes per value, the
  cells above it hold the values, the last one first, and no byte outside of them
  and no other register has changed.
\<close>

lemma pushes:
  fixes E :: "('u, 'c) env" and w :: "('u, 'c, 'z) machine_scheme" and c :: cpu_id and xs :: "u64 list"
  assumes U: "uc_regs_ok (UC E)" and "length xs < 2 ^ 56"
  defines s: "s \<equiv> rd (UC E) (UE w c) (StackReg (cpus w c)) - of_nat (8 * length xs)"
  shows "\<exists>m u. fold (CpuStackPush64 E c) xs w = (set_UE c u w)\<lparr>mem := m\<rparr> \<and>
    rd (UC E) u (StackReg (cpus w c)) = s \<and>
    (\<forall>r. r \<noteq> StackReg (cpus w c) \<longrightarrow> rd (UC E) u r = rd (UC E) (UE w c) r) \<and>
    (\<forall>i < length xs. load64 m (cell s i) = rev xs ! i) \<and>
    (\<forall>a. of_nat (8 * length xs) \<le> a - s \<longrightarrow> m a = mem w a)"
  using assms(2) unfolding s
proof (induction xs rule: rev_induct)
  case Nil
  show ?case
    by (intro exI [of _ "mem w"] exI [of _ "UE w c"]) simp
next
  case (snoc x xs)
  let ?r = "StackReg (cpus w c)"
  let ?s = "rd (UC E) (UE w c) ?r - of_nat (8 * length xs)"
  from snoc.prems have l: "length xs < 2 ^ 56" by simp
  from snoc.IH [OF this] obtain m u where IH:
    "fold (CpuStackPush64 E c) xs w = (set_UE c u w)\<lparr>mem := m\<rparr>"
    "rd (UC E) u ?r = ?s" "\<forall>r. r \<noteq> ?r \<longrightarrow> rd (UC E) u r = rd (UC E) (UE w c) r"
    "\<forall>i < length xs. load64 m (cell ?s i) = rev xs ! i"
    "\<forall>a. of_nat (8 * length xs) \<le> a - ?s \<longrightarrow> m a = mem w a"
    by blast
  let ?s' = "?s - 8"
  have s': "rd (UC E) (UE w c) ?r - of_nat (8 * length (xs @ [x])) = ?s'"
    by (simp add: algebra_simps)
  have "load64 (store64 ?s' x m) (cell ?s' i) = rev (xs @ [x]) ! i" if "i < length (xs @ [x])" for i
  proof (cases i)
    case 0
    then show ?thesis by simp
  next
    case (Suc j)
    with that snoc.prems have j: "j < length xs" "i < 2 ^ 60" by auto
    with Suc load64_store64_cell [of 0 i ?s' x m] have
      "load64 (store64 ?s' x m) (cell ?s' i) = load64 m (cell ?s j)"
      by (simp add: cell_Suc)
    with IH(4) j Suc show ?thesis by simp
  qed
  moreover have "store64 ?s' x m a = mem w a" if "of_nat (8 * length (xs @ [x])) \<le> a - ?s'" for a
  proof -
    have e: "a - ?s' - 8 = a - ?s" by simp
    have "of_nat (8 * length xs) \<le> a - ?s' - 8" and n: "\<not> a - ?s' < 8"
      using word_diff_8_le [of "length xs" "a - ?s'"] that l by auto
    with IH(5) have "m a = mem w a" unfolding e by blast
    with n show ?thesis by (simp add: store64_def)
  qed
  moreover have "fold (CpuStackPush64 E c) (xs @ [x]) w = (set_UE c (wr (UC E) ?r ?s' u) w)\<lparr>mem := store64 ?s' x m\<rparr>"
  proof -
    have "fold (CpuStackPush64 E c) (xs @ [x]) w = CpuStackPush64 E c x ((set_UE c u w)\<lparr>mem := m\<rparr>)"
      by (simp add: IH(1))
    then show ?thesis by (simp add: CpuStackPush64_ok [OF U] IH(2) Let_def)
  qed
  ultimately show ?case
    unfolding s' using IH(3)
    by (intro exI [of _ "store64 ?s' x m"] exI [of _ "wr (UC E) ?r ?s' u"])
      (simp add: rd_wr [OF U] del: fold_append)
qed

lemma fold_pops:
  assumes U: "uc_regs_ok (UC E)"
  shows "\<exists>u. fold (\<lambda>Index w. snd (CpuStackPop64 E c w)) xs w = set_UE c u w \<and>
    rd (UC E) u (StackReg (cpus w c)) = rd (UC E) (UE w c) (StackReg (cpus w c)) + of_nat (8 * length xs) \<and>
    (\<forall>r. r \<noteq> StackReg (cpus w c) \<longrightarrow> rd (UC E) u r = rd (UC E) (UE w c) r)"
proof (induction xs arbitrary: w)
  case Nil
  show ?case by (intro exI [of _ "UE w c"]) simp
next
  case (Cons x xs)
  let ?w = "snd (CpuStackPop64 E c w)"
  from Cons.IH [of ?w] obtain u where
    "fold (\<lambda>Index w. snd (CpuStackPop64 E c w)) xs ?w = set_UE c u ?w"
    "rd (UC E) u (StackReg (cpus ?w c)) = rd (UC E) (UE ?w c) (StackReg (cpus ?w c)) + of_nat (8 * length xs)"
    "\<forall>r. r \<noteq> StackReg (cpus ?w c) \<longrightarrow> rd (UC E) u r = rd (UC E) (UE ?w c) r"
    by blast
  then show ?case
    by (intro exI [of _ u]) (auto simp: CpuStackPop64_ok [OF U] rd_wr [OF U] Let_def algebra_simps)
qed

section \<open>The state after EmuThunkPre\<close>

lemma fold_pushes: "fold (\<lambda>i. CpuStackPush64 E c (f i)) xs w = fold (CpuStackPush64 E c) (map f xs) w"
  by (simp add: fold_map comp_def)

text \<open>The values the X64 convention pushes, the last one pushed first: the return address, the home zone, arguments 4 to 15.\<close>

definition X64_frame :: "u64 \<Rightarrow> args \<Rightarrow> u64 list" where
  "X64_frame magic A = [magic, 0, 0, 0, 0] @ map A [4..<16]"

definition AArch64_frame :: "args \<Rightarrow> u64 list" where
  "AArch64_frame A = map A [8..<16]"

lemma X64_frame_simps [simp]:
  "length (X64_frame g A) = 17" "X64_frame g A ! 0 = g"
  "4 \<le> i \<Longrightarrow> i < 16 \<Longrightarrow> X64_frame g A ! Suc i = A i"
  by (simp_all add: X64_frame_def nth_append del: upt_rec_numeral)

lemma AArch64_frame_simps [simp]:
  "length (AArch64_frame A) = 8" "8 \<le> i \<Longrightarrow> i < 16 \<Longrightarrow> AArch64_frame A ! (i - 8) = A i"
  by (simp_all add: AArch64_frame_def del: upt_rec_numeral)

definition set_regs :: "('u, 'c) uc_ops \<Rightarrow> (uc_reg \<times> u64) list \<Rightarrow> 'u \<Rightarrow> 'u" where
  "set_regs U rs u = fold (\<lambda>(r, v). wr U r v) rs u"

lemma rd_set_regs:
  assumes "uc_regs_ok U" "distinct (map fst rs)"
  shows "rd U (set_regs U rs u) r = (case map_of rs r of None \<Rightarrow> rd U u r | Some v \<Rightarrow> v)"
  using assms(2)
proof (induction rs arbitrary: u)
  case Nil
  show ?case by (simp add: set_regs_def)
next
  case (Cons x rs)
  then have "map_of rs (fst x) = None"
    by (simp add: map_of_eq_None_iff)
  moreover have "set_regs U (x # rs) u = set_regs U rs (wr U (fst x) (snd x) u)"
    by (simp add: set_regs_def case_prod_beta)
  ultimately show ?case
    using Cons by (cases x) (auto simp: rd_wr [OF assms(1)] split: option.split)
qed

lemma CpuX64EmuThunkPre_eq:
  assumes U: "uc_regs_ok (UC E)"
  shows "CpuX64EmuThunkPre E c A w = fold (CpuStackPush64 E c) (rev (X64_frame (RETURN_TO_NATIVE_MAGIC E) A))
    (set_UE c (set_regs (UC E) [(UC_X86_REG_RCX, A 0), (UC_X86_REG_RDX, A 1), (UC_X86_REG_R8, A 2),
       (UC_X86_REG_R9, A 3)] (UE w c)) w)"
  by (simp add: CpuX64EmuThunkPre_def X64_frame_def REG_WRITE_ok [OF U] set_regs_def Let_def upt_rec)

lemma CpuAArch64EmuThunkPre_eq:
  assumes U: "uc_regs_ok (UC E)"
  shows "CpuAArch64EmuThunkPre E c A w = REG_WRITE (UC E) c UC_ARM64_REG_LR (RETURN_TO_NATIVE_MAGIC E)
    (fold (CpuStackPush64 E c) (rev (AArch64_frame A))
    (set_UE c (set_regs (UC E) [(UC_ARM64_REG_X0, A 0), (UC_ARM64_REG_X1, A 1), (UC_ARM64_REG_X2, A 2),
       (UC_ARM64_REG_X3, A 3), (UC_ARM64_REG_X4, A 4), (UC_ARM64_REG_X5, A 5), (UC_ARM64_REG_X6, A 6),
       (UC_ARM64_REG_X7, A 7)] (UE w c)) w))"
  by (simp add: CpuAArch64EmuThunkPre_def AArch64_frame_def REG_WRITE_ok [OF U] set_regs_def Let_def upt_rec)

lemma map_upt_8: "map f [0..<8] = [f 0, f 1, f 2, f 3, f 4, f 5, f 6, f 7]"
  by (simp add: upt_rec numeral_eq_Suc)

text \<open>The X64 entry: where the stack pointer is, what the frame holds, what else changed.\<close>

definition X64_ok :: "('u, 'c) env \<Rightarrow> cpu_id \<Rightarrow> ('u, 'c, 'z) machine_scheme \<Rightarrow> bool" where
  "X64_ok E c w \<longleftrightarrow> uc_regs_ok (UC E) \<and> StackReg (cpus w c) = UC_X86_REG_RSP"

definition AArch64_ok :: "('u, 'c) env \<Rightarrow> cpu_id \<Rightarrow> ('u, 'c, 'z) machine_scheme \<Rightarrow> bool" where
  "AArch64_ok E c w \<longleftrightarrow> uc_regs_ok (UC E) \<and> StackReg (cpus w c) = UC_ARM64_REG_SP"

definition reg :: "('u, 'c) env \<Rightarrow> cpu_id \<Rightarrow> uc_reg \<Rightarrow> ('u, 'c, 'z) machine_scheme \<Rightarrow> u64" where
  "reg E c r w = rd (UC E) (UE w c) r"

lemma X64_entry:
  fixes E :: "('u, 'c) env" and w :: "('u, 'c, 'z) machine_scheme" and c :: cpu_id and A :: args
  assumes "X64_ok E c w"
  defines s: "s \<equiv> reg E c UC_X86_REG_RSP w - 136"
  shows "\<exists>m u. CpuX64EmuThunkPre E c A w = (set_UE c u w)\<lparr>mem := m\<rparr> \<and> rd (UC E) u UC_X86_REG_RSP = s \<and>
    rd (UC E) u UC_X86_REG_RCX = A 0 \<and> rd (UC E) u UC_X86_REG_RDX = A 1 \<and>
    rd (UC E) u UC_X86_REG_R8 = A 2 \<and> rd (UC E) u UC_X86_REG_R9 = A 3 \<and>
    (\<forall>r. r \<notin> {UC_X86_REG_RSP, UC_X86_REG_RCX, UC_X86_REG_RDX, UC_X86_REG_R8, UC_X86_REG_R9} \<longrightarrow>
       rd (UC E) u r = reg E c r w) \<and>
    load64 m s = RETURN_TO_NATIVE_MAGIC E \<and>
    (\<forall>i. 4 \<le> i \<and> i < 16 \<longrightarrow> load64 m (cell s (Suc i)) = A i) \<and>
    (\<forall>a. 136 \<le> a - s \<longrightarrow> m a = mem w a)"
proof -
  from assms(1) have U: "uc_regs_ok (UC E)" and R: "StackReg (cpus w c) = UC_X86_REG_RSP"
    by (simp_all add: X64_ok_def)
  let ?w = "set_UE c (set_regs (UC E) [(UC_X86_REG_RCX, A 0), (UC_X86_REG_RDX, A 1), (UC_X86_REG_R8, A 2),
       (UC_X86_REG_R9, A 3)] (UE w c)) w"
  let ?xs = "rev (X64_frame (RETURN_TO_NATIVE_MAGIC E) A)"
  have l: "length ?xs < 2 ^ 56" by simp
  from pushes [OF U l, of c ?w] obtain m u where P:
    "fold (CpuStackPush64 E c) ?xs ?w = (set_UE c u w)\<lparr>mem := m\<rparr>" "rd (UC E) u UC_X86_REG_RSP = s"
    "\<forall>r. r \<noteq> UC_X86_REG_RSP \<longrightarrow> rd (UC E) u r = rd (UC E) (UE ?w c) r"
    "\<forall>i < 17. load64 m (cell s i) = X64_frame (RETURN_TO_NATIVE_MAGIC E) A ! i"
    "\<forall>a. 136 \<le> a - s \<longrightarrow> m a = mem w a"
    by (auto simp: R s reg_def rd_set_regs [OF U])
  have "load64 m s = RETURN_TO_NATIVE_MAGIC E"
    using P(4) [rule_format, of 0] by simp
  moreover have "load64 m (cell s (Suc i)) = A i" if "4 \<le> i" "i < 16" for i
    using P(4) [rule_format, of "Suc i"] that by simp
  ultimately show ?thesis
    unfolding CpuX64EmuThunkPre_eq [OF U] using P
    by (intro exI [of _ m] exI [of _ u]) (auto simp: rd_set_regs [OF U] reg_def)
qed

lemma AArch64_entry:
  fixes E :: "('u, 'c) env" and w :: "('u, 'c, 'z) machine_scheme" and c :: cpu_id and A :: args
  assumes "AArch64_ok E c w"
  defines s: "s \<equiv> reg E c UC_ARM64_REG_SP w - 64"
  shows "\<exists>m u. CpuAArch64EmuThunkPre E c A w = (set_UE c u w)\<lparr>mem := m\<rparr> \<and> rd (UC E) u UC_ARM64_REG_SP = s \<and>
    rd (UC E) u UC_ARM64_REG_LR = RETURN_TO_NATIVE_MAGIC E \<and>
    [rd (UC E) u UC_ARM64_REG_X0, rd (UC E) u UC_ARM64_REG_X1, rd (UC E) u UC_ARM64_REG_X2, rd (UC E) u UC_ARM64_REG_X3,
     rd (UC E) u UC_ARM64_REG_X4, rd (UC E) u UC_ARM64_REG_X5, rd (UC E) u UC_ARM64_REG_X6, rd (UC E) u UC_ARM64_REG_X7] =
      map A [0..<8] \<and>
    (\<forall>r. r \<notin> {UC_ARM64_REG_SP, UC_ARM64_REG_LR, UC_ARM64_REG_X0, UC_ARM64_REG_X1, UC_ARM64_REG_X2, UC_ARM64_REG_X3,
        UC_ARM64_REG_X4, UC_ARM64_REG_X5, UC_ARM64_REG_X6, UC_ARM64_REG_X7} \<longrightarrow> rd (UC E) u r = reg E c r w) \<and>
    (\<forall>i. 8 \<le> i \<and> i < 16 \<longrightarrow> load64 m (cell s (i - 8)) = A i) \<and>
    (\<forall>a. 64 \<le> a - s \<longrightarrow> m a = mem w a)"
proof -
  from assms(1) have U: "uc_regs_ok (UC E)" and R: "StackReg (cpus w c) = UC_ARM64_REG_SP"
    by (simp_all add: AArch64_ok_def)
  let ?w = "set_UE c (set_regs (UC E) [(UC_ARM64_REG_X0, A 0), (UC_ARM64_REG_X1, A 1), (UC_ARM64_REG_X2, A 2),
       (UC_ARM64_REG_X3, A 3), (UC_ARM64_REG_X4, A 4), (UC_ARM64_REG_X5, A 5), (UC_ARM64_REG_X6, A 6),
       (UC_ARM64_REG_X7, A 7)] (UE w c)) w"
  have l: "length (rev (AArch64_frame A)) < 2 ^ 56" by simp
  from pushes [OF U l, of c ?w] obtain m u where P:
    "fold (CpuStackPush64 E c) (rev (AArch64_frame A)) ?w = (set_UE c u w)\<lparr>mem := m\<rparr>" "rd (UC E) u UC_ARM64_REG_SP = s"
    "\<forall>r. r \<noteq> UC_ARM64_REG_SP \<longrightarrow> rd (UC E) u r = rd (UC E) (UE ?w c) r"
    "\<forall>i < 8. load64 m (cell s i) = AArch64_frame A ! i"
    "\<forall>a. 64 \<le> a - s \<longrightarrow> m a = mem w a"
    by (auto simp: R s reg_def rd_set_regs [OF U])
  have "load64 m (cell s (i - 8)) = A i" if "8 \<le> i" "i < 16" for i
    using P(4) [rule_format, of "i - 8"] that by simp
  with P(1,2,3,5) show ?thesis
    unfolding CpuAArch64EmuThunkPre_eq [OF U]
    by (intro exI [of _ m] exI [of _ "wr (UC E) UC_ARM64_REG_LR (RETURN_TO_NATIVE_MAGIC E) u"])
      (simp add: REG_WRITE_ok [OF U] rd_wr [OF U] rd_set_regs [OF U] reg_def map_upt_8)
qed

section \<open>The interface: a calling convention\<close>

text \<open>
  What a convention promises: the arguments and the return address arrive, and a
  callee that returns with the stack pointer it was entered with leaves the
  stack pointer, after the return and EmuThunkPost, where it was before.
\<close>

locale call_thunk =
  fixes ok :: "'s \<Rightarrow> bool" and sp :: "'s \<Rightarrow> u64" and pre :: "args \<Rightarrow> 's \<Rightarrow> 's"
    and call_args :: "'s \<Rightarrow> args" and ret_addr :: "'s \<Rightarrow> u64"
    and ret :: "'s \<Rightarrow> 's" and post :: "args \<Rightarrow> 's \<Rightarrow> 's" and magic :: u64
  assumes pre_ok: "ok s \<Longrightarrow> ok (pre A s)" and ret_ok: "ok s \<Longrightarrow> ok (ret s)" and post_ok: "ok s \<Longrightarrow> ok (post A s)"
    and pre_args: "ok s \<Longrightarrow> i < MAX_ARGS \<Longrightarrow> call_args (pre A s) i = A i"
    and pre_ret: "ok s \<Longrightarrow> ret_addr (pre A s) = magic"
    and balanced: "ok s \<Longrightarrow> ok t \<Longrightarrow> sp t = sp (pre A s) \<Longrightarrow> sp (post A' (ret t)) = sp s"
begin

text \<open>
  Nested calls: each level of emulated code forwards the arguments it was entered
  with to a native function, which passes them to the next level.
\<close>

primrec enter :: "nat \<Rightarrow> args \<Rightarrow> 's \<Rightarrow> 's" where
  "enter 0 A s = pre A s"
| "enter (Suc n) A s = pre (call_args (enter n A s)) (enter n A s)"

primrec leave :: "nat \<Rightarrow> args \<Rightarrow> 's \<Rightarrow> 's" where
  "leave 0 A s = post A (ret s)"
| "leave (Suc n) A s = leave n A (post A (ret s))"

lemma enter_ok: "ok s \<Longrightarrow> ok (enter n A s)"
  by (induction n) (auto intro: pre_ok)

lemma enter_args: "ok s \<Longrightarrow> i < MAX_ARGS \<Longrightarrow> call_args (enter n A s) i = A i"
  by (induction n) (auto simp: pre_args enter_ok)

lemma enter_ret: "ok s \<Longrightarrow> ret_addr (enter n A s) = magic"
  by (cases n) (auto simp: pre_ret enter_ok)

lemma leave_enter: "ok s \<Longrightarrow> ok t \<Longrightarrow> sp t = sp (enter n A s) \<Longrightarrow> sp (leave n A' t) = sp s"
proof (induction n arbitrary: t)
  case 0
  then show ?case by (simp add: balanced)
next
  case (Suc n)
  have "sp (post A' (ret t)) = sp (enter n A s)"
    using balanced [OF enter_ok [OF Suc.prems(1)] Suc.prems(2)] Suc.prems(3) by simp
  with Suc show ?case by (simp add: ret_ok post_ok)
qed

end

definition X64_call_args :: "('u, 'c) env \<Rightarrow> cpu_id \<Rightarrow> ('u, 'c, 'z) machine_scheme \<Rightarrow> args" where
  "X64_call_args E c w = fst (X64NativeArgs E c w)"

definition X64_ret_addr :: "('u, 'c) env \<Rightarrow> cpu_id \<Rightarrow> ('u, 'c, 'z) machine_scheme \<Rightarrow> u64" where
  "X64_ret_addr E c w = fst (snd (X64NativeArgs E c w))"

definition AArch64_call_args :: "('u, 'c) env \<Rightarrow> cpu_id \<Rightarrow> ('u, 'c, 'z) machine_scheme \<Rightarrow> args" where
  "AArch64_call_args E c w = fst (AArch64NativeArgs E c w)"

definition AArch64_ret_addr :: "('u, 'c) env \<Rightarrow> cpu_id \<Rightarrow> ('u, 'c, 'z) machine_scheme \<Rightarrow> u64" where
  "AArch64_ret_addr E c w = fst (snd (AArch64NativeArgs E c w))"

lemma X64NativeArgs_ok:
  "uc_regs_ok (UC E) \<Longrightarrow> X64NativeArgs E c w =
   (\<lambda>i. if i = 0 then reg E c UC_X86_REG_RCX w else if i = 1 then reg E c UC_X86_REG_RDX w
        else if i = 2 then reg E c UC_X86_REG_R8 w else if i = 3 then reg E c UC_X86_REG_R9 w
        else load64 (mem w) (cell (reg E c UC_X86_REG_RSP w) (i + 1)),
    load64 (mem w) (reg E c UC_X86_REG_RSP w), reg E c UC_X86_REG_RSP w, w)"
  unfolding reg_def by (simp add: X64NativeArgs_def REG_READ_ok Let_def)

lemma AArch64NativeArgs_ok:
  "uc_regs_ok (UC E) \<Longrightarrow> AArch64NativeArgs E c w =
   (\<lambda>i. if i < 8
        then [reg E c UC_ARM64_REG_X0 w, reg E c UC_ARM64_REG_X1 w, reg E c UC_ARM64_REG_X2 w, reg E c UC_ARM64_REG_X3 w,
              reg E c UC_ARM64_REG_X4 w, reg E c UC_ARM64_REG_X5 w, reg E c UC_ARM64_REG_X6 w, reg E c UC_ARM64_REG_X7 w] ! i
        else load64 (mem w) (cell (reg E c UC_ARM64_REG_SP w) (i - 8)),
    reg E c UC_ARM64_REG_LR w, reg E c UC_ARM64_REG_SP w, w)"
  unfolding reg_def by (simp add: AArch64NativeArgs_def REG_READ_ok Let_def)

lemma X64_post:
  assumes "uc_regs_ok (UC E)" "StackReg (cpus w c) = r"
  shows "\<exists>u. CpuX64EmuThunkPost E c A w = set_UE c u w \<and> rd (UC E) u r = reg E c r w + 128 \<and>
    (\<forall>r'. r' \<noteq> r \<longrightarrow> rd (UC E) u r' = reg E c r' w)"
proof -
  have "CpuX64EmuThunkPost E c A w = fold (\<lambda>Index w. snd (CpuStackPop64 E c w)) ([0..<4] @ [4..<16]) w"
    by (simp add: CpuX64EmuThunkPost_def del: upt_rec_numeral)
  with fold_pops [OF assms(1), of c "[0..<4] @ [4..<16]" w] assms(2) show ?thesis
    by (auto simp: reg_def simp del: upt_rec_numeral)
qed

lemma AArch64_post:
  assumes "uc_regs_ok (UC E)" "StackReg (cpus w c) = r"
  shows "\<exists>u. CpuAArch64EmuThunkPost E c A w = set_UE c u w \<and> rd (UC E) u r = reg E c r w + 64 \<and>
    (\<forall>r'. r' \<noteq> r \<longrightarrow> rd (UC E) u r' = reg E c r' w)"
  using fold_pops [OF assms(1), of c "[8..<16]" w] assms(2)
  by (auto simp: CpuAArch64EmuThunkPost_def reg_def simp del: upt_rec_numeral)

lemma X64_pop:
  assumes "X64_ok E c w"
  shows "reg E c UC_X86_REG_RSP (snd (CpuStackPop64 E c w)) = reg E c UC_X86_REG_RSP w + 8"
    and "cpus (snd (CpuStackPop64 E c w)) = cpus w"
  using assms by (simp_all add: X64_ok_def CpuStackPop64_ok reg_def rd_wr Let_def)

interpretation x64: call_thunk "X64_ok E c :: ('u, 'c, 'z) machine_scheme \<Rightarrow> bool" "reg E c UC_X86_REG_RSP" "CpuX64EmuThunkPre E c"
  "X64_call_args E c" "X64_ret_addr E c" "\<lambda>w. snd (CpuStackPop64 E c w)" "CpuX64EmuThunkPost E c"
  "RETURN_TO_NATIVE_MAGIC E"
proof
  fix s t :: "('u, 'c, 'z) machine_scheme" and A A' :: args and i :: nat
  assume s: "X64_ok E c s"
  then have U: "uc_regs_ok (UC E)" and R: "StackReg (cpus s c) = UC_X86_REG_RSP" by (simp_all add: X64_ok_def)
  from X64_entry [OF s, of A] obtain m u where e: "CpuX64EmuThunkPre E c A s = (set_UE c u s)\<lparr>mem := m\<rparr>"
    "rd (UC E) u UC_X86_REG_RSP = reg E c UC_X86_REG_RSP s - 136"
    "rd (UC E) u UC_X86_REG_RCX = A 0" "rd (UC E) u UC_X86_REG_RDX = A 1"
    "rd (UC E) u UC_X86_REG_R8 = A 2" "rd (UC E) u UC_X86_REG_R9 = A 3"
    "load64 m (reg E c UC_X86_REG_RSP s - 136) = RETURN_TO_NATIVE_MAGIC E"
    "\<forall>i. 4 \<le> i \<and> i < 16 \<longrightarrow> load64 m (cell (reg E c UC_X86_REG_RSP s - 136) (Suc i)) = A i"
    by blast
  show "X64_ok E c (CpuX64EmuThunkPre E c A s)" "X64_ok E c (snd (CpuStackPop64 E c s))"
    using s by (simp_all add: e(1) X64_ok_def CpuStackPop64_ok Let_def)
  show "X64_ok E c (CpuX64EmuThunkPost E c A s)"
    using X64_post [OF U R, of A] s by (auto simp: X64_ok_def)
  show "X64_call_args E c (CpuX64EmuThunkPre E c A s) i = A i" if "i < MAX_ARGS"
    using that e(8) [rule_format, of i]
    by (auto simp: X64_call_args_def X64NativeArgs_ok [OF U] e(1) reg_def e(2-6) [unfolded reg_def])
  show "X64_ret_addr E c (CpuX64EmuThunkPre E c A s) = RETURN_TO_NATIVE_MAGIC E"
    by (simp add: X64_ret_addr_def X64NativeArgs_ok [OF U] e(1) reg_def e(2,7) [unfolded reg_def])
  show "reg E c UC_X86_REG_RSP (CpuX64EmuThunkPost E c A' (snd (CpuStackPop64 E c t))) = reg E c UC_X86_REG_RSP s"
    if t: "X64_ok E c t" and sp: "reg E c UC_X86_REG_RSP t = reg E c UC_X86_REG_RSP (CpuX64EmuThunkPre E c A s)"
  proof -
    have "StackReg (cpus (snd (CpuStackPop64 E c t)) c) = UC_X86_REG_RSP"
      using t X64_pop(2) [OF t] by (simp add: X64_ok_def)
    from X64_post [OF U this, of A'] X64_pop(1) [OF t] sp show ?thesis
      by (auto simp: e(1) reg_def e(2) [unfolded reg_def])
  qed
qed

interpretation aarch64: call_thunk "AArch64_ok E c :: ('u, 'c, 'z) machine_scheme \<Rightarrow> bool" "reg E c UC_ARM64_REG_SP" "CpuAArch64EmuThunkPre E c"
  "AArch64_call_args E c" "AArch64_ret_addr E c" "\<lambda>w. w" "CpuAArch64EmuThunkPost E c"
  "RETURN_TO_NATIVE_MAGIC E"
proof
  fix s t :: "('u, 'c, 'z) machine_scheme" and A A' :: args and i :: nat
  assume s: "AArch64_ok E c s"
  then have U: "uc_regs_ok (UC E)" and R: "StackReg (cpus s c) = UC_ARM64_REG_SP" by (simp_all add: AArch64_ok_def)
  from AArch64_entry [OF s, of A] obtain m u where e: "CpuAArch64EmuThunkPre E c A s = (set_UE c u s)\<lparr>mem := m\<rparr>"
    "rd (UC E) u UC_ARM64_REG_SP = reg E c UC_ARM64_REG_SP s - 64"
    "rd (UC E) u UC_ARM64_REG_LR = RETURN_TO_NATIVE_MAGIC E"
    "[rd (UC E) u UC_ARM64_REG_X0, rd (UC E) u UC_ARM64_REG_X1, rd (UC E) u UC_ARM64_REG_X2, rd (UC E) u UC_ARM64_REG_X3,
     rd (UC E) u UC_ARM64_REG_X4, rd (UC E) u UC_ARM64_REG_X5, rd (UC E) u UC_ARM64_REG_X6, rd (UC E) u UC_ARM64_REG_X7] =
      map A [0..<8]"
    "\<forall>i. 8 \<le> i \<and> i < 16 \<longrightarrow> load64 m (cell (reg E c UC_ARM64_REG_SP s - 64) (i - 8)) = A i"
    by (elim exE conjE)
  show "AArch64_ok E c (CpuAArch64EmuThunkPre E c A s)" "AArch64_ok E c s"
    using s by (simp_all add: e(1) AArch64_ok_def)
  show "AArch64_ok E c (CpuAArch64EmuThunkPost E c A s)"
    using AArch64_post [OF U R, of A] s by (auto simp: AArch64_ok_def)
  show "AArch64_call_args E c (CpuAArch64EmuThunkPre E c A s) i = A i" if "i < MAX_ARGS"
  proof (cases "i < 8")
    case True
    then show ?thesis
      by (simp add: AArch64_call_args_def AArch64NativeArgs_ok [OF U] e(1) reg_def e(4))
  next
    case False
    with that e(5) [rule_format, of i] show ?thesis
      by (simp add: AArch64_call_args_def AArch64NativeArgs_ok [OF U] e(1) reg_def e(2) [unfolded reg_def])
  qed
  show "AArch64_ret_addr E c (CpuAArch64EmuThunkPre E c A s) = RETURN_TO_NATIVE_MAGIC E"
    by (simp add: AArch64_ret_addr_def AArch64NativeArgs_ok [OF U] e(1,3) reg_def)
  show "reg E c UC_ARM64_REG_SP (CpuAArch64EmuThunkPost E c A' t) = reg E c UC_ARM64_REG_SP s"
    if t: "AArch64_ok E c t" and sp: "reg E c UC_ARM64_REG_SP t = reg E c UC_ARM64_REG_SP (CpuAArch64EmuThunkPre E c A s)"
  proof -
    have "StackReg (cpus t c) = UC_ARM64_REG_SP" using t by (simp add: AArch64_ok_def)
    from AArch64_post [OF U this, of A'] sp show ?thesis
      by (auto simp: e(1) reg_def e(2) [unfolded reg_def])
  qed
qed

section \<open>Properties\<close>

text \<open>
  C17: after CpuX64EmuThunkPre, native code called with the registers and the
  stack the emulated function was entered with gets exactly the sixteen
  arguments, the return address is the return-to-native address, and nothing
  but the 136 bytes of the new frame and the argument registers has changed.
\<close>

theorem CpuX64EmuThunkPre_passes_arguments:
  fixes E :: "('u, 'c) env" and w :: "('u, 'c, 'z) machine_scheme"
  assumes "X64_ok E c w"
  shows "let w' = CpuX64EmuThunkPre E c A w; s = reg E c UC_X86_REG_RSP w - 136 in
    (\<forall>i < MAX_ARGS. X64_call_args E c w' i = A i) \<and> X64_ret_addr E c w' = RETURN_TO_NATIVE_MAGIC E \<and>
    reg E c UC_X86_REG_RSP w' = s \<and> (\<forall>a. 136 \<le> a - s \<longrightarrow> mem w' a = mem w a) \<and>
    (\<forall>r. r \<notin> {UC_X86_REG_RSP, UC_X86_REG_RCX, UC_X86_REG_RDX, UC_X86_REG_R8, UC_X86_REG_R9} \<longrightarrow>
       reg E c r w' = reg E c r w) \<and> hooks w' = hooks w \<and> cpus w' = cpus w"
proof -
  from X64_entry [OF assms, of A] obtain m u where e: "CpuX64EmuThunkPre E c A w = (set_UE c u w)\<lparr>mem := m\<rparr>"
    "rd (UC E) u UC_X86_REG_RSP = reg E c UC_X86_REG_RSP w - 136"
    "\<forall>r. r \<notin> {UC_X86_REG_RSP, UC_X86_REG_RCX, UC_X86_REG_RDX, UC_X86_REG_R8, UC_X86_REG_R9} \<longrightarrow>
       rd (UC E) u r = reg E c r w"
    "\<forall>a. 136 \<le> a - (reg E c UC_X86_REG_RSP w - 136) \<longrightarrow> m a = mem w a"
    by (elim exE conjE)
  have "\<forall>i < MAX_ARGS. X64_call_args E c (CpuX64EmuThunkPre E c A w) i = A i"
    by (intro allI impI x64.pre_args [OF assms])
  moreover have "reg E c r (CpuX64EmuThunkPre E c A w) = rd (UC E) u r" for r
    by (simp add: e(1) reg_def)
  ultimately show ?thesis
    unfolding Let_def using e x64.pre_ret [OF assms, of A] by auto
qed

text \<open>C18: the same for CpuAArch64EmuThunkPre, whose frame has 64 bytes and whose return address is in LR.\<close>

theorem CpuAArch64EmuThunkPre_passes_arguments:
  fixes E :: "('u, 'c) env" and w :: "('u, 'c, 'z) machine_scheme"
  assumes "AArch64_ok E c w"
  shows "let w' = CpuAArch64EmuThunkPre E c A w; s = reg E c UC_ARM64_REG_SP w - 64 in
    (\<forall>i < MAX_ARGS. AArch64_call_args E c w' i = A i) \<and> AArch64_ret_addr E c w' = RETURN_TO_NATIVE_MAGIC E \<and>
    reg E c UC_ARM64_REG_SP w' = s \<and> (\<forall>a. 64 \<le> a - s \<longrightarrow> mem w' a = mem w a) \<and>
    (\<forall>r. r \<notin> {UC_ARM64_REG_SP, UC_ARM64_REG_LR, UC_ARM64_REG_X0, UC_ARM64_REG_X1, UC_ARM64_REG_X2, UC_ARM64_REG_X3,
        UC_ARM64_REG_X4, UC_ARM64_REG_X5, UC_ARM64_REG_X6, UC_ARM64_REG_X7} \<longrightarrow> reg E c r w' = reg E c r w) \<and>
    hooks w' = hooks w \<and> cpus w' = cpus w"
proof -
  from AArch64_entry [OF assms, of A] obtain m u where e: "CpuAArch64EmuThunkPre E c A w = (set_UE c u w)\<lparr>mem := m\<rparr>"
    "rd (UC E) u UC_ARM64_REG_SP = reg E c UC_ARM64_REG_SP w - 64"
    "\<forall>r. r \<notin> {UC_ARM64_REG_SP, UC_ARM64_REG_LR, UC_ARM64_REG_X0, UC_ARM64_REG_X1, UC_ARM64_REG_X2, UC_ARM64_REG_X3,
        UC_ARM64_REG_X4, UC_ARM64_REG_X5, UC_ARM64_REG_X6, UC_ARM64_REG_X7} \<longrightarrow> rd (UC E) u r = reg E c r w"
    "\<forall>a. 64 \<le> a - (reg E c UC_ARM64_REG_SP w - 64) \<longrightarrow> m a = mem w a"
    by (elim exE conjE)
  have "\<forall>i < MAX_ARGS. AArch64_call_args E c (CpuAArch64EmuThunkPre E c A w) i = A i"
    by (intro allI impI aarch64.pre_args [OF assms])
  moreover have "reg E c r (CpuAArch64EmuThunkPre E c A w) = rd (UC E) u r" for r
    by (simp add: e(1) reg_def)
  ultimately show ?thesis
    unfolding Let_def using e aarch64.pre_ret [OF assms, of A] by auto
qed

text \<open>
  Nested X64 calls and their returns: every level of emulated code calls a native
  function with the arguments it was entered with, and that function calls back
  into emulated code.
\<close>

primrec X64_nested_entries ::
  "('u, 'c) env \<Rightarrow> cpu_id \<Rightarrow> nat \<Rightarrow> args \<Rightarrow> ('u, 'c, 'z) machine_scheme \<Rightarrow> ('u, 'c, 'z) machine_scheme" where
  "X64_nested_entries E c 0 A w = CpuX64EmuThunkPre E c A w"
| "X64_nested_entries E c (Suc n) A w =
     CpuX64EmuThunkPre E c (X64_call_args E c (X64_nested_entries E c n A w)) (X64_nested_entries E c n A w)"

primrec X64_nested_returns ::
  "('u, 'c) env \<Rightarrow> cpu_id \<Rightarrow> nat \<Rightarrow> args \<Rightarrow> ('u, 'c, 'z) machine_scheme \<Rightarrow> ('u, 'c, 'z) machine_scheme" where
  "X64_nested_returns E c 0 A w = CpuX64EmuThunkPost E c A (snd (CpuStackPop64 E c w))"
| "X64_nested_returns E c (Suc n) A w =
     X64_nested_returns E c n A (CpuX64EmuThunkPost E c A (snd (CpuStackPop64 E c w)))"

lemma X64_nested_locale:
  "X64_nested_entries E c n A w = x64.enter E c n A w"
  "X64_nested_returns E c n A w = x64.leave E c n A w"
  by (induction n arbitrary: w) simp_all

text \<open>
  However deep X64 calls nest, the arguments and the return address arrive
  unchanged at the innermost level, and once as many returns have been made, from
  any state with the innermost stack pointer, the stack pointer is the one before
  the outermost call.
\<close>

lemma X64_nested_calls_balance:
  fixes E :: "('u, 'c) env" and w t :: "('u, 'c, 'z) machine_scheme"
  assumes "X64_ok E c w" "X64_ok E c t" "reg E c UC_X86_REG_RSP t = reg E c UC_X86_REG_RSP (X64_nested_entries E c n A w)"
  shows "(\<forall>i < MAX_ARGS. X64_call_args E c (X64_nested_entries E c n A w) i = A i) \<and>
    X64_ret_addr E c (X64_nested_entries E c n A w) = RETURN_TO_NATIVE_MAGIC E \<and>
    reg E c UC_X86_REG_RSP (X64_nested_returns E c n A' t) = reg E c UC_X86_REG_RSP w"
  using x64.enter_args [OF assms(1)] x64.enter_ret [OF assms(1)]
    x64.leave_enter [OF assms(1,2) assms(3) [unfolded X64_nested_locale]]
  by (simp add: X64_nested_locale)

subsection \<open>Witnesses\<close>

definition example_machine :: "cpu_id \<Rightarrow> (uc_reg \<Rightarrow> u64, uc_reg \<Rightarrow> u64) machine" where
  "example_machine c = \<lparr>mem = (\<lambda>_. 0), hooks = example_hooks True Hook,
     UE = (\<lambda>_ r. if r = UC_X86_REG_RSP \<or> r = UC_ARM64_REG_SP then 0x800000 else 0),
     cpus = (\<lambda>_. example_cpu\<lparr>StackReg := (case c of CpuX64 \<Rightarrow> UC_X86_REG_RSP | CpuAArch64 \<Rightarrow> UC_ARM64_REG_SP)\<rparr>)\<rparr>"

lemma example_machine_ok:
  "X64_ok (example_env g) c (example_machine CpuX64)" "AArch64_ok (example_env g) c (example_machine CpuAArch64)"
  using uc_ok_regs [OF function_ops_ok [of g]]
  by (simp_all add: X64_ok_def AArch64_ok_def example_env_def example_machine_def)

lemma example_machine_sp:
  "reg (example_env g) c UC_X86_REG_RSP (example_machine CpuX64) = 0x800000"
  "reg (example_env g) c UC_ARM64_REG_SP (example_machine CpuAArch64) = 0x800000"
  by (simp_all add: reg_def rd_def example_env_def function_ops_def example_machine_def)

theorem CpuX64EmuThunkPre_passes_arguments_witness:
  "X64_call_args (example_env (\<lambda>_ _ s. s)) CpuX64
     (CpuX64EmuThunkPre (example_env (\<lambda>_ _ s. s)) CpuX64 (\<lambda>i. of_nat (100 + i)) (example_machine CpuX64)) 15 = 115 \<and>
   reg (example_env (\<lambda>_ _ s. s)) CpuX64 UC_X86_REG_RSP
     (CpuX64EmuThunkPre (example_env (\<lambda>_ _ s. s)) CpuX64 (\<lambda>i. of_nat (100 + i)) (example_machine CpuX64)) = 0x7FFF78"
  using CpuX64EmuThunkPre_passes_arguments [OF example_machine_ok(1) [of "\<lambda>_ _ s. s" CpuX64],
      of "\<lambda>i. of_nat (100 + i)"]
  by (simp add: example_machine_sp Let_def)

theorem CpuAArch64EmuThunkPre_passes_arguments_witness:
  "AArch64_call_args (example_env (\<lambda>_ _ s. s)) CpuAArch64
     (CpuAArch64EmuThunkPre (example_env (\<lambda>_ _ s. s)) CpuAArch64 (\<lambda>i. of_nat (100 + i)) (example_machine CpuAArch64)) 15 = 115 \<and>
   reg (example_env (\<lambda>_ _ s. s)) CpuAArch64 UC_ARM64_REG_SP
     (CpuAArch64EmuThunkPre (example_env (\<lambda>_ _ s. s)) CpuAArch64 (\<lambda>i. of_nat (100 + i)) (example_machine CpuAArch64)) = 0x7FFFC0"
  using CpuAArch64EmuThunkPre_passes_arguments [OF example_machine_ok(2) [of "\<lambda>_ _ s. s" CpuAArch64],
      of "\<lambda>i. of_nat (100 + i)"]
  by (simp add: example_machine_sp Let_def)

end
