(* ===== verification/Object_Alloc.thy ===== *)
theory Object_Alloc
  imports Prelude
begin

text \<open>
  ObjectAlloc.c: a pool of equally sized objects carved out of one arena of
  pages, with a list of the free ones and callbacks on creation, allocation,
  release and destruction.  The run contexts of Cpu.c live in such pools.
  The locale \<open>object_pool\<close> is the contract the clients rely on; it is
  interpreted on ObjectAlloc and ObjectFree below.
\<close>

section \<open>Data\<close>

text \<open>
  The LIST\_ENTRY of an object: zero bytes in a fresh arena, pointing to itself
  after InitializeListHead (then IsListEmpty holds of it), or on the free list.
  The lists of BaseLib are HOL lists in ring order: InsertTailList appends,
  GetFirstNode is the head, RemoveEntryList removes the entry.
\<close>

datatype link = Zeroed | SelfLinked | OnList

record object_header =
  Signature :: u64
  Link :: link

definition IsListEmpty_entry :: "link \<Rightarrow> bool" where
  "IsListEmpty_entry l \<longleftrightarrow> l = SelfLinked"

definition sizeof_ObjectHeader :: u64 where "sizeof_ObjectHeader = 24"

text \<open>The callbacks work on a state \<open>'s\<close> of the client (their CbContext and the object's fields).\<close>

record 's ObjectAllocConfig =
  ObjectSize :: u64
  ObjectAlignment :: u64
  ObjectCount :: u64
  cfg_Signature :: u64
  OnCreate :: "(ptr \<Rightarrow> 's \<Rightarrow> efi_status \<times> 's) option"
  OnAlloc :: "(ptr \<Rightarrow> 's \<Rightarrow> efi_status \<times> 's) option"
  OnFree :: "(ptr \<Rightarrow> 's \<Rightarrow> 's) option"
  OnDestroy :: "(ptr \<Rightarrow> 's \<Rightarrow> 's) option"

record 's ObjectAllocContext =
  Arena :: ptr
  ArenaSize :: u64
  FreeList :: "ptr list"
  Config :: "'s ObjectAllocConfig"
  headers :: "ptr \<Rightarrow> object_header"

text \<open>
  What the driver holds of the firmware's memory: pool blocks and page runs.
  AllocatePool and AllocatePages are firmware code, so whether they succeed and
  where is a parameter.
\<close>

record mem_ledger =
  pool_blocks :: nat
  page_runs :: "(ptr \<times> u64) list"

record mem_services =
  pool_available :: bool
  pages_at :: "u64 \<Rightarrow> ptr option"

definition FreePool :: "mem_ledger \<Rightarrow> mem_ledger" where
  "FreePool l = l\<lparr>pool_blocks := pool_blocks l - 1\<rparr>"

definition FreePages :: "ptr \<Rightarrow> u64 \<Rightarrow> mem_ledger \<Rightarrow> mem_ledger" where
  "FreePages a n l = l\<lparr>page_runs := remove1 (a, n) (page_runs l)\<rparr>"

section \<open>Creation\<close>

text \<open>
  The for loop of ObjectAllocCreate, by the number of objects still to do.  It
  stops at the first OnCreate that fails; the result is Status, Index, Object,
  the headers, the list and the client's state.
\<close>

fun create_loop ::
  "'s ObjectAllocConfig \<Rightarrow> u64 \<Rightarrow> nat \<Rightarrow> ptr \<Rightarrow> nat \<Rightarrow> efi_status \<Rightarrow>
   (ptr \<Rightarrow> object_header) \<Rightarrow> ptr list \<Rightarrow> 's \<Rightarrow>
   efi_status \<times> nat \<times> ptr \<times> (ptr \<Rightarrow> object_header) \<times> ptr list \<times> 's" where
  "create_loop cfg sz 0 Object Index Status h l s = (Status, Index, Object, h, l, s)"
| "create_loop cfg sz (Suc n) Object Index Status h l s =
     (let h1 = h(Object := (h Object)\<lparr>Signature := cfg_Signature cfg\<rparr>)
      in case OnCreate cfg of
           None \<Rightarrow> create_loop cfg sz n (Object + sz) (Suc Index) Status
                      (h1(Object := (h1 Object)\<lparr>Link := OnList\<rparr>)) (l @ [Object]) s
         | Some f \<Rightarrow>
             (let (st, s1) = f Object s
              in if EFI_ERROR st then (st, Index, Object, h1, l, s1)
                 else create_loop cfg sz n (Object + sz) (Suc Index) st
                        (h1(Object := (h1 Object)\<lparr>Link := OnList\<rparr>)) (l @ [Object]) s1))"

text \<open>The while loop that undoes OnCreate, from the last created object down.\<close>

fun undo_loop :: "'s ObjectAllocConfig \<Rightarrow> u64 \<Rightarrow> nat \<Rightarrow> ptr \<Rightarrow> 's \<Rightarrow> 's" where
  "undo_loop cfg sz 0 Object s = s"
| "undo_loop cfg sz (Suc Index) Object s =
     (let Object1 = Object - sz
      in undo_loop cfg sz Index Object1
           (case OnDestroy cfg of None \<Rightarrow> s | Some f \<Rightarrow> f Object1 s))"

lemma loops_numeral [simp]:
  "create_loop cfg sz (numeral k) a i st h l s =
     create_loop cfg sz (Suc (pred_numeral k)) a i st h l s"
  "undo_loop cfg sz (numeral k) a s = undo_loop cfg sz (Suc (pred_numeral k)) a s"
  by (simp_all only: numeral_eq_Suc)

text \<open>
  \<open>uninit\<close> is the value of the local variable Status before the loop, which
  the code does not initialise: it is tested after the loop.
\<close>

definition ObjectAllocCreate ::
  "mem_services \<Rightarrow> efi_status \<Rightarrow> 's ObjectAllocConfig \<Rightarrow> mem_ledger \<Rightarrow> 's \<Rightarrow>
   efi_status \<times> 's ObjectAllocContext option \<times> mem_ledger \<times> 's" where
  "ObjectAllocCreate ms uninit cfg0 l0 s =
     (if \<not> pool_available ms then (EFI_OUT_OF_RESOURCES, None, l0, s)
      else
        let l1 = l0\<lparr>pool_blocks := pool_blocks l0 + 1\<rparr>;
            sz = ROUND_UP (ObjectSize cfg0) (ObjectAlignment cfg0)
        in if sz < sizeof_ObjectHeader then (EFI_INVALID_PARAMETER, None, l1, s)
           else
             let Pages = EFI_SIZE_TO_PAGES (sz * ObjectCount cfg0);
                 asize = EFI_PAGES_TO_SIZE Pages;
                 cfg = cfg0\<lparr>ObjectCount := asize div sz\<rparr>
             in case pages_at ms Pages of
                  None \<Rightarrow> (EFI_OUT_OF_RESOURCES, None, FreePool l1, s)
                | Some a \<Rightarrow>
                    let l2 = l1\<lparr>page_runs := (a, Pages) # page_runs l1\<rparr>;
                        (Status, Index, Object, h, fl, s1) =
                          create_loop cfg sz (unat (ObjectCount cfg)) a 0 uninit
                            (\<lambda>_. \<lparr>Signature = 0, Link = Zeroed\<rparr>) [] s
                    in if EFI_ERROR Status
                       then (Status, None, FreePool (FreePages a Pages l2),
                             undo_loop cfg sz Index Object s1)
                       else (EFI_SUCCESS,
                             Some \<lparr>Arena = a, ArenaSize = asize, FreeList = fl, Config = cfg, headers = h\<rparr>,
                             l2, s1))"

section \<open>Destruction, allocation, release\<close>

text \<open>
  The loop of ObjectAllocDestroy calls OnDestroy without a NULL check, after
  asserting that the object is not allocated.
\<close>

fun destroy_loop ::
  "'s ObjectAllocContext \<Rightarrow> u64 \<Rightarrow> nat \<Rightarrow> ptr \<Rightarrow> 's \<Rightarrow> ('j, 's) outcome" where
  "destroy_loop C sz 0 Object s = Done s"
| "destroy_loop C sz (Suc n) Object s =
     (if IsListEmpty_entry (Link (headers C Object)) then Crashed ASSERT_failed
      else case OnDestroy (Config C) of
             None \<Rightarrow> Crashed NULL_dereference
           | Some f \<Rightarrow> destroy_loop C sz n (Object + sz) (f Object s))"

definition ObjectAllocDestroy ::
  "'s ObjectAllocContext \<Rightarrow> mem_ledger \<Rightarrow> 's \<Rightarrow> ('j, mem_ledger \<times> 's) outcome" where
  "ObjectAllocDestroy C l s =
     (let sz = ROUND_UP (ObjectSize (Config C)) (ObjectAlignment (Config C))
      in case destroy_loop C sz (unat (ObjectCount (Config C))) (Arena C) s of
           Done s1 \<Rightarrow>
             Done (FreePool (FreePages (Arena C) (EFI_SIZE_TO_PAGES (sz * ObjectCount (Config C))) l), s1)
         | Jumped j \<Rightarrow> Jumped j
         | Crashed c \<Rightarrow> Crashed c)"

text \<open>
  ObjectAlloc: the CR macro asserts the signature of the object it takes from
  the list.  The result is the status, the object (when it succeeds), the pool
  and the client's state.
\<close>

definition ObjectAlloc ::
  "'s ObjectAllocContext \<Rightarrow> 's \<Rightarrow>
   ('j, efi_status \<times> ptr option \<times> 's ObjectAllocContext \<times> 's) outcome" where
  "ObjectAlloc C s =
     (case FreeList C of
        [] \<Rightarrow> Done (EFI_OUT_OF_RESOURCES, None, C, s)
      | Object # rest \<Rightarrow>
          if Signature (headers C Object) \<noteq> cfg_Signature (Config C) then Crashed ASSERT_failed
          else
            let (Status, s1) = (case OnAlloc (Config C) of
                                  None \<Rightarrow> (EFI_SUCCESS, s) | Some f \<Rightarrow> f Object s)
            in if EFI_ERROR Status then Done (Status, None, C, s1)
               else Done (EFI_SUCCESS, Some Object,
                      C\<lparr>FreeList := rest,
                        headers := (headers C)(Object := (headers C Object)\<lparr>Link := SelfLinked\<rparr>)\<rparr>, s1))"

definition ObjectFree ::
  "'s ObjectAllocContext \<Rightarrow> ptr \<Rightarrow> 's \<Rightarrow> ('j, 's ObjectAllocContext \<times> 's) outcome" where
  "ObjectFree C Object s =
     (if \<not> IsListEmpty_entry (Link (headers C Object)) then Crashed ASSERT_failed
      else
        let s1 = (case OnFree (Config C) of None \<Rightarrow> s | Some f \<Rightarrow> f Object s)
        in Done (C\<lparr>FreeList := FreeList C @ [Object],
                   headers := (headers C)(Object := (headers C Object)\<lparr>Link := OnList\<rparr>)\<rparr>, s1))"

section \<open>Page and rounding arithmetic\<close>

lemma unat_EFI_SIZE_TO_PAGES: "unat (EFI_SIZE_TO_PAGES x) = (unat x + 4095) div 4096"
proof -
  have "x AND 0xFFF = take_bit 12 x"
    by (simp add: take_bit_eq_mask mask_eq_exp_minus_1)
  then have m: "unat (x AND 0xFFF) = unat x mod 4096"
    by (simp add: take_bit_eq_mod unat_mod)
  have d: "unat (drop_bit 12 x) = unat x div 4096"
    by (simp add: drop_bit_eq_div unat_div)
  have lt: "unat x < 2 ^ 64" using unat_lt64 [of x] by simp
  show ?thesis
  proof (cases "unat x mod 4096 = 0")
    case True
    with m have "x AND 0xFFF = 0" by (simp add: unat_eq_0)
    moreover have "unat x div 4096 = (unat x + 4095) div 4096"
      using True div_mult_mod_eq [of "unat x" 4096] by (intro ceil_pages_eqI [symmetric]) linarith+
    ultimately show ?thesis using d by (simp add: EFI_SIZE_TO_PAGES_def)
  next
    case False
    with m have "x AND 0xFFF \<noteq> 0" by auto
    moreover have "unat (drop_bit 12 x + 1) = unat x div 4096 + 1"
      using d lt by (subst unat_add_lt) auto
    moreover have "unat x div 4096 + 1 = (unat x + 4095) div 4096"
    proof -
      define q r where "q = unat x div 4096" and "r = unat x mod 4096"
      have "unat x = q * 4096 + r" "r < 4096" "0 < r"
        using False by (simp_all add: q_def r_def)
      then show ?thesis
        unfolding q_def [symmetric] by (intro ceil_pages_eqI [symmetric]) simp_all
    qed
    ultimately show ?thesis by (simp add: EFI_SIZE_TO_PAGES_def)
  qed
qed

lemma unat_EFI_PAGES_TO_SIZE:
  "unat p * 4096 < 2 ^ 64 \<Longrightarrow> unat (EFI_PAGES_TO_SIZE p) = unat p * 4096"
  by (simp add: EFI_PAGES_TO_SIZE_def push_bit_eq_mult unat_word_ariths)

lemma unat_power2: "k < 64 \<Longrightarrow> unat (2 ^ k :: u64) = 2 ^ k"
proof -
  assume k: "k < 64"
  then have "(2::nat) ^ k < 2 ^ 64" by (rule power_strict_increasing) simp
  then have "unat (of_nat (2 ^ k) :: u64) = 2 ^ k" by (subst unat_of_nat) simp
  then show ?thesis by (metis of_nat_numeral of_nat_power)
qed

lemma unat_clear_low: "k < 64 \<Longrightarrow> unat (x AND NOT (mask k) :: u64) = unat x div 2 ^ k * 2 ^ k"
proof -
  assume k: "k < 64"
  have "x AND NOT (mask k) = push_bit k (drop_bit k x)"
    by (rule bit_word_eqI) (auto simp: bit_simps)
  moreover have "unat (drop_bit k x) = unat x div 2 ^ k"
    using k by (simp add: drop_bit_eq_div unat_div unat_power2)
  moreover have "unat x div 2 ^ k * 2 ^ k < 2 ^ 64"
    using unat_lt64 [of x] by (simp add: le_less_trans [OF div_times_less_eq_dividend])
  ultimately show ?thesis
    using k by (simp add: push_bit_eq_mult unat_word_ariths unat_power2)
qed

lemma ROUND_UP_power2:
  assumes "unat x + 2 ^ k \<le> 2 ^ 64" "k < 64"
  shows "unat (ROUND_UP x (2 ^ k)) = (unat x + 2 ^ k - 1) div 2 ^ k * 2 ^ k"
proof -
  have p: "(0::nat) < 2 ^ k" by simp
  have m: "unat (mask k :: u64) = 2 ^ k - 1"
    using assms(2) by (simp add: mask_eq_exp_minus_1 unat_diff_le word_le_nat_alt unat_power2)
  have "unat (x + mask k) = unat x + (2 ^ k - 1)"
    using assms(1) p m by (subst unat_add_lt) (auto simp: m)
  moreover have "ROUND_UP x (2 ^ k) = (x + mask k) AND NOT (mask k)"
    by (simp add: ROUND_UP_def mask_eq_exp_minus_1 add_diff_eq)
  ultimately show ?thesis
    using assms(2) p by (simp add: unat_clear_low)
qed

text \<open>
  The number of pages ObjectAllocDestroy computes from the enlarged object count
  is the number ObjectAllocCreate allocated.
\<close>

lemma pages_of_enlarged_count:
  fixes z n :: nat
  assumes "0 < z"
  shows "(z * ((z * n + 4095) div 4096 * 4096 div z) + 4095) div 4096 = (z * n + 4095) div 4096"
proof -
  define P where "P = (z * n + 4095) div 4096"
  define c where "c = P * 4096 div z"
  have P: "z * n \<le> P * 4096" "P * 4096 < z * n + 4096"
    unfolding P_def by (rule ceil_pages_bounds)+
  have "n \<le> c"
    unfolding c_def using P(1) assms by (simp add: less_eq_div_iff_mult_less_eq mult.commute)
  then have "z * n \<le> z * c" by simp
  moreover have "z * c \<le> P * 4096"
    unfolding c_def by simp
  ultimately have "(z * c + 4095) div 4096 = P"
    using P(2) by (intro ceil_pages_eqI) linarith+
  then show ?thesis by (simp add: P_def c_def)
qed

section \<open>The objects of a pool\<close>

primrec addrs :: "ptr \<Rightarrow> u64 \<Rightarrow> nat \<Rightarrow> ptr list" where
  "addrs a z 0 = []"
| "addrs a z (Suc n) = a # addrs (a + z) z n"

lemma addrs_numeral [simp]: "addrs a z (numeral k) = a # addrs (a + z) z (pred_numeral k)"
  by (simp add: numeral_eq_Suc)

lemma length_addrs [simp]: "length (addrs a z n) = n"
  by (induction n arbitrary: a) auto

lemma nth_addrs: "i < n \<Longrightarrow> addrs a z n ! i = a + of_nat i * z"
  by (induction n arbitrary: a i) (auto simp: nth_Cons algebra_simps split: nat.split)

lemma of_nat_mult_inj:
  assumes "(of_nat i :: u64) * z = of_nat j * z" "i * unat z < 2 ^ 64" "j * unat z < 2 ^ 64" "z \<noteq> 0"
  shows "i = j"
proof -
  have u: "unat (of_nat k * z) = k * unat z" if "k * unat z < 2 ^ 64" for k
  proof -
    have "(of_nat k :: u64) * z = of_nat (k * unat z)" by simp
    then have "unat (of_nat k * z) = k * unat z mod 2 ^ 64" by (simp only: unat_of_nat) simp
    with that show ?thesis by simp
  qed
  have "0 < unat z" using assms(4) by (simp add: unat_gt_0)
  moreover have "i * unat z = j * unat z"
    using u [OF assms(2)] u [OF assms(3)] arg_cong [OF assms(1), of unat] by linarith
  ultimately show ?thesis by simp
qed

lemma distinct_addrs:
  assumes "unat z * n \<le> 2 ^ 64" "z \<noteq> 0"
  shows "distinct (addrs a z n)"
proof -
  have lt: "i * unat z < 2 ^ 64" if "i < n" for i
  proof -
    have "i * unat z < n * unat z" using that assms(2) by (simp add: unat_gt_0)
    also have "\<dots> \<le> 2 ^ 64" using assms(1) by (simp add: mult.commute)
    finally show ?thesis .
  qed
  show ?thesis
    unfolding distinct_conv_nth
    using of_nat_mult_inj [OF _ lt lt assms(2)] by (auto simp: nth_addrs)
qed

definition osize :: "'s ObjectAllocContext \<Rightarrow> u64" where
  "osize C = ROUND_UP (ObjectSize (Config C)) (ObjectAlignment (Config C))"

definition objs :: "'s ObjectAllocContext \<Rightarrow> ptr list" where
  "objs C = addrs (Arena C) (osize C) (unat (ObjectCount (Config C)))"

text \<open>
  The invariant of a pool: the free list is a duplicate-free selection of the
  objects, an object is linked into the list exactly when it is free and points
  to itself otherwise, and every object carries the pool's signature.
\<close>

definition pool_inv :: "'s ObjectAllocContext \<Rightarrow> bool" where
  "pool_inv C \<longleftrightarrow> distinct (objs C) \<and> distinct (FreeList C) \<and> set (FreeList C) \<subseteq> set (objs C) \<and>
     (\<forall>x \<in> set (objs C). Signature (headers C x) = cfg_Signature (Config C) \<and>
        Link (headers C x) = (if x \<in> set (FreeList C) then OnList else SelfLinked))"

text \<open>The callbacks that cannot fail: OnAlloc never reports an error.\<close>

definition OnAlloc_ok :: "'s ObjectAllocConfig \<Rightarrow> bool" where
  "OnAlloc_ok cfg \<longleftrightarrow> (\<forall>f x s. OnAlloc cfg = Some f \<longrightarrow> \<not> EFI_ERROR (fst (f x s)))"

definition on_alloc :: "'s ObjectAllocConfig \<Rightarrow> ptr \<Rightarrow> 's \<Rightarrow> 's" where
  "on_alloc cfg x s = (case OnAlloc cfg of None \<Rightarrow> s | Some f \<Rightarrow> snd (f x s))"

definition on_free :: "'s ObjectAllocConfig \<Rightarrow> ptr \<Rightarrow> 's \<Rightarrow> 's" where
  "on_free cfg x s = (case OnFree cfg of None \<Rightarrow> s | Some f \<Rightarrow> f x s)"

definition take_first :: "'s ObjectAllocContext \<Rightarrow> 's ObjectAllocContext" where
  "take_first C = C\<lparr>FreeList := tl (FreeList C),
     headers := (headers C)(hd (FreeList C) := (headers C (hd (FreeList C)))\<lparr>Link := SelfLinked\<rparr>)\<rparr>"

definition put_back :: "ptr \<Rightarrow> 's ObjectAllocContext \<Rightarrow> 's ObjectAllocContext" where
  "put_back x C = C\<lparr>FreeList := FreeList C @ [x],
     headers := (headers C)(x := (headers C x)\<lparr>Link := OnList\<rparr>)\<rparr>"

lemma pool_frame [simp]:
  "objs (take_first C) = objs C" "Config (take_first C) = Config C"
  "objs (put_back x C) = objs C" "Config (put_back x C) = Config C"
  "FreeList (take_first C) = tl (FreeList C)" "FreeList (put_back x C) = FreeList C @ [x]"
  by (simp_all add: objs_def osize_def take_first_def put_back_def)

lemma ObjectAlloc_empty: "FreeList C = [] \<Longrightarrow> ObjectAlloc C s = Done (EFI_OUT_OF_RESOURCES, None, C, s)"
  by (simp add: ObjectAlloc_def)

lemma ObjectAlloc_first:
  assumes "pool_inv C" "OnAlloc_ok (Config C)" "FreeList C = x # rest"
  shows "ObjectAlloc C s = Done (EFI_SUCCESS, Some x, take_first C, on_alloc (Config C) x s)"
  using assms
  by (auto simp: ObjectAlloc_def pool_inv_def OnAlloc_ok_def on_alloc_def take_first_def Let_def
      split: option.splits prod.splits) (metis fst_conv)

lemma ObjectFree_eq:
  assumes "pool_inv C" "x \<in> set (objs C)" "x \<notin> set (FreeList C)"
  shows "ObjectFree C x s = Done (put_back x C, on_free (Config C) x s)"
  using assms by (simp add: ObjectFree_def pool_inv_def IsListEmpty_entry_def put_back_def on_free_def)

lemma pool_inv_take_first:
  assumes "pool_inv C" "FreeList C = x # rest"
  shows "pool_inv (take_first C)"
  using assms unfolding pool_inv_def pool_frame by (auto simp: take_first_def)

lemma pool_inv_put_back:
  assumes "pool_inv C" "x \<in> set (objs C)" "x \<notin> set (FreeList C)"
  shows "pool_inv (put_back x C)"
  using assms unfolding pool_inv_def pool_frame by (auto simp: put_back_def)

section \<open>Creation and its undoing\<close>

text \<open>A creation that succeeds makes every address an object, in order.\<close>

definition OnCreate_ok :: "'s ObjectAllocConfig \<Rightarrow> bool" where
  "OnCreate_ok cfg \<longleftrightarrow> (\<forall>f x s. OnCreate cfg = Some f \<longrightarrow> \<not> EFI_ERROR (fst (f x s)))"

lemma create_loop_success:
  assumes "OnCreate_ok cfg"
    and "EFI_ERROR st \<Longrightarrow> OnCreate cfg \<noteq> None \<and> 0 < n" and "distinct (addrs a z n)"
  shows "\<exists>st' h' s'. create_loop cfg z n a i st h l s = (st', i + n, a + of_nat n * z, h', l @ addrs a z n, s') \<and>
    \<not> EFI_ERROR st' \<and>
    (\<forall>x. h' x = (if x \<in> set (addrs a z n) then \<lparr>Signature = cfg_Signature cfg, Link = OnList\<rparr> else h x))"
  using assms(2,3)
proof (induction n arbitrary: a i st h l s)
  case 0
  then show ?case by auto
next
  case (Suc n)
  let ?h = "h(a := (h a)\<lparr>Signature := cfg_Signature cfg, Link := OnList\<rparr>)"
  let ?st = "case OnCreate cfg of None \<Rightarrow> st | Some f \<Rightarrow> fst (f a s)"
  let ?s = "case OnCreate cfg of None \<Rightarrow> s | Some f \<Rightarrow> snd (f a s)"
  have ok: "\<not> EFI_ERROR ?st"
    using Suc.prems(1) assms(1) by (auto simp: OnCreate_ok_def split: option.split)
  then have ok': "EFI_ERROR ?st \<Longrightarrow> OnCreate cfg \<noteq> None \<and> 0 < n" by simp
  have step: "create_loop cfg z (Suc n) a i st h l s = create_loop cfg z n (a + z) (Suc i) ?st ?h (l @ [a]) ?s"
    using ok by (auto simp: Let_def split: option.split prod.split)
  from Suc.prems(2) have d: "distinct (addrs (a + z) z n)" "a \<notin> set (addrs (a + z) z n)" by auto
  from Suc.IH [OF ok' d(1), where i = "Suc i" and h = ?h and l = "l @ [a]" and s = ?s] obtain st' h' s' where
    "create_loop cfg z n (a + z) (Suc i) ?st ?h (l @ [a]) ?s =
       (st', Suc i + n, a + z + of_nat n * z, h', (l @ [a]) @ addrs (a + z) z n, s')"
    "\<not> EFI_ERROR st'"
    "\<forall>x. h' x = (if x \<in> set (addrs (a + z) z n) then \<lparr>Signature = cfg_Signature cfg, Link = OnList\<rparr> else ?h x)"
    by blast
  with d(2) show ?case
    unfolding step by (simp add: algebra_simps)
qed

text \<open>
  OnDestroy undoes OnCreate, and an OnCreate that fails leaves nothing behind.
\<close>

definition create_undone :: "'s ObjectAllocConfig \<Rightarrow> bool" where
  "create_undone cfg \<longleftrightarrow>
     (case OnCreate cfg of
        None \<Rightarrow> OnDestroy cfg = None
      | Some f \<Rightarrow> \<forall>x s. if EFI_ERROR (fst (f x s)) then snd (f x s) = s
                      else (case OnDestroy cfg of None \<Rightarrow> snd (f x s) = s | Some d \<Rightarrow> d x (snd (f x s)) = s))"

lemma create_loop_undo:
  assumes "create_undone cfg"
    and "create_loop cfg z n a i st h l s = (st', i', a', h', l', s')"
  shows "undo_loop cfg z i' a' s' = undo_loop cfg z i a s"
  using assms(2)
proof (induction n arbitrary: a i st h l s)
  case 0
  then show ?case by simp
next
  case (Suc n)
  let ?st = "case OnCreate cfg of None \<Rightarrow> st | Some f \<Rightarrow> fst (f a s)"
  let ?s = "case OnCreate cfg of None \<Rightarrow> s | Some f \<Rightarrow> snd (f a s)"
  show ?case
  proof (cases "OnCreate cfg \<noteq> None \<and> EFI_ERROR ?st")
    case True
    with Suc.prems assms(1) show ?thesis
      by (auto simp: Let_def create_undone_def split: prod.splits) (metis fst_conv snd_conv)
  next
    case False
    with Suc.prems obtain h1 where
      "create_loop cfg z n (a + z) (Suc i) ?st h1 (l @ [a]) ?s = (st', i', a', h', l', s')"
      by (auto simp: Let_def split: option.splits prod.splits)
    from Suc.IH [OF this] have "undo_loop cfg z i' a' s' = undo_loop cfg z (Suc i) (a + z) ?s" .
    moreover have "(case OnDestroy cfg of None \<Rightarrow> ?s | Some d \<Rightarrow> d a ?s) = s"
    proof (cases "OnCreate cfg")
      case None
      with assms(1) show ?thesis by (simp add: create_undone_def)
    next
      case (Some f)
      with False assms(1) show ?thesis
        by (auto simp: create_undone_def dest!: spec [of _ a] spec [of _ s] split: option.split)
    qed
    ultimately show ?thesis by simp
  qed
qed

lemma create_pool:
  assumes "pool_available ms"
    and "sizeof_ObjectHeader \<le> ROUND_UP (ObjectSize cfg) (ObjectAlignment cfg)"
    and "unat (ROUND_UP (ObjectSize cfg) (ObjectAlignment cfg)) * unat (ObjectCount cfg) + 4096 \<le> 2 ^ 64"
    and "0 < ObjectCount cfg"
    and "pages_at ms (EFI_SIZE_TO_PAGES (ROUND_UP (ObjectSize cfg) (ObjectAlignment cfg) * ObjectCount cfg)) = Some a"
    and "OnCreate cfg = Some f" and "\<forall>x s. \<not> EFI_ERROR (fst (f x s))"
  shows "\<exists>C s'. ObjectAllocCreate ms uninit cfg l s =
      (EFI_SUCCESS, Some C,
       \<lparr>pool_blocks = pool_blocks l + 1,
        page_runs = (a, EFI_SIZE_TO_PAGES (osize C * ObjectCount cfg)) # page_runs l\<rparr>, s') \<and>
    pool_inv C \<and> FreeList C = objs C \<and> length (objs C) \<ge> unat (ObjectCount cfg) \<and>
    unat (osize C) * length (objs C) \<le> unat (ArenaSize C) \<and>
    OnDestroy (Config C) = OnDestroy cfg \<and> Arena C = a \<and>
    EFI_SIZE_TO_PAGES (osize C * ObjectCount (Config C)) = EFI_SIZE_TO_PAGES (osize C * ObjectCount cfg)"
proof -
  define z where "z = ROUND_UP (ObjectSize cfg) (ObjectAlignment cfg)"
  define n where "n = ObjectCount cfg"
  define P where "P = EFI_SIZE_TO_PAGES (z * n)"
  define c where "c = EFI_PAGES_TO_SIZE P div z"
  have z: "0 < unat z"
    using assms(2) by (simp add: z_def sizeof_ObjectHeader_def word_le_nat_alt)
  have zn: "unat (z * n) = unat z * unat n"
    using assms(3) by (simp add: z_def n_def unat_word_ariths)
  have P: "unat P = (unat z * unat n + 4095) div 4096"
    by (simp add: P_def unat_EFI_SIZE_TO_PAGES zn)
  have Pb: "unat z * unat n \<le> unat P * 4096" "unat P * 4096 < unat z * unat n + 4096"
    unfolding P by (rule ceil_pages_bounds)+
  have as: "unat (EFI_PAGES_TO_SIZE P) = unat P * 4096"
    using Pb(2) assms(3) by (intro unat_EFI_PAGES_TO_SIZE) (simp add: z_def n_def)
  have c: "unat c = unat P * 4096 div unat z"
    by (simp add: c_def unat_div as)
  have zc: "unat z * unat c \<le> unat P * 4096"
    unfolding c by simp
  have nc: "unat n \<le> unat c"
    unfolding c using Pb(1) z by (simp add: less_eq_div_iff_mult_less_eq mult.commute)
  have n0: "0 < unat n" using assms(4) by (simp add: n_def word_less_nat_alt)
  have d: "distinct (addrs a z (unat c))"
    using zc as unat_lt64 [of "EFI_PAGES_TO_SIZE P"] z by (intro distinct_addrs) auto
  have ok: "OnCreate_ok (cfg\<lparr>ObjectCount := c\<rparr>)"
    using assms(6,7) by (simp add: OnCreate_ok_def)
  have st: "EFI_ERROR uninit \<Longrightarrow> OnCreate (cfg\<lparr>ObjectCount := c\<rparr>) \<noteq> None \<and> 0 < unat c"
    using assms(6) n0 nc by simp
  from create_loop_success [where cfg = "cfg\<lparr>ObjectCount := c\<rparr>" and i = 0 and h = "\<lambda>_. \<lparr>Signature = 0, Link = Zeroed\<rparr>"
      and l = "[]" and s = s and st = uninit, OF ok st d]
  obtain st' h' s' where L:
    "create_loop (cfg\<lparr>ObjectCount := c\<rparr>) z (unat c) a 0 uninit (\<lambda>_. \<lparr>Signature = 0, Link = Zeroed\<rparr>) [] s =
       (st', unat c, a + c * z, h', addrs a z (unat c), s')" "\<not> EFI_ERROR st'"
    and h': "\<forall>x. h' x = (if x \<in> set (addrs a z (unat c))
       then \<lparr>Signature = cfg_Signature (cfg\<lparr>ObjectCount := c\<rparr>), Link = OnList\<rparr>
       else \<lparr>Signature = 0, Link = Zeroed\<rparr>)"
    by auto
  define C where "C = \<lparr>Arena = a, ArenaSize = EFI_PAGES_TO_SIZE P, FreeList = addrs a z (unat c),
      Config = cfg\<lparr>ObjectCount := c\<rparr>, headers = h'\<rparr>"
  have oC: "osize C = z" "objs C = addrs a z (unat c)"
    by (simp_all add: C_def osize_def objs_def z_def)
  have "ObjectAllocCreate ms uninit cfg l s = (EFI_SUCCESS, Some C,
       \<lparr>pool_blocks = pool_blocks l + 1, page_runs = (a, P) # page_runs l\<rparr>, s')"
    using assms(1,2,5) L unfolding ObjectAllocCreate_def
    by (simp add: Let_def z_def [symmetric] n_def [symmetric] P_def [symmetric] c_def [symmetric]
        not_less C_def)
  moreover have "pool_inv C"
    using d h' by (simp add: pool_inv_def oC) (simp add: C_def)
  moreover have "EFI_SIZE_TO_PAGES (z * c) = P"
  proof -
    have "unat (z * c) = unat z * unat c"
      using zc as unat_lt64 [of "EFI_PAGES_TO_SIZE P"] by (simp add: unat_word_ariths)
    then have "unat (EFI_SIZE_TO_PAGES (z * c)) = unat P"
      using pages_of_enlarged_count [OF z, of "unat n"] by (simp add: unat_EFI_SIZE_TO_PAGES c P)
    then show ?thesis by (simp add: word_unat_eq_iff)
  qed
  ultimately show ?thesis
    using nc zc as oC by (auto simp: P_def n_def C_def)
qed

lemma destroy_loop_free:
  assumes "OnDestroy (Config C) = Some d" "\<And>x. x \<in> set (addrs a z n) \<Longrightarrow> Link (headers C x) \<noteq> SelfLinked"
  shows "destroy_loop C z n a s = Done (fold d (addrs a z n) s)"
  using assms(2)
  by (induction n arbitrary: a s) (auto simp: IsListEmpty_entry_def assms(1))

lemma destroy_loop_allocated:
  assumes "OnDestroy (Config C) = Some d" "x \<in> set (addrs a z n)" "Link (headers C x) = SelfLinked"
  shows "destroy_loop C z n a s = Crashed ASSERT_failed"
  using assms(2)
  by (induction n arbitrary: a s) (auto simp: IsListEmpty_entry_def assms(1,3))

lemma ObjectAllocDestroy_cases:
  assumes "pool_inv C" "OnDestroy (Config C) = Some d"
  shows "(ObjectAllocDestroy C l s :: ('j, mem_ledger \<times> 's) outcome) =
    (if set (FreeList C) = set (objs C)
     then Done (FreePool (FreePages (Arena C) (EFI_SIZE_TO_PAGES (osize C * ObjectCount (Config C))) l),
                fold d (objs C) s)
     else Crashed ASSERT_failed)"
proof (cases "set (FreeList C) = set (objs C)")
  case True
  have "(destroy_loop C (osize C) (unat (ObjectCount (Config C))) (Arena C) s :: ('j, 's) outcome) =
      Done (fold d (objs C) s)"
    unfolding objs_def
    by (rule destroy_loop_free [OF assms(2)])
      (use True assms(1) in \<open>simp add: pool_inv_def objs_def\<close>)
  with True show ?thesis
    by (simp add: ObjectAllocDestroy_def osize_def [symmetric] Let_def)
next
  case False
  with assms(1) obtain x where x: "x \<in> set (objs C)" "x \<notin> set (FreeList C)"
    unfolding pool_inv_def by blast
  with assms(1) have "x \<in> set (objs C)" "Link (headers C x) = SelfLinked"
    by (auto simp: pool_inv_def)
  then have "(destroy_loop C (osize C) (unat (ObjectCount (Config C))) (Arena C) s :: ('j, 's) outcome) =
      Crashed ASSERT_failed"
    unfolding objs_def by (intro destroy_loop_allocated [OF assms(2)])
  with False show ?thesis
    by (simp add: ObjectAllocDestroy_def osize_def [symmetric] Let_def)
qed

section \<open>The interface: a pool of objects\<close>

text \<open>
  What a client of the pool relies on: an allocation fails exactly when no
  object is free and otherwise hands out an object nobody holds; a release makes
  the object free again.
\<close>

locale object_pool =
  fixes all :: "'p \<Rightarrow> 'o set" and free :: "'p \<Rightarrow> 'o set" and inv :: "'p \<Rightarrow> bool"
    and alloc :: "'p \<Rightarrow> ('o \<times> 'p) option" and release :: "'o \<Rightarrow> 'p \<Rightarrow> 'p"
  assumes free_all: "inv p \<Longrightarrow> free p \<subseteq> all p"
    and finite_all: "inv p \<Longrightarrow> finite (all p)"
    and alloc_None: "inv p \<Longrightarrow> alloc p = None \<longleftrightarrow> free p = {}"
    and alloc_Some: "inv p \<Longrightarrow> alloc p = Some (x, q) \<Longrightarrow>
      x \<in> free p \<and> free q = free p - {x} \<and> all q = all p \<and> inv q"
    and release_free: "inv p \<Longrightarrow> x \<in> all p - free p \<Longrightarrow>
      free (release x p) = insert x (free p) \<and> all (release x p) = all p \<and> inv (release x p)"
begin

lemma alloc_release: "inv p \<Longrightarrow> alloc p = Some (x, q) \<Longrightarrow>
    free (release x q) = free p \<and> all (release x q) = all p \<and> inv (release x q)"
  using alloc_Some [of p x q] release_free [of q x] free_all [of p] by auto

primrec alloc_many :: "nat \<Rightarrow> 'p \<Rightarrow> ('o list \<times> 'p) option" where
  "alloc_many 0 p = Some ([], p)"
| "alloc_many (Suc n) p =
     (case alloc p of None \<Rightarrow> None
      | Some (x, q) \<Rightarrow> map_option (\<lambda>(xs, r). (x # xs, r)) (alloc_many n q))"

lemma alloc_many_Some:
  "inv p \<Longrightarrow> alloc_many n p = Some (xs, q) \<Longrightarrow>
   distinct xs \<and> set xs \<subseteq> free p \<and> free q = free p - set xs \<and> all q = all p \<and> inv q \<and> length xs = n"
proof (induction n arbitrary: p xs)
  case 0
  then show ?case by simp
next
  case (Suc n)
  then obtain x r ys where a: "alloc p = Some (x, r)" "alloc_many n r = Some (ys, q)" "xs = x # ys"
    by (auto split: option.splits)
  with alloc_Some [OF Suc.prems(1) a(1)] Suc.IH [of r ys] show ?case by auto
qed

text \<open>Exactly as many allocations succeed as objects are free.\<close>

lemma alloc_many_iff: "inv p \<Longrightarrow> alloc_many n p \<noteq> None \<longleftrightarrow> n \<le> card (free p)"
proof (induction n arbitrary: p)
  case 0
  then show ?case by simp
next
  case (Suc n)
  have fin: "finite (free p)"
    using free_all finite_all Suc.prems by (meson finite_subset)
  show ?case
  proof (cases "alloc p")
    case None
    moreover from this have "free p = {}" using alloc_None [OF Suc.prems] by blast
    ultimately show ?thesis by (simp only: alloc_many.simps) simp
  next
    case (Some xq)
    then obtain x q where a: "alloc p = Some (x, q)" by (cases xq) auto
    from alloc_Some [OF Suc.prems a] have "card (free p) = Suc (card (free q))" "inv q"
      using card_Suc_Diff1 [OF fin, of x] by auto
    with a Suc.IH [of q] show ?thesis by (auto split: option.split)
  qed
qed

end

text \<open>ObjectAlloc and ObjectFree as the operations of the interface.\<close>

definition pool_alloc ::
  "'s ObjectAllocContext \<times> 's \<Rightarrow> (ptr \<times> 's ObjectAllocContext \<times> 's) option" where
  "pool_alloc p =
     (case (ObjectAlloc (fst p) (snd p) :: (unit, _) outcome) of
        Done (st, Some x, C, s) \<Rightarrow> Some (x, C, s)
      | _ \<Rightarrow> None)"

definition pool_release :: "ptr \<Rightarrow> 's ObjectAllocContext \<times> 's \<Rightarrow> 's ObjectAllocContext \<times> 's" where
  "pool_release x p =
     (case (ObjectFree (fst p) x (snd p) :: (unit, _) outcome) of Done q \<Rightarrow> q | _ \<Rightarrow> p)"

definition pool_ok :: "'s ObjectAllocContext \<times> 's \<Rightarrow> bool" where
  "pool_ok p \<longleftrightarrow> pool_inv (fst p) \<and> OnAlloc_ok (Config (fst p))"

lemma pool_alloc_eq:
  assumes "pool_ok p"
  shows "pool_alloc p =
    (case FreeList (fst p) of [] \<Rightarrow> None
     | x # xs \<Rightarrow> Some (x, take_first (fst p), on_alloc (Config (fst p)) x (snd p)))"
  using assms
  by (auto simp: pool_alloc_def pool_ok_def ObjectAlloc_empty ObjectAlloc_first split: list.split)

lemma pool_release_eq:
  assumes "pool_ok p" "x \<in> set (objs (fst p))" "x \<notin> set (FreeList (fst p))"
  shows "pool_release x p = (put_back x (fst p), on_free (Config (fst p)) x (snd p))"
  using assms by (simp add: pool_release_def pool_ok_def ObjectFree_eq)

interpretation op: object_pool
  "\<lambda>p. set (objs (fst p))" "\<lambda>p. set (FreeList (fst p))" pool_ok pool_alloc pool_release
proof
  fix p :: "'s ObjectAllocContext \<times> 's" and x q
  assume p: "pool_ok p"
  show "set (FreeList (fst p)) \<subseteq> set (objs (fst p))"
    using p by (simp add: pool_ok_def pool_inv_def)
  show "finite (set (objs (fst p)))" by simp
  show "pool_alloc p = None \<longleftrightarrow> set (FreeList (fst p)) = {}"
    by (simp add: pool_alloc_eq [OF p] split: list.split)
  show "x \<in> set (FreeList (fst p)) \<and> set (FreeList (fst q)) = set (FreeList (fst p)) - {x} \<and>
      set (objs (fst q)) = set (objs (fst p)) \<and> pool_ok q"
    if "pool_alloc p = Some (x, q)"
  proof -
    from that obtain xs where fl: "FreeList (fst p) = x # xs"
      and q: "q = (take_first (fst p), on_alloc (Config (fst p)) x (snd p))"
      by (auto simp: pool_alloc_eq [OF p] split: list.splits)
    have "distinct (FreeList (fst p))" using p by (simp add: pool_ok_def pool_inv_def)
    with fl q p pool_inv_take_first [OF _ fl] show ?thesis by (auto simp: pool_ok_def)
  qed
  show "set (FreeList (fst (pool_release x p))) = insert x (set (FreeList (fst p))) \<and>
      set (objs (fst (pool_release x p))) = set (objs (fst p)) \<and> pool_ok (pool_release x p)"
    if "x \<in> set (objs (fst p)) - set (FreeList (fst p))"
    using that p pool_inv_put_back [of "fst p" x]
    by (auto simp: pool_release_eq pool_ok_def)
qed

section \<open>Properties\<close>

text \<open>Consecutive allocations, by ObjectAlloc itself.\<close>

fun allocations ::
  "nat \<Rightarrow> 's ObjectAllocContext \<Rightarrow> 's \<Rightarrow> (ptr list \<times> 's ObjectAllocContext \<times> 's) option" where
  "allocations 0 C s = Some ([], C, s)"
| "allocations (Suc n) C s =
     (case (ObjectAlloc C s :: (unit, _) outcome) of
        Done (_, Some x, C1, s1) \<Rightarrow>
          (case allocations n C1 s1 of None \<Rightarrow> None | Some (xs, C2, s2) \<Rightarrow> Some (x # xs, C2, s2))
      | _ \<Rightarrow> None)"

lemma allocations_op: "allocations n C s = op.alloc_many n (C, s)"
  by (induction n arbitrary: C s)
    (auto simp: pool_alloc_def split: outcome.splits option.splits prod.splits)


definition example_config :: "ptr list ObjectAllocConfig" where
  "example_config = \<lparr>ObjectSize = 3000, ObjectAlignment = 8, ObjectCount = 2, cfg_Signature = 7,
     OnCreate = Some (\<lambda>x s. (EFI_SUCCESS, x # s)), OnAlloc = None, OnFree = None,
     OnDestroy = Some (\<lambda>x s. remove1 x s)\<rparr>"

definition example_pool :: "ptr list ObjectAllocContext" where
  "example_pool = \<lparr>Arena = 0x10000, ArenaSize = 8192, FreeList = [0x10000, 0x10BB8],
     Config = example_config,
     headers = (\<lambda>_. \<lparr>Signature = 7, Link = OnList\<rparr>)\<rparr>"

lemma example_pool_ok: "pool_inv example_pool" "OnAlloc_ok (Config example_pool)"
  by (simp_all add: pool_inv_def example_pool_def example_config_def objs_def osize_def ROUND_UP_def
      OnAlloc_ok_def)


text \<open>
  ObjectAllocCreate with memory available, a non-zero object count and an
  OnCreate that succeeds returns a well-formed pool: at least as many objects as
  asked for, all of them free, pairwise distinct and within the arena.
\<close>

lemma ObjectAllocCreate_establishes_pool:
  assumes "pool_available ms"
    and "sizeof_ObjectHeader \<le> ROUND_UP (ObjectSize cfg) (ObjectAlignment cfg)"
    and "unat (ROUND_UP (ObjectSize cfg) (ObjectAlignment cfg)) * unat (ObjectCount cfg) + 4096 \<le> 2 ^ 64"
    and "0 < ObjectCount cfg"
    and "pages_at ms (EFI_SIZE_TO_PAGES (ROUND_UP (ObjectSize cfg) (ObjectAlignment cfg) * ObjectCount cfg)) = Some a"
    and "OnCreate cfg = Some f" and "\<forall>x s. \<not> EFI_ERROR (fst (f x s))"
  shows "\<exists>C l' s'. ObjectAllocCreate ms uninit cfg l s = (EFI_SUCCESS, Some C, l', s') \<and>
    pool_inv C \<and> FreeList C = objs C \<and> unat (ObjectCount cfg) \<le> length (objs C) \<and>
    unat (osize C) * length (objs C) \<le> unat (ArenaSize C)"
  using create_pool [OF assms, of uninit l s] by blast

definition example_services :: mem_services where
  "example_services = \<lparr>pool_available = True, pages_at = (\<lambda>_. Some 0x10000)\<rparr>"

text \<open>
  C12: a pool that was created and whose objects are all free again is destroyed
  without a failed assertion, and the memory held is exactly what it was before
  the creation: the page count ObjectAllocDestroy recomputes from the enlarged
  object count is the one that was allocated.  If an object is still allocated,
  the assertion of ObjectAllocDestroy stops instead.
\<close>

theorem ObjectAllocCreate_Destroy_roundtrip:
  assumes "pool_available ms"
    and "sizeof_ObjectHeader \<le> ROUND_UP (ObjectSize cfg) (ObjectAlignment cfg)"
    and "unat (ROUND_UP (ObjectSize cfg) (ObjectAlignment cfg)) * unat (ObjectCount cfg) + 4096 \<le> 2 ^ 64"
    and "0 < ObjectCount cfg"
    and "pages_at ms (EFI_SIZE_TO_PAGES (ROUND_UP (ObjectSize cfg) (ObjectAlignment cfg) * ObjectCount cfg)) = Some a"
    and "OnCreate cfg = Some f" and "\<forall>x s. \<not> EFI_ERROR (fst (f x s))"
    and "OnDestroy cfg = Some d"
  shows "\<exists>C l' s'. ObjectAllocCreate ms uninit cfg l s = (EFI_SUCCESS, Some C, l', s') \<and>
    (ObjectAllocDestroy C l' s' :: ('j, mem_ledger \<times> 's) outcome) = Done (l, fold d (objs C) s') \<and>
    (\<forall>x t. (ObjectAllocDestroy (take_first C) l' t :: ('j, mem_ledger \<times> 's) outcome) = Crashed ASSERT_failed)"
proof -
  from create_pool [OF assms(1-7), of uninit l s] obtain C s' where
    C: "ObjectAllocCreate ms uninit cfg l s = (EFI_SUCCESS, Some C, \<lparr>pool_blocks = pool_blocks l + 1,
        page_runs = (a, EFI_SIZE_TO_PAGES (osize C * ObjectCount cfg)) # page_runs l\<rparr>, s')"
    and inv: "pool_inv C" "FreeList C = objs C" "Arena C = a" "OnDestroy (Config C) = Some d"
    and n: "unat (ObjectCount cfg) \<le> length (objs C)"
    and pages: "EFI_SIZE_TO_PAGES (osize C * ObjectCount (Config C)) = EFI_SIZE_TO_PAGES (osize C * ObjectCount cfg)"
    using assms(8) by auto
  have "objs C \<noteq> []" using n assms(4) by (auto simp: word_less_nat_alt)
  then obtain x xs where x: "FreeList C = x # xs" using inv(2) by (cases "objs C") auto
  have "distinct (objs C)" using inv(1) by (simp add: pool_inv_def)
  with x inv(2) have "set (FreeList (take_first C)) \<noteq> set (objs (take_first C))" by auto
  then have "(ObjectAllocDestroy (take_first C) l' t :: ('j, mem_ledger \<times> 's) outcome) = Crashed ASSERT_failed" for l' t
    using ObjectAllocDestroy_cases [OF pool_inv_take_first [OF inv(1) x], of d] inv(4) by simp
  with C inv show ?thesis
    by (simp add: ObjectAllocDestroy_cases pages FreePool_def FreePages_def)
qed

theorem ObjectAllocCreate_Destroy_roundtrip_witness:
  "\<exists>C l' s'. ObjectAllocCreate example_services 0 example_config \<lparr>pool_blocks = 0, page_runs = []\<rparr> [] =
      (EFI_SUCCESS, Some C, l', s') \<and>
    (ObjectAllocDestroy C l' s' :: (unit, _) outcome) = Done (\<lparr>pool_blocks = 0, page_runs = []\<rparr>, fold (\<lambda>x s. remove1 x s) (objs C) s') \<and>
    (\<forall>x t. (ObjectAllocDestroy (take_first C) l' t :: (unit, _) outcome) = Crashed ASSERT_failed)"
  by (rule ObjectAllocCreate_Destroy_roundtrip [where f = "\<lambda>x s. (EFI_SUCCESS, x # s)"])
    (simp_all add: example_services_def example_config_def ROUND_UP_def sizeof_ObjectHeader_def)

text \<open>
  C13: when ObjectAllocCreate fails, it destroys the objects it had created and
  gives back the arena and the pool block, so that the client's state and the
  memory held are as before the call; only the rejection of a too small object
  size keeps the pool block allocated.
\<close>

theorem ObjectAllocCreate_failure_rolls_back:
  assumes "create_undone cfg"
    and "ObjectAllocCreate ms uninit cfg l s = (Status, Result, l', s')" and "EFI_ERROR Status"
  shows "Result = None \<and> s' = s \<and>
    l' = (if pool_available ms \<and> ROUND_UP (ObjectSize cfg) (ObjectAlignment cfg) < sizeof_ObjectHeader
          then l\<lparr>pool_blocks := pool_blocks l + 1\<rparr> else l)"
proof -
  have u: "create_undone (cfg\<lparr>ObjectCount := c\<rparr>)" for c
    using assms(1) by (cases "OnCreate cfg"; cases "OnDestroy cfg") (auto simp: create_undone_def split: if_splits)
  show ?thesis
    using assms(2,3) create_loop_undo [OF u]
    unfolding ObjectAllocCreate_def
    by (auto simp: Let_def FreePool_def FreePages_def split: if_splits option.splits prod.splits)
qed

definition failing_config :: "ptr list ObjectAllocConfig" where
  "failing_config = example_config\<lparr>OnCreate :=
     Some (\<lambda>x s. if x = 0x10000 then (EFI_SUCCESS, x # s) else (EFI_OUT_OF_RESOURCES, s))\<rparr>"

theorem ObjectAllocCreate_failure_rolls_back_witness:
  "\<exists>Result l' s'. ObjectAllocCreate example_services 0 failing_config \<lparr>pool_blocks = 0, page_runs = []\<rparr> [] =
      (EFI_OUT_OF_RESOURCES, Result, l', s') \<and>
    Result = None \<and> s' = [] \<and> l' = \<lparr>pool_blocks = 0, page_runs = []\<rparr>"
proof -
  have u: "create_undone failing_config"
    by (simp add: create_undone_def failing_config_def example_config_def)
  obtain Status Result l' s' where c:
    "ObjectAllocCreate example_services 0 failing_config \<lparr>pool_blocks = 0, page_runs = []\<rparr> [] = (Status, Result, l', s')"
    by (metis prod.exhaust)
  moreover from c have e: "Status = EFI_OUT_OF_RESOURCES"
    by (simp add: ObjectAllocCreate_def example_services_def failing_config_def example_config_def
        ROUND_UP_def sizeof_ObjectHeader_def EFI_SIZE_TO_PAGES_def EFI_PAGES_TO_SIZE_def Let_def
        FreePool_def FreePages_def)
  moreover have "\<not> ROUND_UP (ObjectSize failing_config) (ObjectAlignment failing_config) < sizeof_ObjectHeader"
    by (simp add: failing_config_def example_config_def ROUND_UP_def sizeof_ObjectHeader_def)
  ultimately show ?thesis
    using ObjectAllocCreate_failure_rolls_back [OF u c] by simp
qed

end
