(* ===== verification/Contexts.thy ===== *)
theory Contexts
  imports Thunk Object_Alloc
begin

text \<open>
  The run contexts of Cpu.c: one CpuRunContext per call of emulated code, taken
  from the pool of its processor and linked from mTopContext through PrevContext.
  This theory has their allocation and release, entering and leaving, the removal
  of contexts that a long jump skipped (CpuCompressLeakedContexts), the detection
  of orphans (CpuDetectOrphanContexts) and the debug state of the test protocol.
\<close>

section \<open>State\<close>

text \<open>
  PrevUcContext points to a uc_context object that belongs to the context from
  OnCreate to OnDestroy; the field holds its contents, None being NULL.  Cpu is
  set by OnCreate and never NULL.
\<close>

record 'c CpuRunContext =
  PrevUcContext :: "'c option"
  ctx_Cpu :: cpu_id
  ProgramCounter :: u64
  LeakCookie :: u64
  Args :: args
  Ret :: u64
  Flags :: u64
  PrevContext :: "ptr option"
  ctx_ImageRecord :: "ptr option"

abbreviation CRC_HAVE_SAVED_UC_CONTEXT :: u64 where "CRC_HAVE_SAVED_UC_CONTEXT \<equiv> 1"

text \<open>What the pool callbacks work on: the contexts in memory, and whether an ASSERT of theirs failed.\<close>

type_synonym 'c ctx_heap = "(ptr \<Rightarrow> 'c CpuRunContext) \<times> bool"

record ('u, 'c) cpu_world = "('u, 'c) image_world" +
  contexts :: "ptr \<Rightarrow> 'c CpuRunContext"
  RunContextAlloc :: "cpu_id \<Rightarrow> 'c ctx_heap ObjectAllocContext"
  mTopContext :: "ptr option"

definition ctx_update ::
  "ptr \<Rightarrow> ('c CpuRunContext \<Rightarrow> 'c CpuRunContext) \<Rightarrow> ('u, 'c, 'z) cpu_world_scheme \<Rightarrow> ('u, 'c, 'z) cpu_world_scheme" where
  "ctx_update p f w = w\<lparr>contexts := (contexts w)(p := f (contexts w p))\<rparr>"

definition cpu_update ::
  "cpu_id \<Rightarrow> ('c CpuContext \<Rightarrow> 'c CpuContext) \<Rightarrow> ('u, 'c, 'z) machine_scheme \<Rightarrow> ('u, 'c, 'z) machine_scheme" where
  "cpu_update c f w = w\<lparr>cpus := (cpus w)(c := f (cpus w c))\<rparr>"

abbreviation Cpu_of :: "ptr \<Rightarrow> ('u, 'c, 'z) cpu_world_scheme \<Rightarrow> cpu_id" where
  "Cpu_of p w \<equiv> ctx_Cpu (contexts w p)"

section \<open>The pool callbacks\<close>

text \<open>
  uc\_context\_alloc is a parameter: the error code and, on success, the
  contents of the new object.
\<close>

definition CpuRunContextOnCreate ::
  "(ptr \<Rightarrow> uc_err \<times> 'c) \<Rightarrow> cpu_id \<Rightarrow> ptr \<Rightarrow> 'c ctx_heap \<Rightarrow> efi_status \<times> 'c ctx_heap" where
  "CpuRunContextOnCreate uc_context_alloc Cpu Object s =
     (let (h, a) = s;
          h1 = h(Object := (h Object)\<lparr>ctx_Cpu := Cpu\<rparr>);
          (UcErr, c) = uc_context_alloc Object
      in if UcErr \<noteq> UC_ERR_OK then (EFI_OUT_OF_RESOURCES, (h1, a))
         else (EFI_SUCCESS, (h1(Object := (h1 Object)\<lparr>PrevUcContext := Some c\<rparr>), a)))"

definition CpuRunContextOnDestroy :: "uc_err \<Rightarrow> ptr \<Rightarrow> 'c ctx_heap \<Rightarrow> 'c ctx_heap" where
  "CpuRunContextOnDestroy uc_context_free Object s =
     (let (h, a) = s
      in (h(Object := (h Object)\<lparr>PrevUcContext := None\<rparr>), a \<or> uc_context_free \<noteq> UC_ERR_OK))"

text \<open>SetMem clears every field from ProgramCounter on.\<close>

definition CpuRunContextOnAlloc :: "ptr \<Rightarrow> 'c ctx_heap \<Rightarrow> efi_status \<times> 'c ctx_heap" where
  "CpuRunContextOnAlloc Object s =
     (let (h, a) = s;
          h1 = h(Object := (h Object)\<lparr>ProgramCounter := 0, LeakCookie := 0, Args := (\<lambda>_. 0), Ret := 0, Flags := 0,
                 PrevContext := None, ctx_ImageRecord := None\<rparr>)
      in (EFI_SUCCESS, (h1, a \<or> PrevUcContext (h1 Object) = None)))"

section \<open>Allocation and release\<close>

definition CpuAllocContext ::
  "cpu_id \<Rightarrow> ('u, 'c, 'z) cpu_world_scheme \<Rightarrow> ('j, ptr option \<times> ('u, 'c, 'z) cpu_world_scheme) outcome" where
  "CpuAllocContext Cpu w =
     (case ObjectAlloc (RunContextAlloc w Cpu) (contexts w, False) of
        Done (Status, Object, pool, (h, failed)) \<Rightarrow>
          let w1 = ASSERT_w (\<not> failed) (w\<lparr>contexts := h, RunContextAlloc := (RunContextAlloc w)(Cpu := pool)\<rparr>)
          in if EFI_ERROR Status then Done (None, w1)
             else Done (Object, ASSERT_w (Object \<noteq> None) w1)
      | Jumped j \<Rightarrow> Jumped j
      | Crashed c \<Rightarrow> Crashed c)"

definition CpuFreeContext ::
  "ptr \<Rightarrow> ('u, 'c, 'z) cpu_world_scheme \<Rightarrow> ('j, ('u, 'c, 'z) cpu_world_scheme) outcome" where
  "CpuFreeContext Context w =
     (let w1 = ASSERT_w (Flags (contexts w Context) = 0) w;
          Cpu = Cpu_of Context w1
      in case ObjectFree (RunContextAlloc w1 Cpu) Context (contexts w1, False) of
           Done (pool, (h, failed)) \<Rightarrow>
             Done (w1\<lparr>contexts := h, RunContextAlloc := (RunContextAlloc w1)(Cpu := pool)\<rparr>)
         | Jumped j \<Rightarrow> Jumped j
         | Crashed c \<Rightarrow> Crashed c)"

section \<open>Entering and leaving\<close>

definition CpuEnterCritical :: "ptr \<Rightarrow> ('u, 'c, 'z) cpu_world_scheme \<Rightarrow> ('u, 'c, 'z) cpu_world_scheme" where
  "CpuEnterCritical Context w =
     (let w = hooks_update CriticalBegin w;
          w = ctx_update Context (\<lambda>x. x\<lparr>PrevContext := mTopContext w\<rparr>) w;
          w = w\<lparr>mTopContext := Some Context\<rparr>
      in cpu_update (Cpu_of Context w) (\<lambda>x. x\<lparr>Contexts := Contexts x + 1\<rparr>) w)"

text \<open>The C code reads PrevContext of mTopContext, which the assertion says is Context.\<close>

definition CpuLeaveCritical :: "ptr \<Rightarrow> ('u, 'c, 'z) cpu_world_scheme \<Rightarrow> ('j, ('u, 'c, 'z) cpu_world_scheme) outcome" where
  "CpuLeaveCritical Context w =
     (let w = hooks_update CriticalBegin w;
          w = ASSERT_w (mTopContext w = Some Context) w
      in case mTopContext w of
           None \<Rightarrow> Crashed NULL_dereference
         | Some p \<Rightarrow>
             let w = w\<lparr>mTopContext := PrevContext (contexts w p)\<rparr>;
                 w = cpu_update (Cpu_of Context w) (\<lambda>x. x\<lparr>Contexts := Contexts x - 1\<rparr>) w
             in Done (ASSERT_w (Contexts (cpus w (Cpu_of Context w)) \<ge> 0) w))"

definition CpuGetTopContext :: "('u, 'c, 'z) cpu_world_scheme \<Rightarrow> ptr option" where
  "CpuGetTopContext w = mTopContext w"

section \<open>Saving and restoring the engine\<close>

text \<open>uc\_context\_save into and uc\_context\_restore from PrevUcContext of a context.\<close>

definition save_uc_context ::
  "('u, 'c) env \<Rightarrow> ptr \<Rightarrow> ('u, 'c, 'z) cpu_world_scheme \<Rightarrow> ('u, 'c, 'z) cpu_world_scheme" where
  "save_uc_context E Context w =
     (let (UcErr, c) = uc_context_save (UC E) (UE w (Cpu_of Context w))
      in ASSERT_w (UcErr = UC_ERR_OK) (ctx_update Context (\<lambda>x. x\<lparr>PrevUcContext := Some c\<rparr>) w))"

definition restore_uc_context ::
  "('u, 'c) env \<Rightarrow> ptr \<Rightarrow> ('u, 'c, 'z) cpu_world_scheme \<Rightarrow> ('u, 'c, 'z) cpu_world_scheme" where
  "restore_uc_context E Context w =
     (case PrevUcContext (contexts w Context) of
        None \<Rightarrow> ASSERT_w False w
      | Some c \<Rightarrow>
          let Cpu = Cpu_of Context w;
              (UcErr, u) = uc_context_restore (UC E) (UE w Cpu) c
          in ASSERT_w (UcErr = UC_ERR_OK) (set_UE Cpu u w))"

section \<open>Leaked contexts\<close>

text \<open>
  The first while loop of CpuCompressLeakedContexts: from Context to ToContext,
  apply the saved engine state and count the contexts off.  None is a loop that
  does not end; running off the chain is a NULL dereference.
\<close>

definition compress_step ::
  "('u, 'c) env \<Rightarrow> ptr \<Rightarrow> ('u, 'c, 'z) cpu_world_scheme \<Rightarrow> ('u, 'c, 'z) cpu_world_scheme" where
  "compress_step E Context w =
     (let w1 = (if Flags (contexts w Context) AND CRC_HAVE_SAVED_UC_CONTEXT \<noteq> 0
                then ctx_update Context (\<lambda>x. x\<lparr>Flags := Flags x XOR CRC_HAVE_SAVED_UC_CONTEXT\<rparr>) (restore_uc_context E Context w)
                else w);
          Cpu = Cpu_of Context w1;
          w2 = cpu_update Cpu (\<lambda>x. x\<lparr>Contexts := Contexts x - 1\<rparr>) w1
      in ASSERT_w (Contexts (cpus w2 Cpu) \<ge> 0) w2)"

partial_function (option) compress_loop ::
  "('u, 'c) env \<Rightarrow> ptr option \<Rightarrow> ptr option \<Rightarrow> ('u, 'c, 'z) cpu_world_scheme \<Rightarrow>
   ('j, ('u, 'c, 'z) cpu_world_scheme) outcome option" where
  "compress_loop E Context ToContext w =
     (if Context = ToContext then Some (Done w)
      else case Context of
             None \<Rightarrow> Some (Crashed NULL_dereference)
           | Some p \<Rightarrow>
               let w1 = compress_step E p w
               in compress_loop E (PrevContext (contexts w1 p)) ToContext w1)"

text \<open>The second while loop, which releases them.\<close>

partial_function (option) free_loop ::
  "ptr option \<Rightarrow> ptr option \<Rightarrow> ('u, 'c, 'z) cpu_world_scheme \<Rightarrow>
   ('j, ('u, 'c, 'z) cpu_world_scheme) outcome option" where
  "free_loop FromContext ToContext w =
     (if FromContext = ToContext then Some (Done w)
      else case FromContext of
             None \<Rightarrow> Some (Crashed NULL_dereference)
           | Some p \<Rightarrow>
               let next = PrevContext (contexts w p)
               in case CpuFreeContext p w of
                    Done w1 \<Rightarrow> free_loop next ToContext w1
                  | Jumped j \<Rightarrow> Some (Jumped j)
                  | Crashed c \<Rightarrow> Some (Crashed c))"

definition CpuCompressLeakedContexts ::
  "('u, 'c) env \<Rightarrow> ptr \<Rightarrow> bool \<Rightarrow> ('u, 'c, 'z) cpu_world_scheme \<Rightarrow>
   ('j, ('u, 'c, 'z) cpu_world_scheme) outcome option" where
  "CpuCompressLeakedContexts E CurrentContext OnImageExit w =
     (let w = hooks_update CriticalBegin w;
          FromContext = mTopContext w;
          ToContext = (if OnImageExit then PrevContext (contexts w CurrentContext) else Some CurrentContext);
          w = w\<lparr>mTopContext := ToContext\<rparr>
      in case compress_loop E FromContext ToContext w of
           None \<Rightarrow> None
         | Some (Done w1) \<Rightarrow> free_loop FromContext ToContext (hooks_update CriticalEnd w1)
         | Some (Jumped j) \<Rightarrow> Some (Jumped j)
         | Some (Crashed c) \<Rightarrow> Some (Crashed c))"

definition NativeThunkCheckLeakedContexts ::
  "('u, 'c) env \<Rightarrow> ptr \<Rightarrow> ('u, 'c, 'z) cpu_world_scheme \<Rightarrow>
   ('j, ('u, 'c, 'z) cpu_world_scheme) outcome option" where
  "NativeThunkCheckLeakedContexts E Context w =
     (if CpuGetTopContext w \<noteq> Some Context then CpuCompressLeakedContexts E Context False w
      else Some (Done w))"

section \<open>Orphan contexts\<close>

text \<open>
  CpuDetectOrphanContexts: the stack grows downward, so an older context whose
  cookie is not above that of the new one belongs to a frame that is gone.
  CURRENT_FP is the frame pointer, a parameter.
\<close>

partial_function (option) orphan_loop ::
  "ptr \<Rightarrow> ptr option \<Rightarrow> ('u, 'c, 'z) cpu_world_scheme \<Rightarrow>
   (ptr option \<times> ('u, 'c, 'z) cpu_world_scheme) option" where
  "orphan_loop Context Orphan w =
     (case PrevContext (contexts w Context) of
        None \<Rightarrow> Some (Orphan, w)
      | Some q \<Rightarrow>
          if LeakCookie (contexts w Context) \<ge> LeakCookie (contexts w q) then
            let Cpu = Cpu_of Context w;
                Orphan1 = (if Orphan = None then PrevContext (contexts w Context) else Orphan);
                w1 = cpu_update Cpu (\<lambda>x. x\<lparr>Contexts := Contexts x - 1\<rparr>) w;
                w2 = ASSERT_w (Contexts (cpus w1 Cpu) \<ge> 0) w1;
                w3 = ctx_update Context (\<lambda>x. x\<lparr>PrevContext := PrevContext (contexts w2 q)\<rparr>) w2
            in orphan_loop Context Orphan1 w3
          else Some (Orphan, w))"

text \<open>The search for the last orphan, which is then cut off from the chain.\<close>

partial_function (option) last_orphan ::
  "ptr option \<Rightarrow> ptr \<Rightarrow> ('u, 'c, 'z) cpu_world_scheme \<Rightarrow> ('j, ptr) outcome option" where
  "last_orphan stop Iter w =
     (if PrevContext (contexts w Iter) = stop then Some (Done Iter)
      else case PrevContext (contexts w Iter) of
             None \<Rightarrow> Some (Crashed NULL_dereference)
           | Some q \<Rightarrow> last_orphan stop q w)"

definition CpuDetectOrphanContexts ::
  "u64 \<Rightarrow> ptr \<Rightarrow> ('u, 'c, 'z) cpu_world_scheme \<Rightarrow>
   ('j, ptr option \<times> ('u, 'c, 'z) cpu_world_scheme) outcome option" where
  "CpuDetectOrphanContexts CURRENT_FP Context w =
     (let w = ctx_update Context (\<lambda>x. x\<lparr>LeakCookie := CURRENT_FP\<rparr>) w
      in case orphan_loop Context None w of
           None \<Rightarrow> None
         | Some (None, w1) \<Rightarrow> Some (Done (None, w1))
         | Some (Some Orphan, w1) \<Rightarrow>
             (case last_orphan (PrevContext (contexts w1 Context)) Orphan w1 of
                None \<Rightarrow> None
              | Some (Done Iter) \<Rightarrow> Some (Done (Some Orphan, ctx_update Iter (\<lambda>x. x\<lparr>PrevContext := None\<rparr>) w1))
              | Some (Jumped j) \<Rightarrow> Some (Jumped j)
              | Some (Crashed c) \<Rightarrow> Some (Crashed c)))"

text \<open>CpuFreeOrphanContexts walks to the end of the cut-off list.\<close>

definition CpuFreeOrphanContexts ::
  "ptr option \<Rightarrow> ('u, 'c, 'z) cpu_world_scheme \<Rightarrow> ('j, ('u, 'c, 'z) cpu_world_scheme) outcome option" where
  "CpuFreeOrphanContexts Context w = free_loop Context None w"

section \<open>Debug state\<close>

text \<open>EMU_TEST_DEBUG_STATE of EmuTestProtocol.h and CpuGetDebugState of a DEBUG build.\<close>

record EMU_TEST_DEBUG_STATE =
  HostMachineType :: u16
  CallerMachineType :: u16
  ContextCount :: u64
  ExitPeriodMs :: u64
  X64ExitPeriodTicks :: u64
  X64ExitPeriodTbs :: u64
  X64ContextCount :: u64
  AArch64ExitPeriodTicks :: u64
  AArch64ExitPeriodTbs :: u64
  AArch64ContextCount :: u64

abbreviation UC_EMU_EXIT_PERIOD_MS :: u64 where "UC_EMU_EXIT_PERIOD_MS \<equiv> 10"

partial_function (option) count_contexts ::
  "(ptr \<Rightarrow> 'c CpuRunContext) \<Rightarrow> ptr option \<Rightarrow> u64 \<Rightarrow> u64 option" where
  "count_contexts h Context n =
     (case Context of None \<Rightarrow> Some n | Some p \<Rightarrow> count_contexts h (PrevContext (h p)) (n + 1))"

definition CpuGetDebugState ::
  "('u, 'c) env \<Rightarrow> ('u, 'c, 'z) cpu_world_scheme \<Rightarrow>
   (efi_status \<times> EMU_TEST_DEBUG_STATE \<times> ('u, 'c, 'z) cpu_world_scheme) option" where
  "CpuGetDebugState E w =
     (let d = \<lparr>HostMachineType = 0, CallerMachineType = 0, ContextCount = 0, ExitPeriodMs = 0,
                X64ExitPeriodTicks = 0, X64ExitPeriodTbs = 0, X64ContextCount = 0,
                AArch64ExitPeriodTicks = 0, AArch64ExitPeriodTbs = 0, AArch64ContextCount = 0\<rparr>;
          w = hooks_update CriticalBegin w;
          d = d\<lparr>HostMachineType := HOST_MACHINE_TYPE (host E)\<rparr>;
          d = d\<lparr>CallerMachineType := (case mTopContext w of
                   Some p \<Rightarrow> EmuMachineType (cpus w (Cpu_of p w))
                 | None \<Rightarrow> HostMachineType d)\<rparr>
      in case count_contexts (contexts w) (mTopContext w) 0 of
           None \<Rightarrow> None
         | Some n \<Rightarrow>
             let d = d\<lparr>ContextCount := n\<rparr>;
                 d = (if MAU_EMU_TIMEOUT_NONE (options E) then d
                      else
                        let d = d\<lparr>ExitPeriodMs := UC_EMU_EXIT_PERIOD_MS\<rparr>;
                            d = (if MAU_SUPPORTS_X64_BINS (options E)
                                 then d\<lparr>X64ExitPeriodTicks := ExitPeriodTicks (cpus w CpuX64),
                                        X64ExitPeriodTbs := ExitPeriodTbs (cpus w CpuX64)\<rparr> else d)
                        in if MAU_SUPPORTS_AARCH64_BINS (options E)
                           then d\<lparr>AArch64ExitPeriodTicks := ExitPeriodTicks (cpus w CpuAArch64),
                                  AArch64ExitPeriodTbs := ExitPeriodTbs (cpus w CpuAArch64)\<rparr> else d);
                 d = (if MAU_SUPPORTS_X64_BINS (options E)
                      then d\<lparr>X64ContextCount := of_int (Contexts (cpus w CpuX64))\<rparr> else d);
                 d = (if MAU_SUPPORTS_AARCH64_BINS (options E)
                      then d\<lparr>AArch64ContextCount := of_int (Contexts (cpus w CpuAArch64))\<rparr> else d)
             in Some (EFI_SUCCESS, d, hooks_update CriticalEnd w))"

section \<open>Frame lemmas\<close>

lemma ctx_update_simps [simp]:
  "contexts (ctx_update p f w) = (contexts w)(p := f (contexts w p))"
  "mem (ctx_update p f w) = mem w" "hooks (ctx_update p f w) = hooks w" "UE (ctx_update p f w) = UE w"
  "cpus (ctx_update p f w) = cpus w" "mImageList (ctx_update p f w) = mImageList w"
  "Records (ctx_update p f w) = Records w" "attr_calls (ctx_update p f w) = attr_calls w"
  "RunContextAlloc (ctx_update p f w) = RunContextAlloc w" "mTopContext (ctx_update p f w) = mTopContext w"
  by (simp_all add: ctx_update_def)

lemma cpu_update_simps [simp]:
  "cpus (cpu_update c f w) = (cpus w)(c := f (cpus w c))"
  "mem (cpu_update c f w) = mem w" "hooks (cpu_update c f w) = hooks w" "UE (cpu_update c f w) = UE w"
  by (simp_all add: cpu_update_def)

lemma cpu_update_image_simps [simp]:
  "mImageList (cpu_update c f w) = mImageList w" "Records (cpu_update c f w) = Records w"
  "attr_calls (cpu_update c f w) = attr_calls w"
  by (simp_all add: cpu_update_def)

lemma cpu_update_cpu_simps [simp]:
  "contexts (cpu_update c f w) = contexts w" "RunContextAlloc (cpu_update c f w) = RunContextAlloc w"
  "mTopContext (cpu_update c f w) = mTopContext w"
  by (simp_all add: cpu_update_def)

lemma set_UE_image_simps [simp]:
  "mImageList (set_UE c u w) = mImageList w" "Records (set_UE c u w) = Records w"
  "attr_calls (set_UE c u w) = attr_calls w"
  by (simp_all add: set_UE_def)

lemma set_UE_cpu_simps [simp]:
  "contexts (set_UE c u w) = contexts w" "RunContextAlloc (set_UE c u w) = RunContextAlloc w"
  "mTopContext (set_UE c u w) = mTopContext w"
  by (simp_all add: set_UE_def)

section \<open>The chain\<close>

text \<open>The contexts from a pointer along PrevContext to NULL, as a list.\<close>

fun chain :: "(ptr \<Rightarrow> 'c CpuRunContext) \<Rightarrow> ptr option \<Rightarrow> ptr list \<Rightarrow> bool" where
  "chain h t [] \<longleftrightarrow> t = None"
| "chain h t (p # ps) \<longleftrightarrow> t = Some p \<and> chain h (PrevContext (h p)) ps"

lemma chain_cong: "(\<And>p. p \<in> set L \<Longrightarrow> PrevContext (h' p) = PrevContext (h p)) \<Longrightarrow> chain h' t L = chain h t L"
  by (induction L arbitrary: t) auto

lemma chain_upd [simp]: "p \<notin> set L \<Longrightarrow> chain (h(p := x)) t L = chain h t L"
  by (rule chain_cong) auto

definition head :: "'a list \<Rightarrow> 'a option" where
  "head L = (case L of [] \<Rightarrow> None | p # _ \<Rightarrow> Some p)"

lemma head_simps [simp]: "head [] = None" "head (p # L) = Some p"
  by (simp_all add: head_def)

lemma chain_head: "chain h t L \<Longrightarrow> t = head L"
  by (cases L) auto

lemma chain_append: "chain h t (K @ L) \<Longrightarrow> chain h (head L) L"
  by (induction K arbitrary: t) (auto dest: chain_head)

lemma chain_unique: "chain h t L \<Longrightarrow> chain h t L' \<Longrightarrow> L = L'"
proof (induction L arbitrary: t L')
  case Nil
  then show ?case by (cases L') auto
next
  case (Cons p L)
  then show ?case by (cases L') auto
qed

section \<open>The invariant\<close>

text \<open>
  \<open>ctxs_ok X L w\<close>: L is the chain, X are contexts that are allocated but not
  (or no longer) on it, and nothing else is allocated; the contexts of a pool
  belong to its processor and own a uc_context; the count of each CpuContext is
  the number of its contexts on the chain.
\<close>

definition pools_ok :: "(cpu_id \<Rightarrow> 'c ctx_heap ObjectAllocContext) \<Rightarrow> (ptr \<Rightarrow> 'c CpuRunContext) \<Rightarrow> bool" where
  "pools_ok R h \<longleftrightarrow>
     (\<forall>c. pool_inv (R c) \<and> OnAlloc (Config (R c)) = Some CpuRunContextOnAlloc \<and> OnFree (Config (R c)) = None \<and>
        (\<forall>p \<in> set (objs (R c)). ctx_Cpu (h p) = c \<and> PrevUcContext (h p) \<noteq> None))"

definition allocated :: "(cpu_id \<Rightarrow> 'c ctx_heap ObjectAllocContext) \<Rightarrow> ptr set" where
  "allocated R = {p. \<exists>c. p \<in> set (objs (R c)) \<and> p \<notin> set (FreeList (R c))}"

definition ctxs_ok :: "ptr list \<Rightarrow> ptr list \<Rightarrow> ('u, 'c, 'z) cpu_world_scheme \<Rightarrow> bool" where
  "ctxs_ok X L w \<longleftrightarrow>
     chain (contexts w) (mTopContext w) L \<and> distinct (X @ L) \<and>
     pools_ok (RunContextAlloc w) (contexts w) \<and> allocated (RunContextAlloc w) = set (X @ L) \<and>
     (\<forall>p \<in> set L. Flags (contexts w p) \<in> {0, 1}) \<and>
     (\<forall>c. Contexts (cpus w c) = int (length (filter (\<lambda>p. Cpu_of p w = c) L)))"

lemma pools_okD:
  assumes "pools_ok R h"
  shows "pool_inv (R c)" "OnAlloc_ok (Config (R c))"
    "p \<in> set (objs (R c)) \<Longrightarrow> ctx_Cpu (h p) = c" "p \<in> set (objs (R c)) \<Longrightarrow> PrevUcContext (h p) \<noteq> None"
    "on_free (Config (R c)) p s = s"
    "on_alloc (Config (R c)) p s = snd (CpuRunContextOnAlloc p s)"
proof -
  from assms have "OnAlloc (Config (R c)) = Some CpuRunContextOnAlloc" by (simp add: pools_ok_def)
  moreover have "\<not> EFI_ERROR (fst (CpuRunContextOnAlloc x s))" for x and s :: "'a ctx_heap"
    by (simp add: CpuRunContextOnAlloc_def Let_def split: prod.split)
  ultimately show "OnAlloc_ok (Config (R c))"
    and "on_alloc (Config (R c)) p s = snd (CpuRunContextOnAlloc p s)"
    by (simp_all add: OnAlloc_ok_def on_alloc_def)
qed (use assms in \<open>auto simp: pools_ok_def on_free_def\<close>)

lemma pools_ok_upd:
  assumes "pools_ok R h" "ctx_Cpu x = ctx_Cpu (h p)" "PrevUcContext x = None \<Longrightarrow> PrevUcContext (h p) = None"
  shows "pools_ok R (h(p := x))"
  using assms unfolding pools_ok_def by (metis fun_upd_apply)

lemma allocated_pool:
  assumes "pools_ok R h" "p \<in> allocated R"
  shows "p \<in> set (objs (R (ctx_Cpu (h p))))" "p \<notin> set (FreeList (R (ctx_Cpu (h p))))"
  using assms by (auto simp: allocated_def pools_ok_def)

lemma pool_objs_disjoint:
  assumes "pools_ok R h" "p \<in> set (objs (R c))" "p \<in> set (objs (R d))"
  shows "c = d"
  using pools_okD(3) [OF assms(1)] assms(2,3) by blast

lemma allocated_take:
  assumes "pools_ok R h" "FreeList (R c) = p # rest"
  shows "allocated (R(c := take_first (R c))) = insert p (allocated R)" "p \<notin> allocated R"
    "p \<in> set (objs (R c))"
proof -
  have inv: "pool_inv (R c)" by (rule pools_okD [OF assms(1)])
  then have p: "p \<in> set (objs (R c))" "p \<notin> set rest" using assms(2) by (auto simp: pool_inv_def)
  then show "p \<in> set (objs (R c))" by simp
  have q: "p \<in> set (objs (R c')) \<Longrightarrow> c' = c" for c'
    using pool_objs_disjoint [OF assms(1) _ p(1)] .
  have "\<not> (p \<in> set (objs (R c')) \<and> p \<notin> set (FreeList (R c')))" for c'
    by (cases "c' = c") (auto simp: assms(2) dest: q)
  then show "p \<notin> allocated R" by (simp add: allocated_def)
  have o: "objs ((R(c := take_first (R c))) c') = objs (R c')" for c' by simp
  have f: "x \<in> set (FreeList ((R(c := take_first (R c))) c')) \<longleftrightarrow> x \<in> set (FreeList (R c'))" if "x \<noteq> p" for x c'
    using that assms(2) by auto
  have g: "p \<notin> set (FreeList ((R(c := take_first (R c))) c))"
    using p(2) assms(2) by simp
  have "x \<in> allocated (R(c := take_first (R c))) \<longleftrightarrow> x = p \<or> x \<in> allocated R" for x
  proof (cases "x = p")
    case True
    with p(1) g show ?thesis unfolding allocated_def o by blast
  next
    case False
    then show ?thesis unfolding allocated_def o by (simp only: mem_Collect_eq f [OF False] simp_thms)
  qed
  then show "allocated (R(c := take_first (R c))) = insert p (allocated R)" by blast
qed

lemma allocated_put:
  assumes "pools_ok R h" "p \<in> set (objs (R c))" "p \<notin> set (FreeList (R c))"
  shows "allocated (R(c := put_back p (R c))) = allocated R - {p}"
proof -
  have q: "p \<in> set (objs (R c')) \<Longrightarrow> c' = c" for c'
    using pool_objs_disjoint [OF assms(1) _ assms(2)] .
  have o: "objs ((R(c := put_back p (R c))) c') = objs (R c')" for c' by simp
  have f: "x \<in> set (FreeList ((R(c := put_back p (R c))) c')) \<longleftrightarrow> x \<in> set (FreeList (R c'))" if "x \<noteq> p" for x c'
    using that by auto
  have g: "p \<in> set (FreeList ((R(c := put_back p (R c))) c))" by simp
  have "x \<in> allocated (R(c := put_back p (R c))) \<longleftrightarrow> x \<noteq> p \<and> x \<in> allocated R" for x
  proof (cases "x = p")
    case True
    with q g show ?thesis unfolding allocated_def o by blast
  next
    case False
    then show ?thesis unfolding allocated_def o by (simp only: mem_Collect_eq f [OF False] simp_thms)
  qed
  then show ?thesis by blast
qed

lemma pools_ok_take:
  assumes "pools_ok R h" "FreeList (R c) = p # rest"
  shows "pools_ok (R(c := take_first (R c))) h"
  using assms pool_inv_take_first [OF pools_okD(1) [OF assms(1)] assms(2)]
  unfolding pools_ok_def by auto

lemma pools_ok_put:
  assumes "pools_ok R h" "p \<in> set (objs (R c))" "p \<notin> set (FreeList (R c))"
  shows "pools_ok (R(c := put_back p (R c))) h"
  using assms pool_inv_put_back [OF pools_okD(1) [OF assms(1)] assms(2,3)]
  unfolding pools_ok_def by auto

text \<open>Allocation, entry, leaving and release, as functions on the state.\<close>

definition alloc_state :: "cpu_id \<Rightarrow> ptr \<Rightarrow> ('u, 'c, 'z) cpu_world_scheme \<Rightarrow> ('u, 'c, 'z) cpu_world_scheme" where
  "alloc_state c p w = w\<lparr>contexts := (contexts w)(p := (contexts w p)\<lparr>ProgramCounter := 0, LeakCookie := 0,
       Args := (\<lambda>_. 0), Ret := 0, Flags := 0, PrevContext := None, ctx_ImageRecord := None\<rparr>),
     RunContextAlloc := (RunContextAlloc w)(c := take_first (RunContextAlloc w c))\<rparr>"

definition free_state :: "ptr \<Rightarrow> ('u, 'c, 'z) cpu_world_scheme \<Rightarrow> ('u, 'c, 'z) cpu_world_scheme" where
  "free_state p w = w\<lparr>RunContextAlloc := (RunContextAlloc w)(Cpu_of p w := put_back p (RunContextAlloc w (Cpu_of p w)))\<rparr>"

definition leave_state :: "ptr \<Rightarrow> ('u, 'c, 'z) cpu_world_scheme \<Rightarrow> ('u, 'c, 'z) cpu_world_scheme" where
  "leave_state p w = cpu_update (Cpu_of p w) (\<lambda>x. x\<lparr>Contexts := Contexts x - 1\<rparr>)
     ((hooks_update CriticalBegin w)\<lparr>mTopContext := PrevContext (contexts w p)\<rparr>)"

lemma free_state_simps [simp]:
  "contexts (free_state p w) = contexts w" "mem (free_state p w) = mem w" "hooks (free_state p w) = hooks w"
  "UE (free_state p w) = UE w" "cpus (free_state p w) = cpus w" "mImageList (free_state p w) = mImageList w"
  "Records (free_state p w) = Records w" "attr_calls (free_state p w) = attr_calls w"
  "mTopContext (free_state p w) = mTopContext w"
  by (simp_all add: free_state_def)

lemma alloc_state_simps [simp]:
  "q \<noteq> p \<Longrightarrow> contexts (alloc_state c p w) q = contexts w q"
  "mem (alloc_state c p w) = mem w" "hooks (alloc_state c p w) = hooks w"
  "UE (alloc_state c p w) = UE w" "cpus (alloc_state c p w) = cpus w" "mImageList (alloc_state c p w) = mImageList w"
  "Records (alloc_state c p w) = Records w" "attr_calls (alloc_state c p w) = attr_calls w"
  "mTopContext (alloc_state c p w) = mTopContext w" "Flags (contexts (alloc_state c p w) p) = 0"
  "Cpu_of q (alloc_state c p w) = Cpu_of q w" "PrevUcContext (contexts (alloc_state c p w) p) = PrevUcContext (contexts w p)"
  "ctx_ImageRecord (contexts (alloc_state c p w) p) = None"
  by (simp_all add: alloc_state_def)

lemma CpuAllocContext_empty:
  "FreeList (RunContextAlloc w c) = [] \<Longrightarrow> CpuAllocContext c w = Done (None, w)"
  by (simp add: CpuAllocContext_def ObjectAlloc_empty Let_def)

lemma CpuAllocContext_first:
  assumes "ctxs_ok X L w" "FreeList (RunContextAlloc w c) = p # rest"
  shows "CpuAllocContext c w = Done (Some p, alloc_state c p w)"
    "ctxs_ok (p # X) L (alloc_state c p w)" "Cpu_of p w = c"
proof -
  let ?R = "RunContextAlloc w"
  have P: "pools_ok ?R (contexts w)" and A: "allocated ?R = set (X @ L)"
    using assms(1) by (simp_all add: ctxs_ok_def)
  note T = allocated_take [OF P assms(2)]
  have u: "PrevUcContext (contexts w p) \<noteq> None" by (rule pools_okD(4) [OF P T(3)])
  show "Cpu_of p w = c" by (rule pools_okD(3) [OF P T(3)])
  show "CpuAllocContext c w = Done (Some p, alloc_state c p w)"
    using u unfolding CpuAllocContext_def
    by (simp add: ObjectAlloc_first [OF pools_okD(1,2) [OF P] assms(2)] pools_okD(6) [OF P]
        CpuRunContextOnAlloc_def alloc_state_def Let_def)
  have new: "p \<notin> set X" "p \<notin> set L" using T(2) A by auto
  have "pools_ok (?R(c := take_first (?R c))) (contexts (alloc_state c p w))"
    unfolding alloc_state_def
    by (simp, rule pools_ok_upd [OF pools_ok_take [OF P assms(2)]]) simp_all
  moreover have "chain (contexts (alloc_state c p w)) (mTopContext w) L"
    using assms(1) new by (simp add: alloc_state_def ctxs_ok_def)
  moreover have "RunContextAlloc (alloc_state c p w) = ?R(c := take_first (?R c))"
    by (simp add: alloc_state_def)
  moreover have "Flags (contexts (alloc_state c p w) q) \<in> {0, 1}" if "q \<in> set L" for q
    using that new assms(1) by (cases "q = p") (auto simp: ctxs_ok_def)
  ultimately show "ctxs_ok (p # X) L (alloc_state c p w)"
    using assms(1) new T(1) A by (auto simp: ctxs_ok_def)
qed

lemma CpuFreeContext_ok:
  assumes "ctxs_ok (X @ p # Y) L w" "Flags (contexts w p) = 0"
  shows "CpuFreeContext p w = Done (free_state p w)" "ctxs_ok (X @ Y) L (free_state p w)"
proof -
  let ?R = "RunContextAlloc w" and ?c = "Cpu_of p w"
  have P: "pools_ok ?R (contexts w)" and A: "allocated ?R = set (X @ p # Y @ L)"
    using assms(1) by (simp_all add: ctxs_ok_def)
  have p: "p \<in> set (objs (?R ?c))" "p \<notin> set (FreeList (?R ?c))"
    using allocated_pool [OF P, of p] A by auto
  show "CpuFreeContext p w = Done (free_state p w)"
    by (simp add: CpuFreeContext_def assms(2) ObjectFree_eq [OF pools_okD(1) [OF P] p] pools_okD(5) [OF P]
        free_state_def Let_def)
  have "allocated (RunContextAlloc (free_state p w)) = set ((X @ Y) @ L)"
    using assms(1) A by (auto simp: free_state_def allocated_put [OF P p] ctxs_ok_def)
  moreover have "pools_ok (RunContextAlloc (free_state p w)) (contexts w)"
    by (simp add: free_state_def pools_ok_put [OF P p])
  ultimately show "ctxs_ok (X @ Y) L (free_state p w)"
    using assms(1) by (simp add: ctxs_ok_def)
qed

lemma CpuEnterCritical_ok:
  assumes "ctxs_ok (p # X) L w" "Flags (contexts w p) = 0"
  shows "ctxs_ok X (p # L) (CpuEnterCritical p w)"
proof -
  have P: "pools_ok (RunContextAlloc w) (contexts w)" and new: "p \<notin> set L"
    using assms(1) by (simp_all add: ctxs_ok_def)
  have e: "contexts (CpuEnterCritical p w) = (contexts w)(p := (contexts w p)\<lparr>PrevContext := mTopContext w\<rparr>)"
    "mTopContext (CpuEnterCritical p w) = Some p" "RunContextAlloc (CpuEnterCritical p w) = RunContextAlloc w"
    "cpus (CpuEnterCritical p w) = (cpus w)(Cpu_of p w := (cpus w (Cpu_of p w))\<lparr>Contexts := Contexts (cpus w (Cpu_of p w)) + 1\<rparr>)"
    by (simp_all add: CpuEnterCritical_def Let_def)
  have "pools_ok (RunContextAlloc w) ((contexts w)(p := (contexts w p)\<lparr>PrevContext := mTopContext w\<rparr>))"
    by (rule pools_ok_upd [OF P]) simp_all
  moreover have "Flags (contexts (CpuEnterCritical p w) q) \<in> {0, 1}" if "q \<in> set (p # L)" for q
    using that assms by (auto simp: e ctxs_ok_def)
  moreover have "Cpu_of q (CpuEnterCritical p w) = Cpu_of q w" for q
    by (simp add: e)
  ultimately show ?thesis
    using assms(1) new by (auto simp: ctxs_ok_def e)
qed

lemma CpuLeaveCritical_ok:
  assumes "ctxs_ok X (p # L) w"
  shows "CpuLeaveCritical p w = Done (leave_state p w)" "ctxs_ok (p # X) L (leave_state p w)"
proof -
  have top: "mTopContext w = Some p" and n: "Contexts (cpus w (Cpu_of p w)) \<ge> 1"
    using assms by (auto simp: ctxs_ok_def)
  from n show "CpuLeaveCritical p w = Done (leave_state p w)"
    by (simp add: CpuLeaveCritical_def top leave_state_def Let_def)
  show "ctxs_ok (p # X) L (leave_state p w)"
    using assms by (auto simp: ctxs_ok_def leave_state_def)
qed

section \<open>Compressing the chain\<close>

definition compress_one ::
  "('u, 'c) env \<Rightarrow> ptr \<Rightarrow> ('u, 'c, 'z) cpu_world_scheme \<Rightarrow> ('u, 'c, 'z) cpu_world_scheme" where
  "compress_one E p w =
     cpu_update (Cpu_of p w) (\<lambda>x. x\<lparr>Contexts := Contexts x - 1\<rparr>)
       (if Flags (contexts w p) = 0 then w
        else ctx_update p (\<lambda>x. x\<lparr>Flags := 0\<rparr>)
          (set_UE (Cpu_of p w)
            (snd (uc_context_restore (UC E) (UE w (Cpu_of p w)) (the (PrevUcContext (contexts w p))))) w))"

lemma compress_one_simps [simp]:
  "contexts (compress_one E p w) = (contexts w)(p := (contexts w p)\<lparr>Flags := 0\<rparr>)"
  "mem (compress_one E p w) = mem w" "hooks (compress_one E p w) = hooks w"
  "mImageList (compress_one E p w) = mImageList w" "Records (compress_one E p w) = Records w"
  "attr_calls (compress_one E p w) = attr_calls w" "RunContextAlloc (compress_one E p w) = RunContextAlloc w"
  "mTopContext (compress_one E p w) = mTopContext w"
  "cpus (compress_one E p w) = (cpus w)(Cpu_of p w := (cpus w (Cpu_of p w))\<lparr>Contexts := Contexts (cpus w (Cpu_of p w)) - 1\<rparr>)"
proof -
  have "Flags x = 0 \<Longrightarrow> x\<lparr>Flags := 0\<rparr> = x" for x :: "'c CpuRunContext"
    by (cases x) simp
  then show "contexts (compress_one E p w) = (contexts w)(p := (contexts w p)\<lparr>Flags := 0\<rparr>)"
    by (auto simp: compress_one_def)
qed (simp_all add: compress_one_def)

lemma compress_step_one:
  assumes "uc_context_ok (UC E)" "Flags (contexts w p) \<in> {0, 1}" "PrevUcContext (contexts w p) \<noteq> None"
    and "Contexts (cpus w (Cpu_of p w)) \<ge> 1"
  shows "compress_step E p w = compress_one E p w"
proof (cases "Flags (contexts w p) = 0")
  case True
  with assms(4) show ?thesis
    by (simp add: compress_step_def compress_one_def Let_def)
next
  case False
  then have f: "Flags (contexts w p) = 1" using assms(2) by auto
  from assms(3) obtain c where c: "PrevUcContext (contexts w p) = Some c" by auto
  have "fst (uc_context_restore (UC E) (UE w (Cpu_of p w)) c) = UC_ERR_OK"
    using assms(1) by (simp add: uc_context_ok_def)
  then have r: "restore_uc_context E p w =
      set_UE (Cpu_of p w) (snd (uc_context_restore (UC E) (UE w (Cpu_of p w)) c)) w"
    by (simp add: restore_uc_context_def c Let_def case_prod_beta)
  have "ctx_update p (\<lambda>x. x\<lparr>Flags := Flags x XOR 1\<rparr>) v = ctx_update p (\<lambda>x. x\<lparr>Flags := 0\<rparr>) v"
    if "contexts v = contexts w" for v :: "('a, 'b, 'c) cpu_world_scheme"
    by (simp add: ctx_update_def f that)
  then show ?thesis
    using assms(4) by (simp add: compress_step_def compress_one_def f c r Let_def)
qed

definition count_on :: "ptr list \<Rightarrow> cpu_id \<Rightarrow> ('u, 'c, 'z) cpu_world_scheme \<Rightarrow> int" where
  "count_on L c w = int (length (filter (\<lambda>p. Cpu_of p w = c) L))"

lemma count_on_simps [simp]:
  "count_on [] c w = 0" "count_on (p # L) c w = (if Cpu_of p w = c then 1 else 0) + count_on L c w"
  "count_on (K @ L) c w = count_on K c w + count_on L c w"
  by (simp_all add: count_on_def)

lemma count_on_cong: "(\<And>p. Cpu_of p w' = Cpu_of p w) \<Longrightarrow> count_on L c w' = count_on L c w"
  by (simp add: count_on_def)

lemma count_on_pos: "0 \<le> count_on L c w"
  by (simp add: count_on_def)

lemma compress_loop_ok:
  fixes w :: "('u, 'c, 'z) cpu_world_scheme"
  assumes "uc_context_ok (UC E)"
    and "chain (contexts w) t (ls @ L)" "distinct (ls @ L)"
    and "\<forall>p \<in> set ls. Flags (contexts w p) \<in> {0, 1} \<and> PrevUcContext (contexts w p) \<noteq> None"
    and "\<forall>c. count_on ls c w \<le> Contexts (cpus w c)"
  shows "(compress_loop E t (head L) w :: ('j, ('u, 'c, 'z) cpu_world_scheme) outcome option) = Some (Done (fold (compress_one E) ls w))"
  using assms(2-)
proof (induction ls arbitrary: t w)
  case Nil
  then show ?case
    by (subst compress_loop.simps) (auto dest: chain_head)
next
  case (Cons p ls)
  have t: "t = Some p" "chain (contexts w) (PrevContext (contexts w p)) (ls @ L)"
    using Cons.prems(1) by auto
  have ne: "Some p \<noteq> head L"
    using Cons.prems(2) by (cases L) auto
  have "Contexts (cpus w (Cpu_of p w)) \<ge> 1"
    using Cons.prems(4) count_on_pos [of ls "Cpu_of p w" w] by (auto dest: spec [of _ "Cpu_of p w"])
  then have s: "compress_step E p w = compress_one E p w"
    using Cons.prems(3) by (intro compress_step_one [OF assms(1)]) auto
  let ?w = "compress_one E p w"
  have "(compress_loop E t (head L) w :: ('j, ('u, 'c, 'z) cpu_world_scheme) outcome option) = compress_loop E (PrevContext (contexts w p)) (head L) ?w"
    by (subst compress_loop.simps) (simp add: t(1) ne s Let_def)
  also have "\<dots> = Some (Done (fold (compress_one E) ls ?w))"
  proof (rule Cons.IH)
    show "chain (contexts ?w) (PrevContext (contexts w p)) (ls @ L)"
      using t(2) by (subst chain_cong [where h = "contexts w"]) auto
    show "distinct (ls @ L)" using Cons.prems(2) by simp
    show "\<forall>q \<in> set ls. Flags (contexts ?w q) \<in> {0, 1} \<and> PrevUcContext (contexts ?w q) \<noteq> None"
      using Cons.prems(3) by auto
    show "\<forall>c. count_on ls c ?w \<le> Contexts (cpus ?w c)"
    proof
      fix c
      have "count_on ls c ?w = count_on ls c w" by (rule count_on_cong) simp
      then show "count_on ls c ?w \<le> Contexts (cpus ?w c)"
        using Cons.prems(4) [rule_format, of c] by (auto split: if_splits)
    qed
  qed
  finally show ?case by simp
qed

text \<open>What the folded loop body does: the flags and counts, and the registers each engine ends with.\<close>

lemma compress_fold:
  shows "contexts (fold (compress_one E) ls w) q =
      (if q \<in> set ls then (contexts w q)\<lparr>Flags := 0\<rparr> else contexts w q)"
    and "mem (fold (compress_one E) ls w) = mem w" "hooks (fold (compress_one E) ls w) = hooks w"
    "mImageList (fold (compress_one E) ls w) = mImageList w" "Records (fold (compress_one E) ls w) = Records w"
    "attr_calls (fold (compress_one E) ls w) = attr_calls w"
    "RunContextAlloc (fold (compress_one E) ls w) = RunContextAlloc w"
    "mTopContext (fold (compress_one E) ls w) = mTopContext w"
    "cpus (fold (compress_one E) ls w) c = (cpus w c)\<lparr>Contexts := Contexts (cpus w c) - count_on ls c w\<rparr>"
proof -
  show "contexts (fold (compress_one E) ls w) q =
      (if q \<in> set ls then (contexts w q)\<lparr>Flags := 0\<rparr> else contexts w q)"
    by (induction ls arbitrary: w) auto
  show "cpus (fold (compress_one E) ls w) c = (cpus w c)\<lparr>Contexts := Contexts (cpus w c) - count_on ls c w\<rparr>"
  proof (induction ls arbitrary: w)
    case Nil
    show ?case by simp
  next
    case (Cons p ls)
    have "count_on ls c (compress_one E p w) = count_on ls c w" by (rule count_on_cong) simp
    with Cons.IH [of "compress_one E p w"] show ?case by simp
  qed
qed (induction ls arbitrary: w; simp)+

text \<open>
  The engine of a processor after the loop holds the registers saved by the
  oldest compressed context of that processor that had saved any.
\<close>

lemma compress_UE_keep:
  "\<forall>p \<in> set ls. Cpu_of p w = c \<longrightarrow> Flags (contexts w p) = 0 \<Longrightarrow> UE (fold (compress_one E) ls w) c = UE w c"
proof (induction ls arbitrary: w)
  case Nil
  show ?case by simp
next
  case (Cons p ls)
  have "UE (compress_one E p w) c = UE w c"
    using Cons.prems by (auto simp: compress_one_def)
  with Cons.IH [of "compress_one E p w"] Cons.prems show ?case by auto
qed

lemma compress_UE_last:
  assumes "ls = K @ p # M" "p \<notin> set K" "p \<notin> set M" "Cpu_of p w = c" "Flags (contexts w p) \<noteq> 0"
    and "\<forall>q \<in> set M. Cpu_of q w = c \<longrightarrow> Flags (contexts w q) = 0"
  shows "\<exists>u. UE (fold (compress_one E) ls w) c =
    snd (uc_context_restore (UC E) u (the (PrevUcContext (contexts w p))))"
proof -
  let ?v = "fold (compress_one E) K w"
  have "UE (fold (compress_one E) M (compress_one E p ?v)) c = UE (compress_one E p ?v) c"
    using assms by (intro compress_UE_keep) (auto simp: compress_fold(1))
  then show ?thesis
    using assms by (auto simp: compress_one_def compress_fold(1))
qed

lemma free_loop_ok:
  fixes w :: "('u, 'c, 'z) cpu_world_scheme"
  assumes "ctxs_ok (ls @ X) L w" "chain (contexts w) t (ls @ M)" "distinct (ls @ M)" "\<forall>p \<in> set ls. Flags (contexts w p) = 0"
  shows "(free_loop t (head M) w :: ('j, ('u, 'c, 'z) cpu_world_scheme) outcome option) = Some (Done (fold free_state ls w)) \<and> ctxs_ok X L (fold free_state ls w)"
  using assms
proof (induction ls arbitrary: t w)
  case Nil
  then show ?case by (subst free_loop.simps) (auto dest: chain_head)
next
  case (Cons p ls)
  have t: "t = Some p" "chain (contexts w) (PrevContext (contexts w p)) (ls @ M)"
    using Cons.prems(2) by auto
  have ne: "Some p \<noteq> head M"
    using Cons.prems(3) by (cases M) auto
  have F: "CpuFreeContext p w = Done (free_state p w)" "ctxs_ok (ls @ X) L (free_state p w)"
    using CpuFreeContext_ok [of "[]" p "ls @ X" L w] Cons.prems(1,4) by auto
  have "(free_loop t (head M) w :: ('j, ('u, 'c, 'z) cpu_world_scheme) outcome option) = free_loop (PrevContext (contexts w p)) (head M) (free_state p w)"
    by (subst free_loop.simps) (simp add: t(1) ne F(1) Let_def)
  with Cons.IH [OF F(2), of "PrevContext (contexts w p)"] t(2) Cons.prems(3,4) show ?case by simp
qed

lemma free_fold [simp]:
  "contexts (fold free_state ls w) = contexts w" "mem (fold free_state ls w) = mem w"
  "hooks (fold free_state ls w) = hooks w" "UE (fold free_state ls w) = UE w" "cpus (fold free_state ls w) = cpus w"
  "mImageList (fold free_state ls w) = mImageList w" "Records (fold free_state ls w) = Records w"
  "attr_calls (fold free_state ls w) = attr_calls w" "mTopContext (fold free_state ls w) = mTopContext w"
  by (induction ls arbitrary: w; simp)+

definition compress_state ::
  "('u, 'c) env \<Rightarrow> ptr list \<Rightarrow> ptr list \<Rightarrow> ('u, 'c, 'z) cpu_world_scheme \<Rightarrow> ('u, 'c, 'z) cpu_world_scheme" where
  "compress_state E ls L w = fold free_state ls (hooks_update CriticalEnd
     (fold (compress_one E) ls ((hooks_update CriticalBegin w)\<lparr>mTopContext := head L\<rparr>)))"

lemma compress_state_simps:
  "contexts (compress_state E ls L w) q = (if q \<in> set ls then (contexts w q)\<lparr>Flags := 0\<rparr> else contexts w q)"
  "mem (compress_state E ls L w) = mem w" "quiet (hooks w) \<Longrightarrow> hooks (compress_state E ls L w) = hooks w"
  "mImageList (compress_state E ls L w) = mImageList w" "Records (compress_state E ls L w) = Records w"
  "attr_calls (compress_state E ls L w) = attr_calls w"
  "mTopContext (compress_state E ls L w) = head L"
  "cpus (compress_state E ls L w) c = (cpus w c)\<lparr>Contexts := Contexts (cpus w c) - count_on ls c w\<rparr>"
  by (simp_all add: compress_state_def compress_fold) (simp add: count_on_def)

lemma CpuCompressLeakedContexts_ok:
  fixes w :: "('u, 'c, 'z) cpu_world_scheme"
  assumes U: "uc_context_ok (UC E)" and C: "ctxs_ok X (ls @ L) w"
    and to: "(if OnImageExit then PrevContext (contexts w p) else Some p) = head L"
  shows "(CpuCompressLeakedContexts E p OnImageExit w :: ('j, ('u, 'c, 'z) cpu_world_scheme) outcome option) =
      Some (Done (compress_state E ls L w))"
    and "ctxs_ok X L (compress_state E ls L w)"
proof -
  let ?w = "(hooks_update CriticalBegin w)\<lparr>mTopContext := head L\<rparr>"
  let ?v = "fold (compress_one E) ls ?w"
  have ch: "chain (contexts w) (mTopContext w) (ls @ L)" and d: "distinct (ls @ L)" "distinct (ls @ X @ L)"
    and P: "pools_ok (RunContextAlloc w) (contexts w)" and A: "allocated (RunContextAlloc w) = set (X @ ls @ L)"
    and fl: "\<forall>q \<in> set (ls @ L). Flags (contexts w q) \<in> {0, 1}"
    and cnt: "\<forall>c. Contexts (cpus w c) = count_on (ls @ L) c w"
    using C by (auto simp: ctxs_ok_def count_on_def)
  have uc: "\<forall>q \<in> set ls. PrevUcContext (contexts w q) \<noteq> None"
    using allocated_pool(1) [OF P] pools_okD(4) [OF P] A by auto
  have cw: "count_on K c ?w = count_on K c w" for K c by (rule count_on_cong) simp
  have loop: "(compress_loop E (mTopContext w) (head L) ?w :: ('j, ('u, 'c, 'z) cpu_world_scheme) outcome option) =
      Some (Done ?v)"
  proof (rule compress_loop_ok [OF U])
    show "chain (contexts ?w) (mTopContext w) (ls @ L)" "distinct (ls @ L)" using ch d by simp_all
    show "\<forall>p \<in> set ls. Flags (contexts ?w p) \<in> {0, 1} \<and> PrevUcContext (contexts ?w p) \<noteq> None"
      using fl uc by auto
    show "\<forall>c. count_on ls c ?w \<le> Contexts (cpus ?w c)"
      unfolding cw using cnt by (simp add: count_on_pos)
  qed
  let ?u = "hooks_update CriticalEnd ?v"
  have cv: "contexts ?v q = (if q \<in> set ls then (contexts w q)\<lparr>Flags := 0\<rparr> else contexts w q)" for q
    by (simp add: compress_fold)
  have cpu: "Cpu_of q ?u = Cpu_of q w" for q by (simp add: cv)
  have mid: "ctxs_ok (ls @ X) L ?u"
  proof -
    have "chain (contexts ?u) (head L) L"
      using chain_append [OF ch] by (subst chain_cong [where h = "contexts w"]) (auto simp: cv)
    moreover have "pools_ok (RunContextAlloc w) (contexts ?u)"
      using P unfolding pools_ok_def by (auto simp: cv)
    moreover have "Flags (contexts ?u q) \<in> {0, 1}" if "q \<in> set L" for q
      using fl that by (auto simp: cv)
    moreover have "Contexts (cpus ?u c) = count_on L c ?u" for c
    proof -
      have "count_on L c ?u = count_on L c w" by (rule count_on_cong) (rule cpu)
      then show ?thesis using cnt by (simp add: compress_fold cw)
    qed
    ultimately show ?thesis
      using d A by (simp add: ctxs_ok_def compress_fold count_on_def) auto
  qed
  have "chain (contexts ?u) (mTopContext w) (ls @ L)"
    using ch by (subst chain_cong [where h = "contexts w"]) (auto simp: cv)
  moreover have "\<forall>q \<in> set ls. Flags (contexts ?u q) = 0" by (simp add: cv)
  ultimately have free: "(free_loop (mTopContext w) (head L) ?u :: ('j, ('u, 'c, 'z) cpu_world_scheme) outcome option) =
      Some (Done (fold free_state ls ?u)) \<and> ctxs_ok X L (fold free_state ls ?u)"
    using mid d(1) by (intro free_loop_ok)
  show "(CpuCompressLeakedContexts E p OnImageExit w :: ('j, ('u, 'c, 'z) cpu_world_scheme) outcome option) =
      Some (Done (compress_state E ls L w))"
  proof -
    have to': "(if OnImageExit then PrevContext (contexts (hooks_update CriticalBegin w) p) else Some p) = head L"
      using to by (auto split: if_splits)
    show ?thesis
      unfolding CpuCompressLeakedContexts_def Let_def to' by (simp add: loop free compress_state_def)
  qed
  show "ctxs_ok X L (compress_state E ls L w)"
    using free by (simp add: compress_state_def)
qed

lemma NativeThunkCheckLeakedContexts_ok:
  fixes w :: "('u, 'c, 'z) cpu_world_scheme"
  assumes "uc_context_ok (UC E)" and C: "ctxs_ok X (ls @ p # L) w"
  shows "\<exists>w'. (NativeThunkCheckLeakedContexts E p w :: ('j, ('u, 'c, 'z) cpu_world_scheme) outcome option) = Some (Done w') \<and>
    ctxs_ok X (p # L) w' \<and> (quiet (hooks w) \<longrightarrow> hooks w' = hooks w) \<and> mem w' = mem w \<and> mImageList w' = mImageList w \<and>
    Records w' = Records w \<and> attr_calls w' = attr_calls w \<and>
    (\<forall>x. x \<notin> set ls \<longrightarrow> contexts w' x = contexts w x) \<and>
    (\<forall>c. cpus w' c = (cpus w c)\<lparr>Contexts := Contexts (cpus w c) - count_on ls c w\<rparr>) \<and>
    (ls = [] \<longrightarrow> w' = w)"
proof (cases "ls = []")
  case True
  with C have "mTopContext w = Some p" by (simp add: ctxs_ok_def)
  with True C show ?thesis
    by (intro exI [of _ w]) (simp add: NativeThunkCheckLeakedContexts_def CpuGetTopContext_def)
next
  case False
  with C have "mTopContext w \<noteq> Some p" by (cases ls) (auto simp: ctxs_ok_def)
  with CpuCompressLeakedContexts_ok [OF assms(1) C, of False p] False show ?thesis
    by (intro exI [of _ "compress_state E ls (p # L) w"])
      (simp add: NativeThunkCheckLeakedContexts_def CpuGetTopContext_def compress_state_simps)
qed

lemma compress_state_UE:
  assumes "uc_context_ok (UC E)" and "ls = K @ p # M" "distinct ls" "Flags (contexts w p) \<noteq> 0"
    and "\<forall>q \<in> set M. Cpu_of q w = Cpu_of p w \<longrightarrow> Flags (contexts w q) = 0"
    and "PrevUcContext (contexts w p) = Some (snd (uc_context_save (UC E) u))"
  shows "rd (UC E) (UE (compress_state E ls L w) (Cpu_of p w)) r = rd (UC E) u r"
proof -
  let ?w = "(hooks_update CriticalBegin w)\<lparr>mTopContext := head L\<rparr>"
  have "\<exists>u'. UE (fold (compress_one E) ls ?w) (Cpu_of p w) =
      snd (uc_context_restore (UC E) u' (the (PrevUcContext (contexts ?w p))))"
    using assms by (intro compress_UE_last [of ls K p M]) auto
  then show ?thesis
    using assms(1,6) by (auto simp: compress_state_def uc_context_ok_def)
qed

lemma compress_state_UE_keep:
  "\<forall>p \<in> set ls. Cpu_of p w = c \<longrightarrow> Flags (contexts w p) = 0 \<Longrightarrow> UE (compress_state E ls L w) c = UE w c"
  unfolding compress_state_def by (simp add: compress_UE_keep)

section \<open>Orphans\<close>

definition orphan_state ::
  "ptr \<Rightarrow> ptr list \<Rightarrow> ptr list \<Rightarrow> ('u, 'c, 'z) cpu_world_scheme \<Rightarrow> ('u, 'c, 'z) cpu_world_scheme" where
  "orphan_state p os L w =
     ctx_update p (\<lambda>x. x\<lparr>PrevContext := head L\<rparr>)
       (cpu_update (Cpu_of p w) (\<lambda>x. x\<lparr>Contexts := Contexts x - int (length os)\<rparr>) w)"

lemma orphan_loop_ok:
  fixes w :: "('u, 'c, 'z) cpu_world_scheme"
  assumes "chain (contexts w) (PrevContext (contexts w p)) (os @ L)" "p \<notin> set (os @ L)" "distinct (os @ L)"
    and "\<forall>q \<in> set os. LeakCookie (contexts w q) \<le> LeakCookie (contexts w p)"
    and "case L of [] \<Rightarrow> True | q # _ \<Rightarrow> LeakCookie (contexts w p) < LeakCookie (contexts w q)"
    and "int (length os) \<le> Contexts (cpus w (Cpu_of p w))"
  shows "orphan_loop p Orphan w = Some (if Orphan = None then head os else Orphan, orphan_state p os L w)"
  using assms
proof (induction os arbitrary: Orphan w)
  case Nil
  then have h: "PrevContext (contexts w p) = head L"
    by (auto dest: chain_head)
  then have "ctx_update p (\<lambda>x. x\<lparr>PrevContext := head L\<rparr>) w = w"
  proof -
    have "(contexts w p)\<lparr>PrevContext := head L\<rparr> = contexts w p" using h by (cases "contexts w p") simp
    then show ?thesis by (simp add: ctx_update_def)
  qed
  then have "orphan_state p [] L w = w"
    by (simp add: orphan_state_def cpu_update_def)
  with h Nil.prems(5) show ?case
    by (subst orphan_loop.simps) (auto split: list.splits)
next
  case (Cons q os)
  have q: "PrevContext (contexts w p) = Some q" "chain (contexts w) (PrevContext (contexts w q)) (os @ L)"
    using Cons.prems(1) by auto
  have ne: "q \<noteq> p" using Cons.prems(2) by auto
  let ?w = "ctx_update p (\<lambda>x. x\<lparr>PrevContext := PrevContext (contexts w q)\<rparr>)
      (cpu_update (Cpu_of p w) (\<lambda>x. x\<lparr>Contexts := Contexts x - 1\<rparr>) w)"
  have "orphan_loop p Orphan w = orphan_loop p (if Orphan = None then Some q else Orphan) ?w"
    using Cons.prems(4,6) by (subst orphan_loop.simps) (simp add: q(1) Let_def)
  also have "\<dots> = Some (if Orphan = None then Some q else Orphan, orphan_state p os L ?w)"
  proof (subst Cons.IH)
    show "chain (contexts ?w) (PrevContext (contexts ?w p)) (os @ L)"
      using q(2) Cons.prems(2) by simp
    show "p \<notin> set (os @ L)" "distinct (os @ L)" using Cons.prems(2,3) by auto
    show "\<forall>q \<in> set os. LeakCookie (contexts ?w q) \<le> LeakCookie (contexts ?w p)"
      using Cons.prems(4) by simp
    show "case L of [] \<Rightarrow> True | q # _ \<Rightarrow> LeakCookie (contexts ?w p) < LeakCookie (contexts ?w q)"
      using Cons.prems(5,2) by (auto split: list.splits)
    show "int (length os) \<le> Contexts (cpus ?w (Cpu_of p ?w))"
      using Cons.prems(6) by simp
  qed simp
  also have "orphan_state p os L ?w = orphan_state p (q # os) L w"
    by (simp add: orphan_state_def ctx_update_def cpu_update_def algebra_simps)
  finally show ?case by simp
qed

lemma last_orphan_ok:
  assumes "chain h (head os) (os @ L)" "os \<noteq> []" "distinct (os @ L)" "contexts w = h"
  shows "last_orphan (head L) (hd os) w = Some (Done (last os))"
  using assms
proof (induction os)
  case Nil
  then show ?case by simp
next
  case (Cons q os)
  show ?case
  proof (cases os)
    case Nil
    with Cons.prems have "PrevContext (contexts w q) = head L" by (auto dest: chain_head)
    with Nil show ?thesis by (subst last_orphan.simps) simp
  next
    case (Cons r rs)
    with Cons.prems have p: "PrevContext (contexts w q) = Some r" "chain h (head os) (os @ L)" "distinct (os @ L)"
      by auto
    have "Some r \<noteq> head L" using p(3) Cons by (cases L) auto
    with p Cons.IH Cons.prems(4) Cons show ?thesis
      by (subst last_orphan.simps) simp
  qed
qed

lemma chain_cut:
  assumes "chain h (head os) (os @ L)" "os \<noteq> []" "distinct os" "h' = h(last os := (h (last os))\<lparr>PrevContext := None\<rparr>)"
  shows "chain h' (head os) os"
  using assms
proof (induction os)
  case Nil
  then show ?case by simp
next
  case (Cons q os)
  show ?case
  proof (cases os)
    case Nil
    with Cons.prems show ?thesis by simp
  next
    case (Cons r rs)
    then have "q \<noteq> last os" using Cons.prems(3) by auto
    with Cons Cons.IH Cons.prems show ?thesis by auto
  qed
qed

lemma chain_suffix: "chain h t (K @ p # L) \<Longrightarrow> chain h (PrevContext (h p)) L"
  by (induction K arbitrary: t) auto

lemma CpuDetectOrphanContexts_state:
  fixes w :: "('u, 'c, 'z) cpu_world_scheme"
  assumes C: "ctxs_ok X (p # os @ L) w"
    and old: "\<forall>q \<in> set os. LeakCookie (contexts w q) \<le> fp"
    and live: "case L of [] \<Rightarrow> True | q # _ \<Rightarrow> fp < LeakCookie (contexts w q)"
    and cnt: "int (length os) \<le> Contexts (cpus w (Cpu_of p w))"
  defines v: "v \<equiv> orphan_state p os L (ctx_update p (\<lambda>x. x\<lparr>LeakCookie := fp\<rparr>) w)"
  shows "(CpuDetectOrphanContexts fp p w :: ('j, ptr option \<times> ('u, 'c, 'z) cpu_world_scheme) outcome option) =
    Some (Done (head os, if os = [] then v else ctx_update (last os) (\<lambda>x. x\<lparr>PrevContext := None\<rparr>) v))"
proof -
  let ?w = "ctx_update p (\<lambda>x. x\<lparr>LeakCookie := fp\<rparr>) w"
  have ch: "chain (contexts w) (PrevContext (contexts w p)) (os @ L)" and d: "distinct (p # os @ L)"
    using C by (auto simp: ctxs_ok_def)
  have loop: "orphan_loop p None ?w = Some (head os, v)"
    unfolding v
  proof (subst orphan_loop_ok [where L = L and os = os])
    show "chain (contexts ?w) (PrevContext (contexts ?w p)) (os @ L)" using ch d by simp
    show "case L of [] \<Rightarrow> True | q # _ \<Rightarrow> LeakCookie (contexts ?w p) < LeakCookie (contexts ?w q)"
      using live d by (auto split: list.splits)
    show "\<forall>q \<in> set os. LeakCookie (contexts ?w q) \<le> LeakCookie (contexts ?w p)" using old by simp
  qed (use d cnt in auto)
  show ?thesis
  proof (cases "os = []")
    case True
    with loop show ?thesis by (simp add: CpuDetectOrphanContexts_def Let_def)
  next
    case False
    then have h: "head os = Some (hd os)" by (cases os) auto
    have "PrevContext (contexts v p) = head L" by (simp add: v orphan_state_def)
    moreover have "(last_orphan (head L) (hd os) v :: ('j, ptr) outcome option) = Some (Done (last os))"
    proof (rule last_orphan_ok)
      have "chain (contexts w) (head os) (os @ L)"
        using ch chain_head [OF ch] False by (cases os) auto
      then show "chain (contexts v) (head os) (os @ L)"
        using d by (subst chain_cong [where h = "contexts w"]) (auto simp: v orphan_state_def)
    qed (use False d in auto)
    ultimately show ?thesis
      using loop False by (simp add: CpuDetectOrphanContexts_def h Let_def)
  qed
qed

text \<open>Orphans of the processor of the new context: the invariant is kept, and the orphans are a list of their own.\<close>

lemma CpuDetectOrphanContexts_ok:
  fixes w :: "('u, 'c, 'z) cpu_world_scheme"
  assumes C: "ctxs_ok X (p # os @ L) w"
    and old: "\<forall>q \<in> set os. LeakCookie (contexts w q) \<le> fp"
    and live: "case L of [] \<Rightarrow> True | q # _ \<Rightarrow> fp < LeakCookie (contexts w q)"
    and same: "\<forall>q \<in> set os. Cpu_of q w = Cpu_of p w"
  shows "\<exists>w'. (CpuDetectOrphanContexts fp p w :: ('j, ptr option \<times> ('u, 'c, 'z) cpu_world_scheme) outcome option) =
      Some (Done (head os, w')) \<and>
    ctxs_ok (os @ X) (p # L) w' \<and> chain (contexts w') (head os) os \<and> LeakCookie (contexts w' p) = fp \<and>
    (\<forall>q. q \<noteq> p \<and> q \<notin> set os \<longrightarrow> contexts w' q = contexts w q) \<and>
    (\<forall>q. Flags (contexts w' q) = Flags (contexts w q)) \<and> hooks w' = hooks w \<and> mem w' = mem w \<and> UE w' = UE w"
proof -
  define v where "v = orphan_state p os L (ctx_update p (\<lambda>x. x\<lparr>LeakCookie := fp\<rparr>) w)"
  define w' where "w' = (if os = [] then v else ctx_update (last os) (\<lambda>x. x\<lparr>PrevContext := None\<rparr>) v)"
  have ch: "chain (contexts w) (PrevContext (contexts w p)) (os @ L)" and d: "distinct (p # os @ L)" "distinct (X @ p # os @ L)"
    and P: "pools_ok (RunContextAlloc w) (contexts w)" and A: "allocated (RunContextAlloc w) = set (X @ p # os @ L)"
    and cnt: "\<forall>c. Contexts (cpus w c) = count_on (p # os @ L) c w"
    and fl: "\<forall>q \<in> set (p # os @ L). Flags (contexts w q) \<in> {0, 1}"
    using C by (auto simp: ctxs_ok_def count_on_def)
  have osn: "count_on os c w = (if c = Cpu_of p w then int (length os) else 0)" for c
    using same by (induction os) auto
  have le: "int (length os) \<le> Contexts (cpus w (Cpu_of p w))"
    using cnt osn [of "Cpu_of p w"] count_on_pos [of L "Cpu_of p w" w] by simp
  have run: "(CpuDetectOrphanContexts fp p w :: ('j, ptr option \<times> ('u, 'c, 'z) cpu_world_scheme) outcome option) =
      Some (Done (head os, w'))"
    unfolding CpuDetectOrphanContexts_state [OF C old live le] w'_def v_def ..
  have hv: "contexts v = (contexts w)(p := (contexts w p)\<lparr>LeakCookie := fp, PrevContext := head L\<rparr>)"
    by (simp add: v_def orphan_state_def)
  have hw: "contexts w' = (if os = [] then contexts v
      else (contexts v)(last os := (contexts v (last os))\<lparr>PrevContext := None\<rparr>))"
    by (simp add: w'_def)
  have rest: "RunContextAlloc w' = RunContextAlloc w" "mTopContext w' = mTopContext w" "hooks w' = hooks w"
    "mem w' = mem w" "UE w' = UE w"
    "cpus w' = (cpus w)(Cpu_of p w := (cpus w (Cpu_of p w))\<lparr>Contexts := Contexts (cpus w (Cpu_of p w)) - int (length os)\<rparr>)"
    by (simp_all add: w'_def v_def orphan_state_def)
  have lst: "os \<noteq> [] \<Longrightarrow> last os \<in> set os" by simp
  have eq: "ctx_Cpu (contexts w' q) = Cpu_of q w" "PrevUcContext (contexts w' q) = PrevUcContext (contexts w q)"
    "Flags (contexts w' q) = Flags (contexts w q)" for q
    by (auto simp: hw hv)
  have other: "contexts w' q = contexts w q" if "q \<noteq> p" "q \<notin> set os" for q
    using that lst by (auto simp: hw hv)
  have top: "mTopContext w = Some p" using C by (simp add: ctxs_ok_def)
  have pv: "PrevContext (contexts w' p) = head L"
    using d(1) lst by (auto simp: hw hv)
  have ctx: "ctxs_ok (os @ X) (p # L) w'"
  proof -
    have "contexts w' q = contexts w q" if "q \<in> set L" for q
      using that d(1) by (intro other) auto
    then have "chain (contexts w') (head L) L"
      using chain_append [OF ch] by (subst chain_cong [where h = "contexts w"]) auto
    moreover have "pools_ok (RunContextAlloc w) (contexts w')"
      using P unfolding pools_ok_def eq .
    moreover have "Contexts (cpus w' c) = count_on (p # L) c w'" for c
    proof -
      have "count_on (p # L) c w' = count_on (p # L) c w" by (rule count_on_cong) (rule eq)
      then show ?thesis using cnt [rule_format, of c] osn [of c] by (auto simp: rest)
    qed
    ultimately show ?thesis
      using d A fl top pv by (simp add: ctxs_ok_def rest eq count_on_def) auto
  qed
  have "chain (contexts w') (head os) os"
  proof (cases "os = []")
    case False
    have "chain (contexts w) (head os) (os @ L)"
      using ch chain_head [OF ch] False by (cases os) auto
    then have "chain (contexts v) (head os) (os @ L)"
      using d by (subst chain_cong [where h = "contexts w"]) (auto simp: hv)
    from chain_cut [OF this False] d(1) False show ?thesis by (simp add: hw)
  qed simp
  moreover have "LeakCookie (contexts w' p) = fp"
    using d(1) lst by (auto simp: hw hv)
  ultimately show ?thesis
    using run ctx other rest by (intro exI [of _ w']) (simp add: eq)
qed

end
