(* ===== verification/Context_Stack.thy ===== *)
theory Context_Stack
  imports Contexts
begin

text \<open>
  The run contexts as a stack: the locale \<open>context_stack\<close> states what the
  callers of CpuEnterCritical, CpuLeaveCritical and NativeThunkCheckLeakedContexts
  rely on, and the properties of compressing leaked contexts, of orphans and of
  the debug state follow.
\<close>

section \<open>The interface: a stack of contexts\<close>

locale context_stack =
  fixes rep :: "'s \<Rightarrow> 'p list \<Rightarrow> bool" and fresh :: "'p \<Rightarrow> 's \<Rightarrow> bool"
    and enter :: "'p \<Rightarrow> 's \<Rightarrow> 's" and leave :: "'p \<Rightarrow> 's \<Rightarrow> 's" and unwind :: "'p \<Rightarrow> 's \<Rightarrow> 's"
  assumes rep_enter: "rep s L \<Longrightarrow> fresh p s \<Longrightarrow> rep (enter p s) (p # L)"
    and rep_leave: "rep s (p # L) \<Longrightarrow> rep (leave p s) L"
    and rep_unwind: "rep s (K @ p # L) \<Longrightarrow> rep (unwind p s) (p # L)"
begin

text \<open>A call whose body leaves any number of contexts behind restores the stack.\<close>

lemma call_balanced:
  assumes "rep s L" "fresh p s" "rep (body (enter p s)) (K @ p # L)"
  shows "rep (leave p (unwind p (body (enter p s)))) L"
  by (rule rep_leave [OF rep_unwind [OF assms(3)]])

text \<open>Returning through several levels, each of which has leaked contexts above it.\<close>

fun return_through :: "'p list \<Rightarrow> 's \<Rightarrow> 's" where
  "return_through [] s = s"
| "return_through (p # ps) s = return_through ps (leave p (unwind p s))"

lemma return_through_all: "rep s (ps @ L) \<Longrightarrow> rep (return_through ps s) L"
  using rep_unwind [of _ "[]"] by (induction ps arbitrary: s) (auto simp: rep_leave)

end

definition on_stack :: "('u, 'c) env \<Rightarrow> ('u, 'c, 'z) cpu_world_scheme \<Rightarrow> ptr list \<Rightarrow> bool" where
  "on_stack E w L \<longleftrightarrow> uc_context_ok (UC E) \<and> (\<exists>X. ctxs_ok X L w)"

definition enterable :: "ptr \<Rightarrow> ('u, 'c, 'z) cpu_world_scheme \<Rightarrow> bool" where
  "enterable p w \<longleftrightarrow> (\<exists>X L. ctxs_ok (p # X) L w) \<and> Flags (contexts w p) = 0"

definition leave_context :: "ptr \<Rightarrow> ('u, 'c, 'z) cpu_world_scheme \<Rightarrow> ('u, 'c, 'z) cpu_world_scheme" where
  "leave_context p w = (case (CpuLeaveCritical p w :: (unit, _) outcome) of Done w' \<Rightarrow> w' | _ \<Rightarrow> w)"

definition unwind_to :: "('u, 'c) env \<Rightarrow> ptr \<Rightarrow> ('u, 'c, 'z) cpu_world_scheme \<Rightarrow> ('u, 'c, 'z) cpu_world_scheme" where
  "unwind_to E p w =
     (case (NativeThunkCheckLeakedContexts E p w :: (unit, _) outcome option) of Some (Done w') \<Rightarrow> w' | _ \<Rightarrow> w)"

lemma leave_context_eq: "ctxs_ok X (p # L) w \<Longrightarrow> leave_context p w = leave_state p w"
  by (simp add: leave_context_def CpuLeaveCritical_ok(1))

interpretation cs: context_stack "on_stack E :: ('u, 'c, 'z) cpu_world_scheme \<Rightarrow> ptr list \<Rightarrow> bool"
  enterable CpuEnterCritical leave_context "unwind_to E"
proof
  fix w :: "('u, 'c, 'z) cpu_world_scheme" and p :: ptr and K L :: "ptr list"
  show "on_stack E (CpuEnterCritical p w) (p # L)" if r: "on_stack E w L" and f: "enterable p w"
  proof -
    from f obtain X L' where X: "ctxs_ok (p # X) L' w" "Flags (contexts w p) = 0" by (auto simp: enterable_def)
    with r have "L' = L" by (auto simp: on_stack_def ctxs_ok_def dest: chain_unique)
    with r CpuEnterCritical_ok [OF X] show ?thesis by (auto simp: on_stack_def)
  qed
  show "on_stack E (leave_context p w) L" if r: "on_stack E w (p # L)"
  proof -
    from r obtain X where X: "uc_context_ok (UC E)" "ctxs_ok X (p # L) w" by (auto simp: on_stack_def)
    from CpuLeaveCritical_ok(2) [OF X(2)] X show ?thesis
      unfolding on_stack_def leave_context_eq [OF X(2)] by blast
  qed
  show "on_stack E (unwind_to E p w) (p # L)" if r: "on_stack E w (K @ p # L)"
  proof -
    from r obtain X where X: "uc_context_ok (UC E)" "ctxs_ok X (K @ p # L) w" by (auto simp: on_stack_def)
    from NativeThunkCheckLeakedContexts_ok [OF this] obtain w' where
      "(NativeThunkCheckLeakedContexts E p w :: (unit, _) outcome option) = Some (Done w')" "ctxs_ok X (p # L) w'"
      by blast
    with X show ?thesis by (auto simp: on_stack_def unwind_to_def)
  qed
qed

section \<open>Properties\<close>

text \<open>
  C7: when NativeThunk gets control back and mTopContext is not its own context
  p (native code has long-jumped over the contexts K), the check removes exactly
  the contexts K: they are released, the counts of both processors are those of
  the remaining chain, the contexts still on the chain, the memory and the
  interrupt state are untouched, and the engine of the oldest skipped context
  that had saved its registers has these registers back.
\<close>

theorem NativeThunkCheckLeakedContexts_unwinds:
  fixes w :: "('u, 'c, 'z) cpu_world_scheme"
  assumes "uc_context_ok (UC E)" "ctxs_ok X (K @ p # L) w" "quiet (hooks w)"
  shows "\<exists>w'. (NativeThunkCheckLeakedContexts E p w :: ('j, ('u, 'c, 'z) cpu_world_scheme) outcome option) = Some (Done w') \<and>
    ctxs_ok X (p # L) w' \<and> hooks w' = hooks w \<and> mem w' = mem w \<and>
    (\<forall>q \<in> set (p # L). contexts w' q = contexts w q) \<and>
    (\<forall>A k B u r. K = A @ k # B \<and> Flags (contexts w k) \<noteq> 0 \<and>
       (\<forall>q \<in> set B. Cpu_of q w = Cpu_of k w \<longrightarrow> Flags (contexts w q) = 0) \<and>
       PrevUcContext (contexts w k) = Some (snd (uc_context_save (UC E) u)) \<longrightarrow>
       reg E (Cpu_of k w) r w' = rd (UC E) u r)"
proof (cases "K = []")
  case True
  with NativeThunkCheckLeakedContexts_ok [OF assms(1,2)] assms(3) show ?thesis by auto
next
  case False
  have d: "distinct K" "set K \<inter> set (p # L) = {}" using assms(2) by (auto simp: ctxs_ok_def)
  have "mTopContext w \<noteq> Some p" using False assms(2) by (cases K) (auto simp: ctxs_ok_def)
  with CpuCompressLeakedContexts_ok [OF assms(1,2), of False p] have
    "(NativeThunkCheckLeakedContexts E p w :: ('j, ('u, 'c, 'z) cpu_world_scheme) outcome option) =
      Some (Done (compress_state E K (p # L) w))" "ctxs_ok X (p # L) (compress_state E K (p # L) w)"
    by (simp_all add: NativeThunkCheckLeakedContexts_def CpuGetTopContext_def)
  moreover have "\<forall>q \<in> set (p # L). contexts (compress_state E K (p # L) w) q = contexts w q"
    using d(2) by (auto simp: compress_state_simps(1))
  moreover have "reg E (Cpu_of k w) r (compress_state E K (p # L) w) = rd (UC E) u r"
    if "K = A @ k # B" "Flags (contexts w k) \<noteq> 0" "\<forall>q \<in> set B. Cpu_of q w = Cpu_of k w \<longrightarrow> Flags (contexts w q) = 0"
      "PrevUcContext (contexts w k) = Some (snd (uc_context_save (UC E) u))" for A k B u r
    unfolding reg_def by (rule compress_state_UE [OF assms(1) that(1) d(1) that(2-4)])
  ultimately show ?thesis
    using assms(3) by (intro exI [of _ "compress_state E K (p # L) w"]) (auto simp: compress_state_simps)
qed

text \<open>
  A call of emulated code that enters with context p and during which any
  contexts K are left behind ends, after the check for leaked contexts and
  CpuLeaveCritical, with the chain it started with; and returning through all
  contexts of a chain, each of them checking first, empties it.
\<close>

definition return_through_contexts ::
  "('u, 'c) env \<Rightarrow> ptr list \<Rightarrow> ('u, 'c, 'z) cpu_world_scheme \<Rightarrow> ('u, 'c, 'z) cpu_world_scheme" where
  "return_through_contexts E ps w = fold (\<lambda>p w. leave_context p (unwind_to E p w)) ps w"

lemma return_through_contexts_locale: "return_through_contexts E ps w = cs.return_through E ps w"
  unfolding return_through_contexts_def by (induction ps arbitrary: w) simp_all

lemma call_with_leaks_restores_chain:
  fixes w v :: "('u, 'c, 'z) cpu_world_scheme"
  assumes "uc_context_ok (UC E)" "ctxs_ok (p # X) L w" "Flags (contexts w p) = 0"
    and "ctxs_ok Y (K @ p # L) v"
  shows "on_stack E (CpuEnterCritical p w) (p # L) \<and> on_stack E (leave_context p (unwind_to E p v)) L \<and>
    on_stack E (return_through_contexts E (K @ p # L) v) []"
proof -
  have s: "on_stack E w L" "enterable p w" "on_stack E v (K @ p # L)"
    using assms by (auto simp: on_stack_def enterable_def)
  have "on_stack E (cs.return_through E (K @ p # L) v) []"
    using cs.return_through_all [of E v "K @ p # L" "[]"] s(3) by simp
  with cs.rep_enter [OF s(1,2)] cs.rep_leave [OF cs.rep_unwind [OF s(3)]] show ?thesis
    by (simp add: return_through_contexts_locale)
qed


text \<open>
  The counts are wrong when an orphan belongs to the other processor: the loop
  takes every orphan off the count of the new context's processor, so that this
  count is too low by the orphans of the other one, whose count stays too high.
\<close>

lemma orphans_of_other_cpu_miscounted:
  fixes w :: "('u, 'c, 'z) cpu_world_scheme"
  assumes "ctxs_ok X (p # os @ L) w" "\<forall>q \<in> set os. LeakCookie (contexts w q) \<le> fp"
    and "case L of [] \<Rightarrow> True | q # _ \<Rightarrow> fp < LeakCookie (contexts w q)"
    and "int (length os) \<le> Contexts (cpus w (Cpu_of p w))"
  shows "\<exists>w'. (CpuDetectOrphanContexts fp p w :: ('j, ptr option \<times> ('u, 'c, 'z) cpu_world_scheme) outcome option) =
      Some (Done (head os, w')) \<and>
    (\<forall>c. Contexts (cpus w' c) = count_on (p # L) c w +
       (if c = Cpu_of p w then - count_on (filter (\<lambda>q. Cpu_of q w \<noteq> c) os) (if c = CpuX64 then CpuAArch64 else CpuX64) w
        else count_on os c w))"
proof -
  have cnt: "\<forall>c. Contexts (cpus w c) = count_on (p # os @ L) c w"
    using assms(1) by (auto simp: ctxs_ok_def count_on_def)
  define oc where "oc = (if Cpu_of p w = CpuX64 then CpuAArch64 else CpuX64)"
  have len: "int (length os) = count_on os (Cpu_of p w) w + count_on (filter (\<lambda>q. Cpu_of q w \<noteq> Cpu_of p w) os) oc w"
  proof (induction os)
    case Nil
    show ?case by simp
  next
    case (Cons q os)
    then show ?case
      by (cases "Cpu_of q w"; cases "Cpu_of p w") (auto simp: oc_def)
  qed
  let ?w = "if os = [] then orphan_state p os L (ctx_update p (\<lambda>x. x\<lparr>LeakCookie := fp\<rparr>) w)
    else ctx_update (last os) (\<lambda>x. x\<lparr>PrevContext := None\<rparr>)
      (orphan_state p os L (ctx_update p (\<lambda>x. x\<lparr>LeakCookie := fp\<rparr>) w))"
  have "Contexts (cpus ?w c) = Contexts (cpus w c) - (if c = Cpu_of p w then int (length os) else 0)" for c
    by (simp add: orphan_state_def)
  with cnt len have "Contexts (cpus ?w c) = count_on (p # L) c w +
       (if c = Cpu_of p w then - count_on (filter (\<lambda>q. Cpu_of q w \<noteq> c) os) (if c = CpuX64 then CpuAArch64 else CpuX64) w
        else count_on os c w)" for c
    by (auto simp: oc_def)
  with CpuDetectOrphanContexts_state [OF assms] show ?thesis by blast
qed

text \<open>
  Releasing a context that still has saved registers (an orphan that was
  nested) fails the assertion of CpuFreeContext, although CpuFreeOrphanContexts
  never applies or discards these registers first.
\<close>

lemma freeing_nested_orphan_asserts:
  fixes w :: "('u, 'c, 'z) cpu_world_scheme"
  assumes "ctxs_ok (p # X) L w" "Flags (contexts w p) = CRC_HAVE_SAVED_UC_CONTEXT" "PrevContext (contexts w p) = None"
  shows "\<exists>w'. (CpuFreeOrphanContexts (Some p) w :: ('j, ('u, 'c, 'z) cpu_world_scheme) outcome option) = Some (Done w') \<and>
    assert_failed (hooks w')"
proof -
  have P: "pools_ok (RunContextAlloc w) (contexts w)" and A: "allocated (RunContextAlloc w) = set (p # X @ L)"
    using assms(1) by (simp_all add: ctxs_ok_def)
  have p: "p \<in> set (objs (RunContextAlloc w (Cpu_of p w)))" "p \<notin> set (FreeList (RunContextAlloc w (Cpu_of p w)))"
    using allocated_pool [OF P, of p] A by auto
  have "(CpuFreeContext p w :: ('j, ('u, 'c, 'z) cpu_world_scheme) outcome) = Done (ASSERT_w False (free_state p w))"
    by (simp add: CpuFreeContext_def assms(2) ASSERT_w_def ObjectFree_eq [OF pools_okD(1) [OF P] p] pools_okD(5) [OF P]
        free_state_def Let_def)
  then show ?thesis
    unfolding CpuFreeOrphanContexts_def
    by (subst free_loop.simps) (simp add: assms(3) free_loop.simps [of None None] ASSERT_w_def ASSERT_def Let_def)
qed

lemma count_contexts_chain: "chain h t L \<Longrightarrow> count_contexts h t n = Some (n + of_nat (length L))"
proof (induction L arbitrary: t n)
  case Nil
  then show ?case by (subst count_contexts.simps) simp
next
  case (Cons p L)
  then show ?case by (subst count_contexts.simps) (simp add: algebra_simps)
qed

text \<open>
  CpuGetDebugState terminates, reports the length of the chain and, for each
  supported processor, its number of contexts on the chain, the machine type of
  the innermost emulated caller (the host's when there is none), and changes
  nothing.
\<close>

lemma CpuGetDebugState_reports_chain:
  assumes "ctxs_ok X L w" "quiet (hooks w)" "MAU_SUPPORTS_X64_BINS (options E)" "MAU_SUPPORTS_AARCH64_BINS (options E)"
  shows "\<exists>d. CpuGetDebugState E w = Some (EFI_SUCCESS, d, w) \<and> ContextCount d = of_nat (length L) \<and>
    X64ContextCount d = of_int (count_on L CpuX64 w) \<and> AArch64ContextCount d = of_int (count_on L CpuAArch64 w) \<and>
    ContextCount d = X64ContextCount d + AArch64ContextCount d \<and>
    CallerMachineType d = (case L of [] \<Rightarrow> HOST_MACHINE_TYPE (host E) | p # _ \<Rightarrow> EmuMachineType (cpus w (Cpu_of p w)))"
proof -
  have ch: "chain (contexts w) (mTopContext w) L" and cnt: "\<forall>c. Contexts (cpus w c) = count_on L c w"
    using assms(1) by (auto simp: ctxs_ok_def count_on_def)
  have e: "hooks_update CriticalEnd (hooks_update CriticalBegin w) = w"
    using assms(2) by simp
  have sum: "int (length L) = count_on L CpuX64 w + count_on L CpuAArch64 w"
  proof (induction L)
    case (Cons q L)
    then show ?case by (cases "Cpu_of q w") auto
  qed simp
  then have "(of_nat (length L) :: u64) = of_int (count_on L CpuX64 w) + of_int (count_on L CpuAArch64 w)"
    by (metis of_int_add of_int_of_nat_eq)
  moreover have "mTopContext w = head L" using ch by (rule chain_head)
  ultimately show ?thesis
    using count_contexts_chain [OF ch, of 0] assms(3,4) cnt e
    by (cases L) (auto simp: CpuGetDebugState_def Let_def)
qed

subsection \<open>Witnesses\<close>

text \<open>
  A state with three contexts per processor, at 0x10000, 0x10100, 0x10200 for X64
  and 0x20000, 0x20100, 0x20200 for AArch64: the chain L, other allocated
  contexts X, the flags and the cookies are arguments.
\<close>

fun next_in :: "ptr list \<Rightarrow> ptr \<Rightarrow> ptr option" where
  "next_in [] p = None"
| "next_in (q # qs) p = (if q = p then head qs else next_in qs p)"

definition example_contexts ::
  "ptr list \<Rightarrow> (ptr \<Rightarrow> u64) \<Rightarrow> (ptr \<Rightarrow> u64) \<Rightarrow> ptr \<Rightarrow> (uc_reg \<Rightarrow> u64) CpuRunContext" where
  "example_contexts L F K p = \<lparr>PrevUcContext = Some (\<lambda>_. p), ctx_Cpu = (if p < 0x20000 then CpuX64 else CpuAArch64),
     ProgramCounter = 0, LeakCookie = K p, Args = (\<lambda>_. 0), Ret = 0, Flags = F p, PrevContext = next_in L p,
     ctx_ImageRecord = None\<rparr>"

definition example_objects :: "cpu_id \<Rightarrow> ptr list" where
  "example_objects c = (case c of CpuX64 \<Rightarrow> [0x10000, 0x10100, 0x10200] | CpuAArch64 \<Rightarrow> [0x20000, 0x20100, 0x20200])"

definition example_ctx_pool :: "ptr list \<Rightarrow> cpu_id \<Rightarrow> (uc_reg \<Rightarrow> u64) ctx_heap ObjectAllocContext" where
  "example_ctx_pool A c = \<lparr>Arena = hd (example_objects c), ArenaSize = 0x1000,
     FreeList = filter (\<lambda>p. p \<notin> set A) (example_objects c),
     Config = \<lparr>ObjectSize = 0x100, ObjectAlignment = 8, ObjectCount = 3, cfg_Signature = 0x8664,
       OnCreate = None, OnAlloc = Some CpuRunContextOnAlloc, OnFree = None, OnDestroy = None\<rparr>,
     headers = (\<lambda>p. \<lparr>Signature = 0x8664, Link = (if p \<in> set A then SelfLinked else OnList)\<rparr>)\<rparr>"

definition example_world ::
  "ptr list \<Rightarrow> ptr list \<Rightarrow> (ptr \<Rightarrow> u64) \<Rightarrow> (ptr \<Rightarrow> u64) \<Rightarrow> (uc_reg \<Rightarrow> u64, uc_reg \<Rightarrow> u64) cpu_world" where
  "example_world X L F K = \<lparr>mem = (\<lambda>_. 0), hooks = example_hooks True Hook, UE = (\<lambda>_ _. 0),
     cpus = (\<lambda>c. example_cpu\<lparr>Contexts := int (length (filter (\<lambda>p. p \<in> set (example_objects c)) L))\<rparr>),
     mImageList = [], Records = (\<lambda>_. example_record), attr_calls = [],
     contexts = example_contexts L F K, RunContextAlloc = example_ctx_pool (X @ L), mTopContext = head L\<rparr>"

lemma example_ctx_pool_objs: "objs (example_ctx_pool A c) = example_objects c"
  by (cases c) (simp_all add: objs_def osize_def example_ctx_pool_def example_objects_def ROUND_UP_def)

lemma example_pools_ok: "pools_ok (example_ctx_pool A) (example_contexts L F K)"
  unfolding pools_ok_def all_cpu example_ctx_pool_objs pool_inv_def
  by (auto simp: example_ctx_pool_def example_objects_def example_contexts_def)

lemma example_allocated: "allocated (example_ctx_pool A) = set A \<inter> (set (example_objects CpuX64) \<union> set (example_objects CpuAArch64))"
  unfolding allocated_def ex_cpu example_ctx_pool_objs by (auto simp: example_ctx_pool_def)

lemma example_chain: "distinct L \<Longrightarrow> chain (example_contexts L F K) (head L) L"
proof -
  have "distinct (M @ L) \<Longrightarrow> chain (example_contexts (M @ L) F K) (head L) L" for M L
  proof (induction L arbitrary: M)
    case Nil
    show ?case by simp
  next
    case (Cons p L)
    have "p \<notin> set M \<Longrightarrow> next_in (M @ p # L) p = head L" by (induction M) auto
    with Cons.IH [of "M @ [p]"] Cons.prems show ?case by (simp add: example_contexts_def [of "M @ p # L" F K p])
  qed
  from this [of "[]"] show "distinct L \<Longrightarrow> chain (example_contexts L F K) (head L) L" by simp
qed

lemma example_world_ok:
  assumes "distinct (X @ L)" "set (X @ L) \<subseteq> set (example_objects CpuX64) \<union> set (example_objects CpuAArch64)"
    and "\<forall>p \<in> set L. F p \<in> {0, 1}"
  shows "ctxs_ok X L (example_world X L F K)"
proof -
  have c: "(ctx_Cpu (example_contexts L F K p) = c) = (p \<in> set (example_objects c))" if "p \<in> set L" for p c
  proof -
    have "p \<in> set (example_objects CpuX64) \<union> set (example_objects CpuAArch64)" using that assms(2) by auto
    then show ?thesis by (cases c) (auto simp: example_contexts_def example_objects_def)
  qed
  have "filter (\<lambda>p. ctx_Cpu (example_contexts L F K p) = c) L = filter (\<lambda>p. p \<in> set (example_objects c)) L" for c
    by (rule filter_cong) (simp_all add: c)
  moreover have "F p \<in> {0, 1}" if "p \<in> set L" for p using assms(3) that by blast
  ultimately show ?thesis
    using assms(1,2) by (auto simp: ctxs_ok_def example_world_def example_pools_ok example_allocated example_chain)
      (auto simp: example_contexts_def)
qed

lemma example_world_quiet: "quiet (hooks (example_world X L F K))"
  by (simp add: example_world_def quiet_def example_hooks_def)

abbreviation E0 :: "(uc_reg \<Rightarrow> u64, uc_reg \<Rightarrow> u64) env" where
  "E0 \<equiv> example_env (\<lambda>_ _ s. s)"

lemma E0_ok: "uc_ok (UC E0)" "uc_context_ok (UC E0)" "uc_regs_ok (UC E0)"
  using function_ops_ok [of "\<lambda>_ _ s. s"] by (simp_all add: example_env_def uc_ok_def)

lemma E0_saved: "snd (uc_context_save (UC E0) u) = u" "rd (UC E0) u r = u r"
  by (simp_all add: example_env_def function_ops_def rd_def)

theorem NativeThunkCheckLeakedContexts_unwinds_witness:
  "\<exists>w'. (NativeThunkCheckLeakedContexts E0 0x10000
      (example_world [] [0x10200, 0x20000, 0x10000] (\<lambda>p. if p = 0x10200 then 1 else 0) (\<lambda>_. 0)) :: (unit, _) outcome option) =
      Some (Done w') \<and> ctxs_ok [] [0x10000] w' \<and> reg E0 CpuX64 UC_X86_REG_RAX w' = 0x10200"
proof -
  let ?F = "\<lambda>p :: ptr. if p = 0x10200 then 1 else 0 :: u64"
  let ?w = "example_world [] ([0x10200, 0x20000] @ 0x10000 # []) ?F (\<lambda>_. 0)"
  have C: "ctxs_ok [] ([0x10200, 0x20000] @ 0x10000 # []) ?w"
    by (rule example_world_ok) (auto simp: example_objects_def)
  from NativeThunkCheckLeakedContexts_unwinds [where 'j = unit, OF E0_ok(2) C example_world_quiet] obtain w' where w':
    "(NativeThunkCheckLeakedContexts E0 0x10000 ?w :: (unit, _) outcome option) = Some (Done w')" "ctxs_ok [] [0x10000] w'"
    and r: "\<forall>A k B u r. [0x10200, 0x20000] = A @ k # B \<and> Flags (contexts ?w k) \<noteq> 0 \<and>
       (\<forall>q \<in> set B. Cpu_of q ?w = Cpu_of k ?w \<longrightarrow> Flags (contexts ?w q) = 0) \<and>
       PrevUcContext (contexts ?w k) = Some (snd (uc_context_save (UC E0) u)) \<longrightarrow> reg E0 (Cpu_of k ?w) r w' = rd (UC E0) u r"
    by (elim exE conjE)
  have "reg E0 (Cpu_of 0x10200 ?w) UC_X86_REG_RAX w' = rd (UC E0) (\<lambda>_. 0x10200) UC_X86_REG_RAX"
    by (rule r [rule_format, of "[]" _ "[0x20000]"]) (simp add: example_world_def example_contexts_def E0_saved)
  then have "reg E0 CpuX64 UC_X86_REG_RAX w' = 0x10200"
    by (simp add: example_world_def example_contexts_def E0_saved)
  with w' show ?thesis by auto
qed


end
