(* ===== verification/Wrappers.thy ===== *)
theory Wrappers
  imports Contexts
begin

text \<open>
  EfiWrappers.c: the native functions that emulated code may not call directly,
  and the wrappers around CreateEvent, CreateEventEx and CloseEvent that a build
  with MAU_WRAPPED_ENTRY_POINTS substitutes, with the list of wrapped events.
  The locale \<open>event_registry\<close> is the contract of that list.
\<close>

section \<open>Data\<close>

record WRAPPED_EVENT_RECORD =
  Event :: u64
  X64NotifyContext :: u64
  X64NotifyFunction :: u64
  CallerProgramCounter :: u64
  ev_Cpu :: cpu_id

text \<open>\<open>live_records\<close> are the records that AllocatePool handed out and FreePool has not taken back.\<close>

record ('u, 'c) wrap_world = "('u, 'c) cpu_world" +
  mEventList :: "ptr list"
  EventRecords :: "ptr \<Rightarrow> WRAPPED_EVENT_RECORD"
  live_records :: "ptr list"

text \<open>The addresses the driver compares program counters with.\<close>

record services =
  gBS_CreateEvent :: u64
  gBS_CreateEventEx :: u64
  gBS_CloseEvent :: u64
  gBS_ExitBootServices :: u64
  gBS_Exit :: u64
  gCpu_RegisterInterruptHandler :: u64
  gCpu_Init :: u64

text \<open>
  The event services are firmware: parameters.  CreateEvent and CreateEventEx get
  the type, the TPL, the address of the wrapped record as the notification
  context and, for CreateEventEx, the event group; they answer with the status
  and the event.
\<close>

record event_services =
  fw_AllocatePool_Event :: "ptr option"
  fw_CreateEvent :: "u32 \<Rightarrow> u64 \<Rightarrow> ptr \<Rightarrow> u64 option \<Rightarrow> efi_status \<times> u64"
  fw_CloseEvent :: "u64 \<Rightarrow> efi_status"

text \<open>What a native call turns into: the function itself or one of the wrappers.\<close>

datatype call_target =
    NativeCall u64
  | NativeUnsupported
  | CpuExitImage
  | EfiWrapperCreateEventCommon
  | EfiWrapperCloseEvent

section \<open>Which calls are overridden\<close>

definition EfiWrappersOverride :: "build \<Rightarrow> services \<Rightarrow> u64 \<Rightarrow> call_target" where
  "EfiWrappersOverride b S pc =
     (if MAU_WRAPPED_ENTRY_POINTS b \<and> pc = gBS_CreateEvent S then EfiWrapperCreateEventCommon
      else if MAU_WRAPPED_ENTRY_POINTS b \<and> pc = gBS_CreateEventEx S then EfiWrapperCreateEventCommon
      else if MAU_WRAPPED_ENTRY_POINTS b \<and> pc = gBS_CloseEvent S then EfiWrapperCloseEvent
      else if pc = gBS_ExitBootServices S then NativeUnsupported
      else if pc = gCpu_RegisterInterruptHandler S \<or> pc = gCpu_Init S then NativeUnsupported
      else if pc = gBS_Exit S then CpuExitImage
      else NativeCall pc)"

text \<open>Native.c.\<close>

definition NativeValidateSupportedCall :: "build \<Rightarrow> services \<Rightarrow> u64 \<Rightarrow> call_target" where
  "NativeValidateSupportedCall b S pc =
     (if pc < EFI_PAGE_SIZE then NativeUnsupported else EfiWrappersOverride b S pc)"

section \<open>Wrapped events\<close>

definition EfiWrappersInit :: "build \<Rightarrow> ('u, 'c, 'z) wrap_world_scheme \<Rightarrow> ('u, 'c, 'z) wrap_world_scheme" where
  "EfiWrappersInit b w = (if MAU_WRAPPED_ENTRY_POINTS b then w\<lparr>mEventList := []\<rparr> else w)"

definition EfiWrappersFindEvent :: "u64 \<Rightarrow> ('u, 'c, 'z) wrap_world_scheme \<Rightarrow> ptr option" where
  "EfiWrappersFindEvent e w = find (\<lambda>Record. Event (EventRecords w Record) = e) (mEventList w)"

text \<open>CloseEvent reads Record->Event before it tests Record.\<close>

definition EfiWrapperCloseEvent_fn ::
  "event_services \<Rightarrow> args \<Rightarrow> ('u, 'c, 'z) wrap_world_scheme \<Rightarrow>
   ('j, efi_status \<times> ('u, 'c, 'z) wrap_world_scheme) outcome" where
  "EfiWrapperCloseEvent_fn V A w =
     (case EfiWrappersFindEvent (A 0) w of
        None \<Rightarrow> Crashed NULL_dereference
      | Some Record \<Rightarrow>
          let Status = fw_CloseEvent V (Event (EventRecords w Record));
              w = hooks_update CriticalBegin w;
              w = w\<lparr>mEventList := remove1 Record (mEventList w)\<rparr>;
              w = hooks_update CriticalEnd w
          in Done (Status, w\<lparr>live_records := remove1 Record (live_records w)\<rparr>))"

text \<open>
  The event is created with the address of the record as the notification
  context.  When the creation fails, the record is freed but stays on the list.
  \<open>uninit\<close> is what the fresh record's Event holds then.
\<close>

definition EfiWrapperCreateEventCommon_fn ::
  "services \<Rightarrow> event_services \<Rightarrow> u64 \<Rightarrow> u64 \<Rightarrow> u64 \<Rightarrow> args \<Rightarrow> ('u, 'c, 'z) wrap_world_scheme \<Rightarrow>
   ('j, efi_status \<times> ('u, 'c, 'z) wrap_world_scheme) outcome" where
  "EfiWrapperCreateEventCommon_fn S V uninit OriginalProgramCounter ReturnAddress A w =
     (let Type = ucast (A 0) :: u32;
          NotifyTpl = A 1;
          is_ex = (OriginalProgramCounter \<noteq> gBS_CreateEvent S);
          w = (if is_ex then ASSERT_w (OriginalProgramCounter = gBS_CreateEventEx S) w else w);
          EventGroup = (if is_ex then Some (A 4) else None);
          EventPtr = (if is_ex then A 5 else A 4)
      in case fw_AllocatePool_Event V of
           None \<Rightarrow> Done (EFI_OUT_OF_RESOURCES, w)
         | Some Record \<Rightarrow>
             (case CpuGetTopContext w of
                None \<Rightarrow> Crashed NULL_dereference
              | Some top_context \<Rightarrow>
                  let r = \<lparr>Event = uninit, X64NotifyContext = A 3, X64NotifyFunction = A 2,
                           CallerProgramCounter = ReturnAddress, ev_Cpu = Cpu_of top_context w\<rparr>;
                      w = w\<lparr>live_records := Record # live_records w,
                            EventRecords := (EventRecords w)(Record := r)\<rparr>;
                      w = hooks_update CriticalBegin w;
                      w = w\<lparr>mEventList := mEventList w @ [Record]\<rparr>;
                      w = hooks_update CriticalEnd w;
                      (Status, ev) = fw_CreateEvent V Type NotifyTpl Record EventGroup
                  in if EFI_ERROR Status
                     then Done (Status, w\<lparr>mem := store64 EventPtr 0 (mem w), live_records := remove1 Record (live_records w)\<rparr>)
                     else
                       let w = w\<lparr>EventRecords := (EventRecords w)(Record := r\<lparr>Event := ev\<rparr>)\<rparr>
                       in Done (EFI_SUCCESS, w\<lparr>mem := store64 EventPtr (Event (EventRecords w Record)) (mem w)\<rparr>)))"

text \<open>
  EfiWrappersEventNotify passes an array of two arguments to CpuRunFunc, which
  reads sixteen: the others are whatever the stack holds.
\<close>

definition EventNotifyArgs :: "(nat \<Rightarrow> u64) \<Rightarrow> u64 \<Rightarrow> WRAPPED_EVENT_RECORD \<Rightarrow> args" where
  "EventNotifyArgs stack e Record = (\<lambda>i. if i = 0 then e else if i = 1 then X64NotifyContext Record else stack i)"

section \<open>The interface: a registry of events\<close>

locale event_registry =
  fixes ok :: "'s \<Rightarrow> bool" and lookup :: "u64 \<Rightarrow> 's \<Rightarrow> 'r option"
    and fresh :: "u64 \<Rightarrow> 'r \<Rightarrow> 's \<Rightarrow> bool"
    and add :: "u64 \<Rightarrow> 'r \<Rightarrow> 's \<Rightarrow> 's" and close :: "u64 \<Rightarrow> 's \<Rightarrow> 's"
  assumes fresh_None: "ok s \<Longrightarrow> fresh e r s \<Longrightarrow> lookup e s = None"
    and add_ok: "ok s \<Longrightarrow> fresh e r s \<Longrightarrow> ok (add e r s)"
    and lookup_add: "ok s \<Longrightarrow> fresh e r s \<Longrightarrow> lookup e' (add e r s) = (if e' = e then Some r else lookup e' s)"
    and close_ok: "ok s \<Longrightarrow> ok (close e s)"
    and lookup_close: "ok s \<Longrightarrow> lookup e' (close e s) = (if e' = e then None else lookup e' s)"
begin

lemma close_add: "ok s \<Longrightarrow> fresh e r s \<Longrightarrow> ok (close e (add e r s)) \<and> lookup e' (close e (add e r s)) = lookup e' s"
  using fresh_None [of s e r] by (simp add: add_ok close_ok lookup_add lookup_close)

lemma close_twice: "ok s \<Longrightarrow> lookup e' (close e (close e s)) = lookup e' (close e s)"
  by (simp add: close_ok lookup_close)

end

text \<open>
  The invariant: no record twice on the list, every record on the list still
  allocated, and no two records of one event.
\<close>

definition events_ok :: "('u, 'c, 'z) wrap_world_scheme \<Rightarrow> bool" where
  "events_ok w \<longleftrightarrow> distinct (mEventList w) \<and> set (mEventList w) \<subseteq> set (live_records w) \<and> distinct (live_records w) \<and>
     (\<forall>p \<in> set (mEventList w). \<forall>q \<in> set (mEventList w). Event (EventRecords w p) = Event (EventRecords w q) \<longrightarrow> p = q)"

definition fresh_event :: "u64 \<Rightarrow> ptr \<Rightarrow> ('u, 'c, 'z) wrap_world_scheme \<Rightarrow> bool" where
  "fresh_event e p w \<longleftrightarrow> p \<notin> set (live_records w) \<and> (\<forall>q \<in> set (mEventList w). Event (EventRecords w q) \<noteq> e)"

text \<open>The list and the records after a creation and after a close.\<close>

definition event_added ::
  "WRAPPED_EVENT_RECORD \<Rightarrow> u64 \<Rightarrow> ptr \<Rightarrow> ('u, 'c, 'z) wrap_world_scheme \<Rightarrow> ('u, 'c, 'z) wrap_world_scheme" where
  "event_added r e p w =
     (let w1 = hooks_update CriticalEnd (hooks_update CriticalBegin w)
      in w1\<lparr>mEventList := mEventList w @ [p], EventRecords := (EventRecords w)(p := r\<lparr>Event := e\<rparr>),
            live_records := p # live_records w\<rparr>)"

definition event_closed :: "u64 \<Rightarrow> ('u, 'c, 'z) wrap_world_scheme \<Rightarrow> ('u, 'c, 'z) wrap_world_scheme" where
  "event_closed e w =
     (case EfiWrappersFindEvent e w of
        None \<Rightarrow> w
      | Some p \<Rightarrow>
          let w1 = hooks_update CriticalEnd (hooks_update CriticalBegin w)
          in w1\<lparr>mEventList := remove1 p (mEventList w), live_records := remove1 p (live_records w)\<rparr>)"

lemma EfiWrappersFindEvent_iff:
  assumes "events_ok w"
  shows "EfiWrappersFindEvent e w = Some p \<longleftrightarrow> p \<in> set (mEventList w) \<and> Event (EventRecords w p) = e"
proof
  assume "EfiWrappersFindEvent e w = Some p"
  then show "p \<in> set (mEventList w) \<and> Event (EventRecords w p) = e"
    by (auto simp: EfiWrappersFindEvent_def find_Some_iff)
next
  assume p: "p \<in> set (mEventList w) \<and> Event (EventRecords w p) = e"
  then obtain q where q: "EfiWrappersFindEvent e w = Some q"
    by (cases "EfiWrappersFindEvent e w") (auto simp: EfiWrappersFindEvent_def find_None_iff)
  then have "q \<in> set (mEventList w) \<and> Event (EventRecords w q) = e"
    by (auto simp: EfiWrappersFindEvent_def find_Some_iff)
  with p q assms show "EfiWrappersFindEvent e w = Some p"
    unfolding events_ok_def by blast
qed

lemma events_ok_mem: "events_ok (w\<lparr>mem := m\<rparr>) = events_ok w"
proof -
  have "mEventList (w\<lparr>mem := m\<rparr>) = mEventList w" "EventRecords (w\<lparr>mem := m\<rparr>) = EventRecords w"
    "live_records (w\<lparr>mem := m\<rparr>) = live_records w" by simp_all
  then show ?thesis unfolding events_ok_def by (simp only:)
qed

lemma EfiWrappersFindEvent_mem: "EfiWrappersFindEvent e (w\<lparr>mem := m\<rparr>) = EfiWrappersFindEvent e w"
  by (simp add: EfiWrappersFindEvent_def)

lemma EfiWrappersFindEvent_None:
  "EfiWrappersFindEvent e w = None \<longleftrightarrow> (\<forall>p \<in> set (mEventList w). Event (EventRecords w p) \<noteq> e)"
  by (auto simp: EfiWrappersFindEvent_def find_None_iff)

lemma event_added_simps [simp]:
  "mEventList (event_added r e p w) = mEventList w @ [p]"
  "EventRecords (event_added r e p w) = (EventRecords w)(p := r\<lparr>Event := e\<rparr>)"
  "live_records (event_added r e p w) = p # live_records w"
  "mem (event_added r e p w) = mem w"
  "quiet (hooks w) \<Longrightarrow> hooks (event_added r e p w) = hooks w"
  by (simp_all add: event_added_def Let_def)

lemma events_ok_added: "events_ok w \<Longrightarrow> fresh_event e p w \<Longrightarrow> events_ok (event_added r e p w)"
  unfolding events_ok_def fresh_event_def by auto

lemma event_closed_simps:
  assumes "EfiWrappersFindEvent e w = Some p"
  shows "mEventList (event_closed e w) = remove1 p (mEventList w)" "EventRecords (event_closed e w) = EventRecords w"
    "live_records (event_closed e w) = remove1 p (live_records w)"
    "quiet (hooks w) \<Longrightarrow> hooks (event_closed e w) = hooks w" "mem (event_closed e w) = mem w"
  by (simp_all add: event_closed_def assms Let_def)

lemma events_ok_closed: "events_ok w \<Longrightarrow> events_ok (event_closed e w)"
proof (cases "EfiWrappersFindEvent e w")
  case None
  then show "events_ok w \<Longrightarrow> events_ok (event_closed e w)" by (simp add: event_closed_def)
next
  case (Some p)
  then show "events_ok w \<Longrightarrow> events_ok (event_closed e w)"
    unfolding events_ok_def event_closed_simps [OF Some] by auto
qed

interpretation ev: event_registry "events_ok :: ('u, 'c, 'z) wrap_world_scheme \<Rightarrow> bool" EfiWrappersFindEvent fresh_event
  "event_added r" event_closed
proof
  fix w :: "('u, 'c, 'z) wrap_world_scheme" and e e' :: u64 and p :: ptr
  assume w: "events_ok w"
  show "EfiWrappersFindEvent e w = None" if "fresh_event e p w"
    using that by (auto simp: EfiWrappersFindEvent_None fresh_event_def)
  show add: "events_ok (event_added r e p w)" if "fresh_event e p w"
    using w that by (rule events_ok_added)
  show "EfiWrappersFindEvent e' (event_added r e p w) = (if e' = e then Some p else EfiWrappersFindEvent e' w)"
    if f: "fresh_event e p w"
  proof (cases "e' = e")
    case True
    with add [OF f] show ?thesis by (simp add: EfiWrappersFindEvent_iff)
  next
    case False
    have p: "p \<notin> set (mEventList w)" using f w by (auto simp: fresh_event_def events_ok_def)
    show ?thesis
    proof (cases "EfiWrappersFindEvent e' w")
      case None
      with False p have "EfiWrappersFindEvent e' (event_added r e p w) = None"
        by (auto simp: EfiWrappersFindEvent_None)
      with None False show ?thesis by simp
    next
      case (Some q)
      with w p have "EfiWrappersFindEvent e' (event_added r e p w) = Some q"
        using add [OF f] by (auto simp: EfiWrappersFindEvent_iff)
      with Some False show ?thesis by simp
    qed
  qed
  show close: "events_ok (event_closed e w)"
    using w by (rule events_ok_closed)
  show "EfiWrappersFindEvent e' (event_closed e w) = (if e' = e then None else EfiWrappersFindEvent e' w)"
  proof (cases "EfiWrappersFindEvent e w")
    case None
    then show ?thesis by (simp add: event_closed_def)
  next
    case (Some p)
    note c = event_closed_simps [OF Some]
    have p: "p \<in> set (mEventList w)" "Event (EventRecords w p) = e" and d: "distinct (mEventList w)"
      using Some w by (simp_all add: EfiWrappersFindEvent_iff) (simp add: events_ok_def)
    show ?thesis
    proof (cases "EfiWrappersFindEvent e' (event_closed e w)")
      case None
      then have "EfiWrappersFindEvent e' w = None" if "e' \<noteq> e"
        using that p d by (auto simp: EfiWrappersFindEvent_None c)
      with None show ?thesis by simp
    next
      case (Some q)
      then have "q \<in> set (mEventList w)" "q \<noteq> p" "Event (EventRecords w q) = e'"
        using close d by (auto simp: EfiWrappersFindEvent_iff c)
      with p w have "e' \<noteq> e" "EfiWrappersFindEvent e' w = Some q"
        by (auto simp: EfiWrappersFindEvent_iff) (auto simp: events_ok_def)
      with Some show ?thesis by simp
    qed
  qed
qed

section \<open>Properties\<close>

definition event_ptr :: "services \<Rightarrow> u64 \<Rightarrow> args \<Rightarrow> u64" where
  "event_ptr S pc A = (if pc = gBS_CreateEvent S then A 4 else A 5)"

definition event_group :: "services \<Rightarrow> u64 \<Rightarrow> args \<Rightarrow> u64 option" where
  "event_group S pc A = (if pc = gBS_CreateEvent S then None else Some (A 4))"

definition wrapped_record :: "u64 \<Rightarrow> u64 \<Rightarrow> args \<Rightarrow> cpu_id \<Rightarrow> WRAPPED_EVENT_RECORD" where
  "wrapped_record uninit ra A c = \<lparr>Event = uninit, X64NotifyContext = A 3, X64NotifyFunction = A 2,
     CallerProgramCounter = ra, ev_Cpu = c\<rparr>"

lemma CreateEventCommon_eq:
  assumes "fw_AllocatePool_Event V = Some p" "mTopContext w = Some t"
    and "pc = gBS_CreateEvent S \<or> pc = gBS_CreateEventEx S"
    and "fw_CreateEvent V (ucast (A 0)) (A 1) p (event_group S pc A) = (st, e)"
  shows "EfiWrapperCreateEventCommon_fn S V uninit pc ra A w =
    (let v = event_added (wrapped_record uninit ra A (Cpu_of t w)) (if EFI_ERROR st then uninit else e) p w
     in if EFI_ERROR st
        then Done (st, v\<lparr>mem := store64 (event_ptr S pc A) 0 (mem w), live_records := live_records w\<rparr>)
        else Done (EFI_SUCCESS, v\<lparr>mem := store64 (event_ptr S pc A) e (mem w)\<rparr>))"
proof (cases "pc = gBS_CreateEvent S")
  case True
  with assms show ?thesis
    by (simp add: EfiWrapperCreateEventCommon_fn_def CpuGetTopContext_def event_ptr_def event_group_def
        wrapped_record_def event_added_def Let_def)
next
  case False
  with assms show ?thesis
    by (simp add: EfiWrapperCreateEventCommon_fn_def CpuGetTopContext_def event_ptr_def event_group_def
        wrapped_record_def event_added_def Let_def)
qed

text \<open>
  C19: when the firmware creates the event, the wrapper of CreateEvent and
  CreateEventEx returns success, stores the event where the caller asked, and
  registers it: the event is found with the caller's notification function and
  context and the caller's processor, every other event as before, and the list
  stays well-formed.
\<close>

theorem CreateEvent_wrapper_registers:
  fixes w :: "('u, 'c, 'z) wrap_world_scheme"
  assumes "events_ok w" "fresh_event e p w" "fw_AllocatePool_Event V = Some p" "mTopContext w = Some t"
    and "pc = gBS_CreateEvent S \<or> pc = gBS_CreateEventEx S"
    and "fw_CreateEvent V (ucast (A 0)) (A 1) p (event_group S pc A) = (st, e)" "\<not> EFI_ERROR st" "quiet (hooks w)"
  shows "\<exists>w'. (EfiWrapperCreateEventCommon_fn S V uninit pc ra A w :: ('j, efi_status \<times> ('u, 'c, 'z) wrap_world_scheme) outcome) =
      Done (EFI_SUCCESS, w') \<and>
    load64 (mem w') (event_ptr S pc A) = e \<and> events_ok w' \<and> hooks w' = hooks w \<and>
    (\<forall>e'. EfiWrappersFindEvent e' w' = (if e' = e then Some p else EfiWrappersFindEvent e' w)) \<and>
    EventRecords w' p = \<lparr>Event = e, X64NotifyContext = A 3, X64NotifyFunction = A 2, CallerProgramCounter = ra,
      ev_Cpu = Cpu_of t w\<rparr>"
proof -
  let ?r = "wrapped_record uninit ra A (Cpu_of t w)"
  let ?v = "(event_added ?r e p w)\<lparr>mem := store64 (event_ptr S pc A) e (mem w)\<rparr>"
  have "(EfiWrapperCreateEventCommon_fn S V uninit pc ra A w :: ('j, efi_status \<times> ('u, 'c, 'z) wrap_world_scheme) outcome) =
      Done (EFI_SUCCESS, ?v)"
    using assms(7) by (simp add: CreateEventCommon_eq [OF assms(3-6)] Let_def)
  moreover have "EfiWrappersFindEvent e' ?v = (if e' = e then Some p else EfiWrappersFindEvent e' w)" for e'
  proof -
    have "EfiWrappersFindEvent e' ?v = EfiWrappersFindEvent e' (event_added ?r e p w)"
      by (simp only: EfiWrappersFindEvent_mem)
    then show ?thesis using ev.lookup_add [OF assms(1,2), of e' ?r] by (simp only:)
  qed
  moreover have "events_ok ?v"
    using events_ok_added [OF assms(1,2), of ?r] by (simp only: events_ok_mem)
  moreover have "hooks ?v = hooks w" using assms(8) by simp
  moreover have "EventRecords ?v p = \<lparr>Event = e, X64NotifyContext = A 3, X64NotifyFunction = A 2, CallerProgramCounter = ra,
      ev_Cpu = Cpu_of t w\<rparr>" by (simp add: wrapped_record_def)
  ultimately show ?thesis by (intro exI [of _ ?v]) simp
qed

text \<open>
  C20: closing an event that was created through the wrapper closes exactly this
  event in the firmware, takes its record off the list and frees it: the list,
  the records in use and the lookup of every event are those before the creation.
\<close>

theorem CreateEvent_CloseEvent_roundtrip:
  fixes w :: "('u, 'c, 'z) wrap_world_scheme"
  assumes "events_ok w" "fresh_event e p w" "fw_AllocatePool_Event V = Some p" "mTopContext w = Some t"
    and "pc = gBS_CreateEvent S \<or> pc = gBS_CreateEventEx S"
    and "fw_CreateEvent V (ucast (A 0)) (A 1) p (event_group S pc A) = (st, e)" "\<not> EFI_ERROR st" "quiet (hooks w)"
    and "B 0 = e"
  shows "\<exists>w' w''. (EfiWrapperCreateEventCommon_fn S V uninit pc ra A w :: ('j, efi_status \<times> ('u, 'c, 'z) wrap_world_scheme) outcome) =
      Done (EFI_SUCCESS, w') \<and>
    (EfiWrapperCloseEvent_fn V B w' :: ('j, efi_status \<times> ('u, 'c, 'z) wrap_world_scheme) outcome) =
      Done (fw_CloseEvent V e, w'') \<and>
    mEventList w'' = mEventList w \<and> live_records w'' = live_records w \<and> hooks w'' = hooks w \<and>
    (\<forall>e'. EfiWrappersFindEvent e' w'' = EfiWrappersFindEvent e' w)"
proof -
  let ?r = "wrapped_record uninit ra A (Cpu_of t w)"
  let ?v = "(event_added ?r e p w)\<lparr>mem := store64 (event_ptr S pc A) e (mem w)\<rparr>"
  have 1: "(EfiWrapperCreateEventCommon_fn S V uninit pc ra A w :: ('j, efi_status \<times> ('u, 'c, 'z) wrap_world_scheme) outcome) =
      Done (EFI_SUCCESS, ?v)"
    using assms(7) by (simp add: CreateEventCommon_eq [OF assms(3-6)] Let_def)
  have f: "EfiWrappersFindEvent e' ?v = EfiWrappersFindEvent e' (event_added ?r e p w)" for e'
    by (simp only: EfiWrappersFindEvent_mem)
  have "EfiWrappersFindEvent e ?v = Some p"
    using ev.lookup_add [OF assms(1,2), of e ?r] by (simp add: f)
  then have 2: "(EfiWrapperCloseEvent_fn V B ?v :: ('j, efi_status \<times> ('u, 'c, 'z) wrap_world_scheme) outcome) =
      Done (fw_CloseEvent V e, event_closed e ?v)"
    by (simp add: EfiWrapperCloseEvent_fn_def assms(9) event_closed_def Let_def)
  have p: "p \<notin> set (mEventList w)"
    using assms(1,2) by (auto simp: fresh_event_def events_ok_def)
  have c: "mEventList (event_closed e ?v) = mEventList w" "live_records (event_closed e ?v) = live_records w"
    "hooks (event_closed e ?v) = hooks w" "EventRecords (event_closed e ?v) = EventRecords ?v"
    using p assms(8) event_closed_simps [OF \<open>EfiWrappersFindEvent e ?v = Some p\<close>] by (simp_all add: remove1_append)
  have "EfiWrappersFindEvent e' (event_closed e ?v) = EfiWrappersFindEvent e' w" for e'
    unfolding EfiWrappersFindEvent_def c using p
    by (intro find_cong) auto
  with 1 2 c show ?thesis by blast
qed

text \<open>
  When the firmware refuses to create the event, the wrapper frees the record
  but leaves it on mEventList: the list then holds a record that is not allocated
  any more, so that it is not well-formed.
\<close>

lemma CreateEvent_failure_leaves_dangling_record:
  fixes w :: "('u, 'c, 'z) wrap_world_scheme"
  assumes "events_ok w" "p \<notin> set (live_records w)" "fw_AllocatePool_Event V = Some p" "mTopContext w = Some t"
    and "pc = gBS_CreateEvent S \<or> pc = gBS_CreateEventEx S"
    and "fw_CreateEvent V (ucast (A 0)) (A 1) p (event_group S pc A) = (st, e)" "EFI_ERROR st"
  shows "\<exists>w'. (EfiWrapperCreateEventCommon_fn S V uninit pc ra A w :: ('j, efi_status \<times> ('u, 'c, 'z) wrap_world_scheme) outcome) =
      Done (st, w') \<and>
    load64 (mem w') (event_ptr S pc A) = 0 \<and> p \<in> set (mEventList w') \<and> p \<notin> set (live_records w') \<and> \<not> events_ok w'"
  using assms(2,7) by (simp add: CreateEventCommon_eq [OF assms(3-6)] Let_def events_ok_def)

text \<open>
  CloseEvent called by emulated code on an event that was not created through
  the wrapper (it was created by native code) dereferences NULL.
\<close>

lemma CloseEvent_of_native_event_crashes:
  assumes "\<forall>p \<in> set (mEventList w). Event (EventRecords w p) \<noteq> A 0"
  shows "EfiWrapperCloseEvent_fn V A w = Crashed NULL_dereference"
  using assms EfiWrappersFindEvent_None [of "A 0" w] by (simp add: EfiWrapperCloseEvent_fn_def)

text \<open>
  Emulated code never reaches ExitBootServices, Exit, RegisterInterruptHandler
  or Init of the firmware, nor an address of the first page, and in a build with
  wrapped entry points neither CreateEvent, CreateEventEx nor CloseEvent; every
  other native address is called as it is.
\<close>

lemma NativeValidateSupportedCall_policy:
  "NativeValidateSupportedCall b S pc = NativeCall pc' \<longleftrightarrow>
   pc' = pc \<and> EFI_PAGE_SIZE \<le> pc \<and>
   pc \<notin> {gBS_ExitBootServices S, gBS_Exit S, gCpu_RegisterInterruptHandler S, gCpu_Init S} \<and>
   (MAU_WRAPPED_ENTRY_POINTS b \<longrightarrow> pc \<notin> {gBS_CreateEvent S, gBS_CreateEventEx S, gBS_CloseEvent S})"
  by (auto simp: NativeValidateSupportedCall_def EfiWrappersOverride_def)

subsection \<open>Witnesses\<close>

definition example_wrap_world :: "(unit, unit) wrap_world" where
  "example_wrap_world = \<lparr>mem = (\<lambda>_. 0), hooks = example_hooks True Hook, UE = (\<lambda>_. ()),
     cpus = (\<lambda>_. undefined), mImageList = [], Records = (\<lambda>_. example_record), attr_calls = [],
     contexts = (\<lambda>_. \<lparr>PrevUcContext = Some (), ctx_Cpu = CpuAArch64, ProgramCounter = 0, LeakCookie = 0, Args = (\<lambda>_. 0),
        Ret = 0, Flags = 0, PrevContext = None, ctx_ImageRecord = None\<rparr>),
     RunContextAlloc = (\<lambda>_. undefined), mTopContext = Some 0x10000,
     mEventList = [0x500], EventRecords = (\<lambda>_. \<lparr>Event = 0x77, X64NotifyContext = 0, X64NotifyFunction = 0,
        CallerProgramCounter = 0, ev_Cpu = CpuX64\<rparr>), live_records = [0x500]\<rparr>"

definition example_bs :: services where
  "example_bs = \<lparr>gBS_CreateEvent = 0x5000, gBS_CreateEventEx = 0x5100, gBS_CloseEvent = 0x5200,
     gBS_ExitBootServices = 0x5300, gBS_Exit = 0x5400, gCpu_RegisterInterruptHandler = 0x5500, gCpu_Init = 0x5600\<rparr>"

definition example_events :: "efi_status \<Rightarrow> event_services" where
  "example_events st = \<lparr>fw_AllocatePool_Event = Some 0x600, fw_CreateEvent = (\<lambda>t tpl r g. (st, 0x88)),
     fw_CloseEvent = (\<lambda>e. EFI_SUCCESS)\<rparr>"

lemma example_world_facts:
  "mEventList example_wrap_world = [0x500]" "live_records example_wrap_world = [0x500]"
  "mTopContext example_wrap_world = Some 0x10000" "hooks example_wrap_world = example_hooks True Hook"
  "Event (EventRecords example_wrap_world q) = 0x77"
  by (simp_all add: example_wrap_world_def)

lemma example_events_facts:
  "events_ok example_wrap_world" "fresh_event 0x88 0x600 example_wrap_world" "quiet (hooks example_wrap_world)"
  "fw_AllocatePool_Event (example_events st) = Some 0x600"
  "fw_CreateEvent (example_events st) ty tpl p g = (st, 0x88)" "(0x5100 :: u64) = gBS_CreateEvent example_bs \<or> 0x5100 = gBS_CreateEventEx example_bs"
  "0x600 \<notin> set (live_records example_wrap_world)" "event_ptr example_bs 0x5100 A = A 5"
  by (simp_all add: events_ok_def fresh_event_def quiet_def example_hooks_def example_events_def
      example_bs_def event_ptr_def example_world_facts)

theorem CreateEvent_wrapper_registers_witness:
  "\<exists>w'. (EfiWrapperCreateEventCommon_fn example_bs (example_events EFI_SUCCESS) 0 0x5100 0x40000 (\<lambda>i. of_nat (16 * i))
      example_wrap_world :: (unit, _) outcome) = Done (EFI_SUCCESS, w') \<and>
    load64 (mem w') 80 = 0x88 \<and> EfiWrappersFindEvent 0x88 w' = Some 0x600"
  using CreateEvent_wrapper_registers [where 'j = unit, OF example_events_facts(1,2,4) example_world_facts(3)
        example_events_facts(6,5) _ example_events_facts(3),
      of EFI_SUCCESS 0 "0x40000" "\<lambda>i. of_nat (16 * i)"]
  by (auto simp: example_events_facts(8))

theorem CreateEvent_CloseEvent_roundtrip_witness:
  "\<exists>w' w''. (EfiWrapperCreateEventCommon_fn example_bs (example_events EFI_SUCCESS) 0 0x5100 0x40000 (\<lambda>i. of_nat (16 * i))
      example_wrap_world :: (unit, _) outcome) = Done (EFI_SUCCESS, w') \<and>
    (EfiWrapperCloseEvent_fn (example_events EFI_SUCCESS) (\<lambda>_. 0x88) w' :: (unit, _) outcome) = Done (EFI_SUCCESS, w'') \<and>
    mEventList w'' = [0x500]"
proof -
  have c: "fw_CloseEvent (example_events EFI_SUCCESS) e = EFI_SUCCESS" for e by (simp add: example_events_def)
  show ?thesis
    using CreateEvent_CloseEvent_roundtrip [where 'j = unit and B = "\<lambda>_. 0x88",
        OF example_events_facts(1,2,4) example_world_facts(3)
        example_events_facts(6,5) _ example_events_facts(3), of EFI_SUCCESS 0 "0x40000" "\<lambda>i. of_nat (16 * i)"]
    by (auto simp: example_world_facts(1) c)
qed

end
