(* ===== verification/Run.thy ===== *)
theory Run
  imports Context_Stack Wrappers
begin

text \<open>
  Running emulated code: CpuRunFunc, CpuRunImage, CpuRunCtx, the emulation loop
  CpuRunCtxInternal, the native thunks of Native.c and CpuExitImage.  Native code
  is not part of the driver: it is a tree of the things it can do that involve
  the driver (\<open>native\<close>), and everything is run with fuel, None being a
  computation that has not come back.
\<close>

section \<open>Native code\<close>

text \<open>
  What native code does, as a tree: return a value; access memory; ask the CPU
  protocol for interrupts to be on or off; call an address in an emulated image
  (the exception handler of the architecture passes it to EmulatorVmEntry), with
  the frame pointer of the caller; start an emulated image through StartImage;
  have an event notification delivered to a wrapped event; run a body under
  SetJump, with what to do when a LongJump comes back; and LongJump.
\<close>

datatype native =
    NReturn u64
  | NWrite u64 u64 native
  | NRead u64 "u64 \<Rightarrow> native"
  | NInterrupts bool native
  | NEmulated u64 u64 args "u64 \<Rightarrow> native"
  | NStartImage u64 efi_handle "u64 \<Rightarrow> native"
  | NNotify u64 u64 ptr native
  | NSetJump nat native native "u64 \<Rightarrow> native"
  | NLongJump nat

text \<open>
  Where a long jump goes: to a SetJump of native code, to a SetJump of the driver
  (by its number), or, from Exit of an image, to the StartImage of that image.
\<close>

datatype jump =
    ToNative nat
  | ToFrame nat
  | ToStartImage efi_handle u64

section \<open>State and environment\<close>

text \<open>
  \<open>perf_now\<close> counts the reads of the performance counter, \<open>pending\<close>
  are the event notifications that fire, in order, when interrupts are enabled
  between two runs of the engine, \<open>next_frame\<close> numbers the SetJumps of the
  driver, and mOriginalStack is the jump buffer of a build with a private stack.
\<close>

record ('u, 'c) world = "('u, 'c) wrap_world" +
  perf_now :: nat
  pending :: "native list"
  next_frame :: nat
  mOriginalStack :: nat

record ('u, 'c) run_env =
  Env :: "('u, 'c) env"
  bs :: services
  events_fw :: event_services
  firmware_cpu :: fw_cpu
  GetPerformanceCounter :: "nat \<Rightarrow> u64"
  native_code :: "u64 \<Rightarrow> args \<Rightarrow> native"
  LoadedImageBase :: "efi_handle \<Rightarrow> efi_status \<times> u64"
  gBS_Exit_fails :: "efi_handle \<Rightarrow> efi_status option"
  SystemTable :: u64
  uninitialised :: "nat \<Rightarrow> u64"
  mNativeStackStart :: u64
  mNativeStackTop :: u64

type_synonym ('v, 'w) run = "(jump \<times> 'w, 'v \<times> 'w) outcome option"

definition read_perf :: "('u, 'c) run_env \<Rightarrow> ('u, 'c, 'z) world_scheme \<Rightarrow> u64 \<times> ('u, 'c, 'z) world_scheme" where
  "read_perf R w = (GetPerformanceCounter R (perf_now w), w\<lparr>perf_now := perf_now w + 1\<rparr>)"

section \<open>One run of the engine\<close>

abbreviation UC_EMU_EXIT_PERIOD_TB_MAX :: u64 where "UC_EMU_EXIT_PERIOD_TB_MAX \<equiv> 0x100000"
abbreviation UC_EMU_EXIT_PERIOD_TB_MIN :: u64 where "UC_EMU_EXIT_PERIOD_TB_MIN \<equiv> 0x100"

text \<open>How CpuRunCtxInternal adapts the number of blocks between two stops to the period asked for.\<close>

definition calibrate_period :: "u64 \<Rightarrow> u64 \<Rightarrow> u64 \<Rightarrow> u64" where
  "calibrate_period Ticks TimeoutAbsTicks period =
     (if Ticks > TimeoutAbsTicks then
        (if period > UC_EMU_EXIT_PERIOD_TB_MIN then drop_bit 1 period else period)
      else if Ticks < TimeoutAbsTicks then
        (if period < UC_EMU_EXIT_PERIOD_TB_MAX then push_bit 1 period else period)
      else period)"

text \<open>The critical section of the loop: from CriticalBegin to CriticalEnd around uc\_emu\_start.\<close>

definition run_engine ::
  "('u, 'c) run_env \<Rightarrow> cpu_id \<Rightarrow> u64 \<Rightarrow> ('u, 'c, 'z) world_scheme \<Rightarrow>
   (jump \<times> ('u, 'c, 'z) world_scheme, uc_err \<times> ('u, 'c, 'z) world_scheme) outcome option" where
  "run_engine R Cpu pc w =
     (let w = hooks_update CriticalBegin w;
          notimeout = MAU_EMU_TIMEOUT_NONE (options (Env R));
          (now, w) = (if notimeout then (0, w) else read_perf R w);
          TimeoutAbsTicks = ExitPeriodTicks (cpus w Cpu) + now;
          block = (if notimeout then (\<lambda>t. (t, False)) else CpuTimeoutCb);
          t = (TbCount (cpus w Cpu), ExitPeriodTbs (cpus w Cpu), StoppedOnTimeout (cpus w Cpu))
      in case uc_emu_start (UC (Env R)) Cpu (CpuIsNativeCb (Env R) w) block pc (UE w Cpu, mem w, t) of
           None \<Rightarrow> None
         | Some (UcErr, u, m, (count, period, stopped)) \<Rightarrow>
             let w = (set_UE Cpu u w)\<lparr>mem := m\<rparr>;
                 w = cpu_update Cpu (\<lambda>x. x\<lparr>TbCount := count, ExitPeriodTbs := period, StoppedOnTimeout := stopped\<rparr>) w;
                 w = ASSERT_w (\<not> hw_interrupts (hooks w)) w;
                 w = (if \<not> notimeout \<and> StoppedOnTimeout (cpus w Cpu) then
                        let w = cpu_update Cpu (\<lambda>x. x\<lparr>StoppedOnTimeout := False\<rparr>) w;
                            (Ticks, w) = read_perf R w
                        in cpu_update Cpu (\<lambda>x. x\<lparr>ExitPeriodTbs := calibrate_period Ticks TimeoutAbsTicks (ExitPeriodTbs x)\<rparr>) w
                      else w)
             in Some (Done (UcErr, hooks_update CriticalEnd w)))"

text \<open>
  Interrupts are enabled again: the next pending notification runs, if the
  apparent interrupt state lets it.
\<close>

definition interrupt_window ::
  "(native \<Rightarrow> ('u, 'c, 'z) world_scheme \<Rightarrow> (u64, ('u, 'c, 'z) world_scheme) run) \<Rightarrow>
   ('u, 'c, 'z) world_scheme \<Rightarrow> (jump \<times> ('u, 'c, 'z) world_scheme, ('u, 'c, 'z) world_scheme) outcome option" where
  "interrupt_window run w =
     (case pending w of
        [] \<Rightarrow> Some (Done w)
      | t # ts \<Rightarrow>
          if hw_interrupts (hooks w) then obind (run t (w\<lparr>pending := ts\<rparr>)) (\<lambda>(v, w). Some (Done w))
          else Some (Done w))"

section \<open>Calls of emulated code to native code\<close>

text \<open>The search of CpuExitImage for the innermost context of an image.\<close>

partial_function (option) find_image_context ::
  "(ptr \<Rightarrow> 'c CpuRunContext) \<Rightarrow> ptr option \<Rightarrow> ptr option option" where
  "find_image_context h Context =
     (case Context of
        None \<Rightarrow> Some None
      | Some p \<Rightarrow> if ctx_ImageRecord (h p) = None then find_image_context h (PrevContext (h p)) else Some (Some p))"

definition rec_update ::
  "ptr \<Rightarrow> (ImageRecord \<Rightarrow> ImageRecord) \<Rightarrow> ('u, 'c, 'z) image_world_scheme \<Rightarrow> ('u, 'c, 'z) image_world_scheme" where
  "rec_update p f w = w\<lparr>Records := (Records w)(p := f (Records w p))\<rparr>"

definition CpuExitImage_fn ::
  "args \<Rightarrow> ('u, 'c, 'z) cpu_world_scheme \<Rightarrow> (u64, ('u, 'c, 'z) cpu_world_scheme) run" where
  "CpuExitImage_fn A w =
     (case ImageFindByHandle (A 0) w of
        None \<Rightarrow> Some (Done (EFI_INVALID_PARAMETER, w))
      | Some CurrentImageRecord \<Rightarrow>
          let w = ASSERT_w (ImageHandle (Records w CurrentImageRecord) = A 0) w;
              w = hooks_update CriticalBegin w
          in case find_image_context (contexts w) (mTopContext w) of
               None \<Rightarrow> None
             | Some Context \<Rightarrow>
                 let w = ASSERT_w (Context \<noteq> None) w;
                     Context = (case Context of
                         None \<Rightarrow> None
                       | Some p \<Rightarrow> if ctx_ImageRecord (contexts w p) \<noteq> Some CurrentImageRecord then None else Some p);
                     w = hooks_update CriticalEnd w
                 in if Context = None then Some (Done (EFI_INVALID_PARAMETER, w))
                    else
                      let w = rec_update CurrentImageRecord
                                (\<lambda>r. r\<lparr>ImageExitStatus := A 1, ImageExitDataSize := A 2, ImageExitData := A 3\<rparr>) w
                      in Some (Jumped (ToFrame (ImageExitJumpBuffer (Records w CurrentImageRecord)), w)))"

text \<open>NativeUnsupported of Native.c reads the top context for its message.\<close>

definition NativeUnsupported_fn ::
  "('u, 'c, 'z) cpu_world_scheme \<Rightarrow> (u64, ('u, 'c, 'z) cpu_world_scheme) run" where
  "NativeUnsupported_fn w =
     (case CpuGetTopContext w of None \<Rightarrow> Some (Crashed NULL_dereference) | Some p \<Rightarrow> Some (Done (EFI_UNSUPPORTED, w)))"

definition call_wrapper ::
  "('u, 'c) run_env \<Rightarrow> call_target \<Rightarrow> u64 \<Rightarrow> u64 \<Rightarrow> args \<Rightarrow> ('u, 'c, 'z) wrap_world_scheme \<Rightarrow>
   (u64, ('u, 'c, 'z) wrap_world_scheme) run" where
  "call_wrapper R target pc ra A w =
     (case target of
        NativeCall f \<Rightarrow> Some (Crashed Unhandled_exception)
      | NativeUnsupported \<Rightarrow> NativeUnsupported_fn w
      | CpuExitImage \<Rightarrow> CpuExitImage_fn A w
      | EfiWrapperCreateEventCommon \<Rightarrow>
          Some (EfiWrapperCreateEventCommon_fn (bs R) (events_fw R) (uninitialised R 0) pc ra A w)
      | EfiWrapperCloseEvent \<Rightarrow> Some (EfiWrapperCloseEvent_fn (events_fw R) A w))"

text \<open>The native function or the wrapper; NativeThunkX64 first completes the home zone for a wrapper.\<close>

definition NativeThunkX64 ::
  "('u, 'c) run_env \<Rightarrow> (native \<Rightarrow> ('u, 'c, 'z) world_scheme \<Rightarrow> (u64, ('u, 'c, 'z) world_scheme) run) \<Rightarrow>
   ptr \<Rightarrow> u64 \<Rightarrow> ('u, 'c, 'z) world_scheme \<Rightarrow> (u64, ('u, 'c, 'z) world_scheme) run" where
  "NativeThunkX64 R run Context pc w =
     (let E = Env R;
          Cpu = Cpu_of Context w;
          target = NativeValidateSupportedCall (options E) (bs R) pc;
          (A, ra, Rsp, w) = X64NativeArgs E Cpu w
      in obind
           (case target of
              NativeCall f \<Rightarrow> run (native_code R f A) w
            | _ \<Rightarrow>
                let w = w\<lparr>mem := store64 (cell Rsp 4) (A 3) (store64 (cell Rsp 3) (A 2)
                            (store64 (cell Rsp 2) (A 1) (store64 (cell Rsp 1) (A 0) (mem w))))\<rparr>
                in call_wrapper R target pc ra (\<lambda>i. load64 (mem w) (cell Rsp (i + 1))) w)
           (\<lambda>(Rax, w). obind (NativeThunkCheckLeakedContexts E Context w)
              (\<lambda>w. let w = REG_WRITE (UC E) Cpu UC_X86_REG_RAX Rax w in Some (Done (CpuStackPop64 E Cpu w)))))"

definition NativeThunkAArch64 ::
  "('u, 'c) run_env \<Rightarrow> (native \<Rightarrow> ('u, 'c, 'z) world_scheme \<Rightarrow> (u64, ('u, 'c, 'z) world_scheme) run) \<Rightarrow>
   ptr \<Rightarrow> u64 \<Rightarrow> ('u, 'c, 'z) world_scheme \<Rightarrow> (u64, ('u, 'c, 'z) world_scheme) run" where
  "NativeThunkAArch64 R run Context pc w =
     (let E = Env R;
          Cpu = Cpu_of Context w;
          target = NativeValidateSupportedCall (options E) (bs R) pc;
          (A, Lr, Sp, w) = AArch64NativeArgs E Cpu w
      in obind
           (case target of
              NativeCall f \<Rightarrow> run (native_code R f A) w
            | _ \<Rightarrow> call_wrapper R target pc Lr A w)
           (\<lambda>(X0, w). obind (NativeThunkCheckLeakedContexts E Context w)
              (\<lambda>w. let w = REG_WRITE (UC E) Cpu UC_ARM64_REG_X0 X0 w in Some (Done (REG_READ (UC E) Cpu UC_ARM64_REG_LR w)))))"

definition call_NativeThunk ::
  "isa_functions \<Rightarrow> ('u, 'c) run_env \<Rightarrow> (native \<Rightarrow> ('u, 'c, 'z) world_scheme \<Rightarrow> (u64, ('u, 'c, 'z) world_scheme) run) \<Rightarrow>
   ptr \<Rightarrow> u64 \<Rightarrow> ('u, 'c, 'z) world_scheme \<Rightarrow> (u64, ('u, 'c, 'z) world_scheme) run" where
  "call_NativeThunk f = (case f of X64Functions \<Rightarrow> NativeThunkX64 | AArch64Functions \<Rightarrow> NativeThunkAArch64)"

section \<open>The emulation loop\<close>

datatype CpuExitReason =
  CPU_REASON_INVALID | CPU_REASON_NONE | CPU_REASON_RETURN_TO_NATIVE | CPU_REASON_CALL_TO_NATIVE |
  CPU_REASON_FAILED_EMU

definition exit_reason :: "('u, 'c) env \<Rightarrow> uc_err \<Rightarrow> u64 \<Rightarrow> CpuExitReason" where
  "exit_reason E UcErr pc =
     (if UcErr = UC_ERR_FIND_TB then
        (if pc = RETURN_TO_NATIVE_MAGIC E then CPU_REASON_RETURN_TO_NATIVE else CPU_REASON_CALL_TO_NATIVE)
      else if UcErr \<noteq> UC_ERR_OK then CPU_REASON_FAILED_EMU
      else CPU_REASON_NONE)"

text \<open>The for loop of CpuRunCtxInternal; the result says why it was left.\<close>

fun emulation_loop ::
  "('u, 'c) run_env \<Rightarrow> (native \<Rightarrow> ('u, 'c, 'z) world_scheme \<Rightarrow> (u64, ('u, 'c, 'z) world_scheme) run) \<Rightarrow>
   nat \<Rightarrow> ptr \<Rightarrow> cpu_id \<Rightarrow> u64 \<Rightarrow> ('u, 'c, 'z) world_scheme \<Rightarrow>
   (jump \<times> ('u, 'c, 'z) world_scheme, CpuExitReason \<times> ('u, 'c, 'z) world_scheme) outcome option" where
  "emulation_loop R run 0 Context Cpu pc w = None"
| "emulation_loop R run (Suc n) Context Cpu pc w =
     obind (run_engine R Cpu pc w)
       (\<lambda>(UcErr, w). obind (interrupt_window run w)
         (\<lambda>w. let (pc, w) = REG_READ (UC (Env R)) Cpu (ProgramCounterReg (cpus w Cpu)) w
               in case exit_reason (Env R) UcErr pc of
                    CPU_REASON_NONE \<Rightarrow> emulation_loop R run n Context Cpu pc (ASSERT_w (pc \<noteq> 0) w)
                  | CPU_REASON_CALL_TO_NATIVE \<Rightarrow>
                      (case NativeThunk (cpus w Cpu) of
                         None \<Rightarrow> Some (Crashed NULL_dereference)
                       | Some f \<Rightarrow> obind (call_NativeThunk f R run Context pc w)
                           (\<lambda>(pc, w). emulation_loop R run n Context Cpu pc w))
                  | reason \<Rightarrow> Some (Done (reason, w))))"

definition CpuRunCtxInternal ::
  "('u, 'c) run_env \<Rightarrow> (native \<Rightarrow> ('u, 'c, 'z) world_scheme \<Rightarrow> (u64, ('u, 'c, 'z) world_scheme) run) \<Rightarrow>
   nat \<Rightarrow> ptr \<Rightarrow> ('u, 'c, 'z) world_scheme \<Rightarrow> (u64, ('u, 'c, 'z) world_scheme) run" where
  "CpuRunCtxInternal R run n Context w =
     (let E = Env R;
          A = Args (contexts w Context);
          pc = ProgramCounter (contexts w Context);
          Cpu = Cpu_of Context w
      in case EmuThunkPre (cpus w Cpu) of
           None \<Rightarrow> Some (Crashed NULL_dereference)
         | Some pre \<Rightarrow>
             obind (emulation_loop R run n Context Cpu pc (call_EmuThunkPre pre E Cpu A w))
               (\<lambda>(reason, w).
                  if reason \<noteq> CPU_REASON_FAILED_EMU then
                    (case EmuThunkPost (cpus w Cpu) of
                       None \<Rightarrow> Some (Crashed NULL_dereference)
                     | Some post \<Rightarrow>
                         let w = call_EmuThunkPost post E Cpu A w
                         in Some (Done (REG_READ (UC E) Cpu (ReturnValueReg (cpus w Cpu)) w)))
                  else Some (Done (EFI_UNSUPPORTED, w))))"

section \<open>Running a context\<close>

text \<open>
  CpuRunCtxOnPrivateStack, with the frame pointer it runs at.  The pointer Cpu is
  read once, at the start.
\<close>

definition CpuRunCtxOnPrivateStack ::
  "('u, 'c) run_env \<Rightarrow> (native \<Rightarrow> ('u, 'c, 'z) world_scheme \<Rightarrow> (u64, ('u, 'c, 'z) world_scheme) run) \<Rightarrow>
   nat \<Rightarrow> u64 \<Rightarrow> ptr \<Rightarrow> ('u, 'c, 'z) world_scheme \<Rightarrow> (unit, ('u, 'c, 'z) world_scheme) run" where
  "CpuRunCtxOnPrivateStack R run n fp Context w =
     (let E = Env R;
          Cpu = Cpu_of Context w;
          check = MAU_CHECK_ORPHAN_CONTEXTS (options E)
      in obind (if check then CpuDetectOrphanContexts fp Context w else Some (Done (None, w)))
         (\<lambda>(OrphanContexts, w). let w = hooks_update CriticalEnd w in
          obind (if check then CpuFreeOrphanContexts OrphanContexts w else Some (Done w))
         (\<lambda>w. let w = (if Contexts (cpus w Cpu) > 1 then
                         let w = save_uc_context E Context w;
                             w = ctx_update Context (\<lambda>x. x\<lparr>Flags := Flags x OR CRC_HAVE_SAVED_UC_CONTEXT\<rparr>) w
                         in CpuStackPushRedZone E Cpu w
                       else
                         let (UcErr, u) = uc_context_restore (UC E) (UE w Cpu) (InitialState (cpus w Cpu))
                         in ASSERT_w (UcErr = UC_ERR_OK) (set_UE Cpu u w)) in
          obind (CpuRunCtxInternal R run n Context w)
         (\<lambda>(v, w). let w = ctx_update Context (\<lambda>x. x\<lparr>Ret := v\<rparr>) w;
                          w = (if Flags (contexts w Context) AND CRC_HAVE_SAVED_UC_CONTEXT \<noteq> 0
                               then ctx_update Context (\<lambda>x. x\<lparr>Flags := Flags x XOR CRC_HAVE_SAVED_UC_CONTEXT\<rparr>)
                                      (restore_uc_context E Context w)
                               else w) in
          obind (Some (CpuLeaveCritical Context w))
         (\<lambda>w. if MAU_ON_PRIVATE_STACK (options E) \<and> Flags (contexts w Context) AND CRC_HAVE_SAVED_UC_CONTEXT = 0
               then Some (Jumped (ToFrame (mOriginalStack w), w))
               else Some (Done ((), w)))))))"

text \<open>
  CpuRunCtx.  A SetJump takes a fresh number; a jump to another number goes on
  outward.  SwitchStack does not return.
\<close>

definition CpuRunCtx ::
  "('u, 'c) run_env \<Rightarrow> (native \<Rightarrow> ('u, 'c, 'z) world_scheme \<Rightarrow> (u64, ('u, 'c, 'z) world_scheme) run) \<Rightarrow>
   nat \<Rightarrow> u64 \<Rightarrow> ptr \<Rightarrow> ('u, 'c, 'z) world_scheme \<Rightarrow> (u64, ('u, 'c, 'z) world_scheme) run" where
  "CpuRunCtx R run n fp Context w =
     (let w = CpuEnterCritical Context w;
          on_private_stack = (fp \<ge> mNativeStackStart R \<and> fp < mNativeStackTop R)
      in obind
           (if MAU_ON_PRIVATE_STACK (options (Env R)) \<and> \<not> on_private_stack then
              let frame = next_frame w;
                  w = w\<lparr>next_frame := next_frame w + 1, mOriginalStack := frame\<rparr>
              in case CpuRunCtxOnPrivateStack R run n (mNativeStackTop R) Context w of
                   None \<Rightarrow> None
                 | Some (Done x) \<Rightarrow> Some (Crashed Unhandled_exception)
                 | Some (Jumped (j, w)) \<Rightarrow> if j = ToFrame frame then Some (Done ((), w)) else Some (Jumped (j, w))
                 | Some (Crashed c) \<Rightarrow> Some (Crashed c)
            else CpuRunCtxOnPrivateStack R run n fp Context w)
           (\<lambda>(_, w). let w = hooks_update CriticalEnd w in Some (Done (Ret (contexts w Context), w))))"

definition CpuRunFunc ::
  "('u, 'c) run_env \<Rightarrow> (native \<Rightarrow> ('u, 'c, 'z) world_scheme \<Rightarrow> (u64, ('u, 'c, 'z) world_scheme) run) \<Rightarrow>
   nat \<Rightarrow> u64 \<Rightarrow> cpu_id \<Rightarrow> u64 \<Rightarrow> args \<Rightarrow> ('u, 'c, 'z) world_scheme \<Rightarrow> (u64, ('u, 'c, 'z) world_scheme) run" where
  "CpuRunFunc R run n fp Cpu pc A w =
     obind (Some (CpuAllocContext Cpu w))
       (\<lambda>(Context, w). case Context of
            None \<Rightarrow> Some (Done (EFI_OUT_OF_RESOURCES, w))
          | Some p \<Rightarrow>
              let w = ctx_update p (\<lambda>x. x\<lparr>ProgramCounter := pc, Args := A\<rparr>) w
              in obind (CpuRunCtx R run n fp p w)
                   (\<lambda>(v, w). obind (Some (CpuFreeContext p w)) (\<lambda>w. Some (Done (v, w)))))"

text \<open>EmulatorVmEntry of Emulator.c, called by the exception handler with the image of the address.\<close>

definition EmulatorVmEntry ::
  "('u, 'c) run_env \<Rightarrow> (native \<Rightarrow> ('u, 'c, 'z) world_scheme \<Rightarrow> (u64, ('u, 'c, 'z) world_scheme) run) \<Rightarrow>
   nat \<Rightarrow> u64 \<Rightarrow> u64 \<Rightarrow> args \<Rightarrow> ptr \<Rightarrow> ('u, 'c, 'z) world_scheme \<Rightarrow> (u64, ('u, 'c, 'z) world_scheme) run" where
  "EmulatorVmEntry R run n fp pc A Record w =
     (case rec_Cpu (Records w Record) of
        None \<Rightarrow> Some (Crashed NULL_dereference)
      | Some Cpu \<Rightarrow> CpuRunFunc R run n fp Cpu pc A w)"

definition EfiWrappersEventNotify ::
  "('u, 'c) run_env \<Rightarrow> (native \<Rightarrow> ('u, 'c, 'z) world_scheme \<Rightarrow> (u64, ('u, 'c, 'z) world_scheme) run) \<Rightarrow>
   nat \<Rightarrow> u64 \<Rightarrow> u64 \<Rightarrow> ptr \<Rightarrow> ('u, 'c, 'z) world_scheme \<Rightarrow> (u64, ('u, 'c, 'z) world_scheme) run" where
  "EfiWrappersEventNotify R run n fp e Record w =
     (let r = EventRecords w Record
      in CpuRunFunc R run n fp (ev_Cpu r) (X64NotifyFunction r) (EventNotifyArgs (uninitialised R) e r) w)"

text \<open>
  CpuRunImage.  The debug message of a DEBUG build reads Context->Cpu before the
  check for NULL.  When the image called Exit, control comes back at SetJump.
\<close>

definition CpuRunImage ::
  "('u, 'c) run_env \<Rightarrow> (native \<Rightarrow> ('u, 'c, 'z) world_scheme \<Rightarrow> (u64, ('u, 'c, 'z) world_scheme) run) \<Rightarrow>
   nat \<Rightarrow> u64 \<Rightarrow> efi_handle \<Rightarrow> ('u, 'c, 'z) world_scheme \<Rightarrow> (u64, ('u, 'c, 'z) world_scheme) run" where
  "CpuRunImage R run n fp Handle w =
     (let A = (\<lambda>i. if i = 0 then Handle else if i = 1 then SystemTable R else 0);
          (Status, base) = LoadedImageBase R Handle
      in if EFI_ERROR Status then Some (Done (Status, w))
         else case ImageFindByAddress base w of
           None \<Rightarrow> Some (Crashed ASSERT_failed)
         | Some Record \<Rightarrow>
             (case rec_Cpu (Records w Record) of
                None \<Rightarrow> Some (Crashed ASSERT_failed)
              | Some Cpu \<Rightarrow>
                  obind (Some (CpuAllocContext Cpu w))
                    (\<lambda>(Context, w). case Context of
                         None \<Rightarrow> if NDEBUG (options (Env R)) then Some (Done (EFI_OUT_OF_RESOURCES, w))
                                 else Some (Crashed NULL_dereference)
                       | Some p \<Rightarrow>
                           let frame = next_frame w;
                               w = rec_update Record (\<lambda>r. r\<lparr>ImageHandle := Handle, ImageExitJumpBuffer := frame\<rparr>) w;
                               w = ctx_update p (\<lambda>x. x\<lparr>ctx_ImageRecord := Some Record,
                                     ProgramCounter := ImageEntry (Records w Record), Args := A\<rparr>) w;
                               w = w\<lparr>next_frame := frame + 1\<rparr>
                           in case CpuRunCtx R run n fp p w of
                                None \<Rightarrow> None
                              | Some (Done (v, w)) \<Rightarrow> obind (Some (CpuFreeContext p w)) (\<lambda>w. Some (Done (v, w)))
                              | Some (Crashed c) \<Rightarrow> Some (Crashed c)
                              | Some (Jumped (j, w)) \<Rightarrow>
                                  if j \<noteq> ToFrame frame then Some (Jumped (j, w))
                                  else obind (CpuCompressLeakedContexts (Env R) p True w)
                                    (\<lambda>w. let H = ImageHandle (Records w Record) in
                                         case gBS_Exit_fails R H of
                                           None \<Rightarrow> Some (Jumped (ToStartImage H (ImageExitStatus (Records w Record)), w))
                                         | Some Status \<Rightarrow> Some (Done (Status, ASSERT_w (\<not> EFI_ERROR Status) w))))))"

section \<open>Running native code\<close>

text \<open>
  A call of native code to an address outside of all emulated images does not
  get here: the exception is not the driver's.
\<close>

fun run_native ::
  "('u, 'c) run_env \<Rightarrow> nat \<Rightarrow> native \<Rightarrow> ('u, 'c, 'z) world_scheme \<Rightarrow> (u64, ('u, 'c, 'z) world_scheme) run" where
  "run_native R 0 t w = None"
| "run_native R (Suc n) (NReturn v) w = Some (Done (v, w))"
| "run_native R (Suc n) (NWrite a v t) w = run_native R n t (w\<lparr>mem := store64 a v (mem w)\<rparr>)"
| "run_native R (Suc n) (NRead a k) w = run_native R n (k (load64 (mem w) a)) w"
| "run_native R (Suc n) (NInterrupts b t) w = run_native R n t (hooks_update (request (firmware_cpu R) b) w)"
| "run_native R (Suc n) (NEmulated fp pc A k) w =
     (case ImageFindByAddress pc w of
        None \<Rightarrow> Some (Crashed Unhandled_exception)
      | Some Record \<Rightarrow> obind (EmulatorVmEntry R (run_native R n) n fp pc A Record w) (\<lambda>(v, w). run_native R n (k v) w))"
| "run_native R (Suc n) (NStartImage fp Handle k) w =
     (case CpuRunImage R (run_native R n) n fp Handle w of
        None \<Rightarrow> None
      | Some (Done (v, w)) \<Rightarrow> run_native R n (k v) w
      | Some (Crashed c) \<Rightarrow> Some (Crashed c)
      | Some (Jumped (j, w)) \<Rightarrow>
          (case j of
             ToStartImage H v \<Rightarrow> if H = Handle then run_native R n (k v) w else Some (Jumped (j, w))
           | _ \<Rightarrow> Some (Jumped (j, w))))"
| "run_native R (Suc n) (NNotify fp e Record t) w =
     obind (EfiWrappersEventNotify R (run_native R n) n fp e Record w) (\<lambda>(v, w). run_native R n t w)"
| "run_native R (Suc n) (NSetJump j body handler k) w =
     (case run_native R n body w of
        None \<Rightarrow> None
      | Some (Done (v, w)) \<Rightarrow> run_native R n (k v) w
      | Some (Crashed c) \<Rightarrow> Some (Crashed c)
      | Some (Jumped (j', w)) \<Rightarrow> if j' = ToNative j then run_native R n handler w else Some (Jumped (j', w)))"
| "run_native R (Suc n) (NLongJump j) w = Some (Jumped (ToNative j, w))"

lemma run_native_numeral [simp]: "run_native R (numeral k) t w = run_native R (Suc (pred_numeral k)) t w"
  by (simp only: numeral_eq_Suc)

lemma emulation_loop_numeral [simp]:
  "emulation_loop R run (numeral k) p c pc w = emulation_loop R run (Suc (pred_numeral k)) p c pc w"
  by (simp only: numeral_eq_Suc)

end
