(* ===== verification/Run_Inv.thy ===== *)
theory Run_Inv
  imports Run
begin

text \<open>
  The invariant of the running emulator and its preservation by every function
  of Run: the chain of contexts, the counts, the free lists and the interrupt
  state, for any native code, any emulated code and any long jumps; and the
  registers of every processor that has a live context.
\<close>

section \<open>The invariant\<close>

text \<open>
  Notifications that fire while emulated code runs must not use SetJump
  themselves (the contexts such code leaves behind are only noticed by the next
  native call) and do not start images, which the UEFI specification forbids at
  their task priority level.
\<close>

primrec notify_safe :: "native \<Rightarrow> bool" where
  "notify_safe (NReturn v) = True"
| "notify_safe (NWrite a v t) = notify_safe t"
| "notify_safe (NRead a k) = (\<forall>v. notify_safe (k v))"
| "notify_safe (NInterrupts b t) = notify_safe t"
| "notify_safe (NEmulated fp pc A k) = (\<forall>v. notify_safe (k v))"
| "notify_safe (NStartImage fp H k) = False"
| "notify_safe (NNotify fp e r t) = notify_safe t"
| "notify_safe (NSetJump j b h k) = False"
| "notify_safe (NLongJump j) = True"

text \<open>A context has saved registers exactly when an older context of its processor is on the chain.\<close>

fun nested_ok :: "(ptr \<Rightarrow> 'c CpuRunContext) \<Rightarrow> ptr list \<Rightarrow> bool" where
  "nested_ok h [] = True"
| "nested_ok h (p # ps) \<longleftrightarrow>
     (Flags (h p) \<noteq> 0 \<longleftrightarrow> (\<exists>q \<in> set ps. ctx_Cpu (h q) = ctx_Cpu (h p))) \<and> nested_ok h ps"

definition saved_ok :: "('u, 'c) uc_ops \<Rightarrow> (ptr \<Rightarrow> 'c CpuRunContext) \<Rightarrow> ptr list \<Rightarrow> bool" where
  "saved_ok U h L \<longleftrightarrow>
     (\<forall>p \<in> set L. Flags (h p) \<noteq> 0 \<longrightarrow> (\<exists>u. PrevUcContext (h p) = Some (snd (uc_context_save U u))))"

definition run_inv :: "('u, 'c) run_env \<Rightarrow> ptr list \<Rightarrow> ('u, 'c, 'z) world_scheme \<Rightarrow> bool" where
  "run_inv R C w \<longleftrightarrow>
     ctxs_ok [] C w \<and> quiet (hooks w) \<and> hooked (hooks w) \<and> nested_ok (contexts w) C \<and>
     saved_ok (UC (Env R)) (contexts w) C \<and> list_all notify_safe (pending w)"

text \<open>The builds without a private stack and without the orphan check, which are the defaults.\<close>

definition env_ok :: "('u, 'c) run_env \<Rightarrow> bool" where
  "env_ok R \<longleftrightarrow> uc_ok (UC (Env R)) \<and> fw_cpu_ok (firmware_cpu R) \<and>
     \<not> MAU_ON_PRIVATE_STACK (options (Env R)) \<and> \<not> MAU_CHECK_ORPHAN_CONTEXTS (options (Env R))"

text \<open>
  The registers a processor has once the contexts K are unwound: those saved by
  the oldest of its contexts among them, or the current ones.
\<close>

definition base_reg ::
  "('u, 'c) env \<Rightarrow> ptr list \<Rightarrow> ('u, 'c, 'z) cpu_world_scheme \<Rightarrow> cpu_id \<Rightarrow> uc_reg \<Rightarrow> u64" where
  "base_reg E K w d r =
     (case find (\<lambda>p. Cpu_of p w = d) (rev K) of
        None \<Rightarrow> reg E d r w
      | Some p \<Rightarrow> rd (UC E) (snd (uc_context_restore (UC E) (UE w d) (the (PrevUcContext (contexts w p))))) r)"

definition live :: "cpu_id \<Rightarrow> ptr list \<Rightarrow> ('u, 'c, 'z) cpu_world_scheme \<Rightarrow> bool" where
  "live d L w \<longleftrightarrow> (\<exists>p \<in> set L. Cpu_of p w = d)"

text \<open>The fields of a CpuContext that only its initialisation sets.\<close>

definition cpu_fixed :: "'c CpuContext \<Rightarrow> 'c CpuContext" where
  "cpu_fixed x = x\<lparr>Contexts := 0, TbCount := 0, ExitPeriodTbs := 0, StoppedOnTimeout := False\<rparr>"

definition keep :: "ptr list \<Rightarrow> ('u, 'c, 'z) cpu_world_scheme \<Rightarrow> ('u, 'c, 'z) cpu_world_scheme \<Rightarrow> bool" where
  "keep L w w' \<longleftrightarrow> (\<forall>p \<in> set L. contexts w' p = contexts w p) \<and> (\<forall>c. cpu_fixed (cpus w' c) = cpu_fixed (cpus w c))"

text \<open>
  One step above the live contexts L: whatever contexts K were left above them,
  now it is K', the live ones are as they were, and so are the registers that
  unwinding brings back, those in V apart.
\<close>

definition step ::
  "('u, 'c) run_env \<Rightarrow> (cpu_id \<times> uc_reg) set \<Rightarrow> ptr list \<Rightarrow> ptr list \<Rightarrow> ('u, 'c, 'z) world_scheme \<Rightarrow>
   ptr list \<Rightarrow> ('u, 'c, 'z) world_scheme \<Rightarrow> bool" where
  "step R V L K w K' w' \<longleftrightarrow> run_inv R (K' @ L) w' \<and> keep L w w' \<and>
     (\<forall>d r. live d L w \<longrightarrow> (d, r) \<notin> V \<longrightarrow> base_reg (Env R) K' w' d r = base_reg (Env R) K w d r)"

definition good ::
  "('u, 'c) run_env \<Rightarrow> (native \<Rightarrow> ('u, 'c, 'z) world_scheme \<Rightarrow> (u64, ('u, 'c, 'z) world_scheme) run) \<Rightarrow> bool" where
  "good R run \<longleftrightarrow>
     (\<forall>t w K L. run_inv R (K @ L) w \<longrightarrow>
        (\<forall>v w'. run t w = Some (Done (v, w')) \<longrightarrow>
           (\<exists>K'. step R {} L K w K' w' \<and> (notify_safe t \<longrightarrow> K' = K))) \<and>
        (\<forall>j w'. run t w = Some (Jumped (j, w')) \<longrightarrow> (\<exists>K'. step R {} L K w K' w')))"

section \<open>Steps\<close>

lemma live_keep: "keep L w w' \<Longrightarrow> live d L w' = live d L w"
  by (auto simp: live_def keep_def)

lemma keep_trans: "keep L w w' \<Longrightarrow> keep L w' w'' \<Longrightarrow> keep L w w''"
  by (simp add: keep_def)

lemma keep_append: "keep (K @ L) w w' \<longleftrightarrow> keep K w w' \<and> keep L w w'"
  by (auto simp: keep_def)

lemma live_append [simp]: "live d (K @ L) w \<longleftrightarrow> live d K w \<or> live d L w"
  by (auto simp: live_def)

lemma live_Cons [simp]: "live d (p # L) w \<longleftrightarrow> Cpu_of p w = d \<or> live d L w"
  by (auto simp: live_def)

lemma live_Nil [simp]: "\<not> live d [] w"
  by (simp add: live_def)

lemma step_trans: "step R V L K w K' w' \<Longrightarrow> step R V L K' w' K'' w'' \<Longrightarrow> step R V L K w K'' w''"
  unfolding step_def using keep_trans [of L w w' w''] live_keep [of L w w'] by simp

lemma step_mono: "step R V L K w K' w' \<Longrightarrow> V \<subseteq> V' \<Longrightarrow> step R V' L K w K' w'"
  by (auto simp: step_def)

lemma step_inv: "step R V L K w K' w' \<Longrightarrow> run_inv R (K' @ L) w'"
  by (simp add: step_def)

lemma step_keep: "step R V L K w K' w' \<Longrightarrow> keep L w w'"
  by (simp add: step_def)

lemma goodD:
  assumes "good R run" "run_inv R (K @ L) w"
  shows "run t w = Some (Done (v, w')) \<Longrightarrow> \<exists>K'. step R {} L K w K' w' \<and> (notify_safe t \<longrightarrow> K' = K)"
    "run t w = Some (Jumped (j, w')) \<Longrightarrow> \<exists>K'. step R {} L K w K' w'"
  using assms unfolding good_def by blast+

text \<open>States that agree on everything the invariant is about, the registers of some processors apart.\<close>

definition near :: "cpu_id set \<Rightarrow> ('u, 'c, 'z) world_scheme \<Rightarrow> ('u, 'c, 'z) world_scheme \<Rightarrow> bool" where
  "near D w w' \<longleftrightarrow>
     contexts w' = contexts w \<and> mTopContext w' = mTopContext w \<and> RunContextAlloc w' = RunContextAlloc w \<and>
     (\<forall>c. Contexts (cpus w' c) = Contexts (cpus w c) \<and> cpu_fixed (cpus w' c) = cpu_fixed (cpus w c)) \<and>
     pending w' = pending w \<and> (\<forall>d. d \<notin> D \<longrightarrow> UE w' d = UE w d) \<and>
     (quiet (hooks w) \<longrightarrow> quiet (hooks w')) \<and> (hooked (hooks w) \<longrightarrow> hooked (hooks w'))"

lemma near_refl [simp]: "near D w w"
  by (simp add: near_def)

lemma near_trans: "near D w w' \<Longrightarrow> near D w' w'' \<Longrightarrow> near D w w''"
  by (simp add: near_def)

lemma near_inv: "near D w w' \<Longrightarrow> run_inv R C w \<Longrightarrow> run_inv R C w'"
  by (simp add: near_def run_inv_def ctxs_ok_def)

lemma near_keep: "near D w w' \<Longrightarrow> keep L w w'"
  by (simp add: near_def keep_def)

lemma base_reg_cong:
  "contexts w' = contexts w \<Longrightarrow> UE w' d = UE w d \<Longrightarrow> base_reg E K w' d r = base_reg E K w d r"
  by (simp add: base_reg_def reg_def split: option.split)

lemma near_step:
  assumes "near D w w'" "run_inv R (K @ L) w"
  shows "step R (D \<times> UNIV) L K w K w'"
  unfolding step_def
proof (intro conjI allI impI)
  show "run_inv R (K @ L) w'" "keep L w w'" using assms near_inv near_keep by blast+
  show "base_reg (Env R) K w' d r = base_reg (Env R) K w d r" if "(d, r) \<notin> D \<times> UNIV" for d r
    using assms(1) that by (intro base_reg_cong) (auto simp: near_def)
qed

lemma base_reg_Nil [simp]: "base_reg E [] w d r = reg E d r w"
  by (simp add: base_reg_def)

section \<open>Registers of unwound contexts\<close>

lemma nested_ok_append: "nested_ok h (K @ L) \<Longrightarrow> nested_ok h L"
  by (induction K) auto

lemma nested_ok_flag:
  "nested_ok h (A @ p # B) \<Longrightarrow> q \<in> set B \<Longrightarrow> ctx_Cpu (h q) = ctx_Cpu (h p) \<Longrightarrow> Flags (h p) \<noteq> 0"
  by (induction A) auto

lemma nested_ok_cong:
  "(\<And>p. p \<in> set L \<Longrightarrow> Flags (h' p) = Flags (h p) \<and> ctx_Cpu (h' p) = ctx_Cpu (h p)) \<Longrightarrow> nested_ok h' L = nested_ok h L"
  by (induction L) auto

lemma saved_ok_cong:
  "(\<And>p. p \<in> set L \<Longrightarrow> Flags (h' p) = Flags (h p) \<and> PrevUcContext (h' p) = PrevUcContext (h p)) \<Longrightarrow>
   saved_ok U h' L = saved_ok U h L"
  by (simp add: saved_ok_def)

lemma find_rev_Some:
  assumes "find P (rev K) = Some p"
  obtains A B where "K = A @ p # B" "P p" "\<forall>q \<in> set B. \<not> P q"
proof -
  have "P p \<and> (\<exists>A B. K = A @ p # B \<and> (\<forall>q \<in> set B. \<not> P q))"
    using assms
  proof (induction K rule: rev_induct)
    case (snoc x K)
    show ?case
    proof (cases "P x")
      case True
      with snoc.prems have "x = p" by simp
      then have "P p \<and> K @ [x] = K @ p # [] \<and> (\<forall>q \<in> set []. \<not> P q)" using True by simp
      then show ?thesis by blast
    next
      case False
      with snoc obtain A B where "P p" "K = A @ p # B" "\<forall>q \<in> set B. \<not> P q" by auto
      with False have "P p \<and> K @ [x] = A @ p # (B @ [x]) \<and> (\<forall>q \<in> set (B @ [x]). \<not> P q)" by simp
      then show ?thesis by blast
    qed
  qed simp
  with that show ?thesis by blast
qed

text \<open>
  For a processor with a live context below, these are the registers of a real
  save, so that they do not depend on the engine they are restored into.
\<close>

lemma base_reg_saved:
  assumes "uc_context_ok (UC E)" "nested_ok (contexts w) (K @ L)" "saved_ok (UC E) (contexts w) (K @ L)" "live d L w"
    and "find (\<lambda>p. Cpu_of p w = d) (rev K) = Some p"
  shows "\<exists>u. PrevUcContext (contexts w p) = Some (snd (uc_context_save (UC E) u)) \<and> (\<forall>r. base_reg E K w d r = rd (UC E) u r)"
proof -
  obtain A B where K: "K = A @ p # B" "Cpu_of p w = d" using find_rev_Some [OF assms(5)] by blast
  from assms(4) obtain q where "q \<in> set L" "Cpu_of q w = d" by (auto simp: live_def)
  with assms(2) K have "Flags (contexts w p) \<noteq> 0"
    using nested_ok_flag [of "contexts w" A p "B @ L" q] by simp
  with assms(3) K obtain u where u: "PrevUcContext (contexts w p) = Some (snd (uc_context_save (UC E) u))"
    by (auto simp: saved_ok_def)
  then have "base_reg E K w d r = rd (UC E) u r" for r
    using assms(1,5) by (simp add: base_reg_def uc_context_ok_def)
  with u show ?thesis by blast
qed

lemma base_reg_append:
  "base_reg E (K @ M) w d r = (if live d M w then base_reg E M w d r else base_reg E K w d r)"
proof (cases "find (\<lambda>p. Cpu_of p w = d) (rev M)")
  case None
  then have l: "\<not> live d M w" by (auto simp: live_def find_None_iff)
  have "find P (xs @ ys) = find P ys" if "find P xs = None" for P and xs ys :: "ptr list"
    using that by (induction xs) (auto split: if_splits)
  with None l show ?thesis by (simp add: base_reg_def)
next
  case (Some p)
  then have l: "live d M w" by (auto simp: live_def find_Some_iff in_set_conv_nth) (metis length_rev nth_mem set_rev)
  have "find P (xs @ ys) = Some p" if "find P xs = Some p" for P and xs ys :: "ptr list"
    using that by (induction xs) (auto split: if_splits)
  with Some l show ?thesis by (simp add: base_reg_def)
qed

text \<open>Unwinding: CpuCompressLeakedContexts brings these registers back.\<close>

lemma compress_base_reg:
  assumes "uc_context_ok (UC E)" "ctxs_ok X (K @ L) w" "nested_ok (contexts w) (K @ L)"
    "saved_ok (UC E) (contexts w) (K @ L)" "live d L w"
  shows "reg E d r (compress_state E K L w) = base_reg E K w d r"
proof (cases "find (\<lambda>p. Cpu_of p w = d) (rev K)")
  case None
  then have "\<forall>p \<in> set K. Cpu_of p w = d \<longrightarrow> Flags (contexts w p) = 0" by (auto simp: find_None_iff)
  then show ?thesis
    using None compress_state_UE_keep [of K w d E L] by (simp add: base_reg_def reg_def)
next
  case (Some p)
  obtain A B where K: "K = A @ p # B" "Cpu_of p w = d" "\<forall>q \<in> set B. Cpu_of q w \<noteq> d"
    using find_rev_Some [OF Some] by blast
  from base_reg_saved [OF assms(1,3,4,5) Some] obtain u where
    u: "PrevUcContext (contexts w p) = Some (snd (uc_context_save (UC E) u))" "base_reg E K w d r = rd (UC E) u r"
    by blast
  from assms(5) obtain q where "q \<in> set L" "Cpu_of q w = d" by (auto simp: live_def)
  with assms(3) K have f: "Flags (contexts w p) \<noteq> 0"
    using nested_ok_flag [of "contexts w" A p "B @ L" q] by simp
  have d: "distinct K" using assms(2) by (simp add: ctxs_ok_def)
  have "\<forall>q \<in> set B. Cpu_of q w = Cpu_of p w \<longrightarrow> Flags (contexts w q) = 0" using K by auto
  from compress_state_UE [OF assms(1) K(1) d f this u(1)] K(2) u(2) show ?thesis by (simp add: reg_def)
qed

lemma world_frames [simp]:
  "pending (set_UE c u w) = pending w" "pending (ctx_update p f w) = pending w" "pending (cpu_update c g w) = pending w"
  "pending (free_state p w) = pending w" "pending (alloc_state c p w) = pending w" "pending (leave_state p w) = pending w"
  by (simp_all add: set_UE_def ctx_update_def cpu_update_def free_state_def alloc_state_def leave_state_def)

lemma pending_ASSERT_w [simp]: "pending (ASSERT_w b w) = pending w"
  by (simp add: ASSERT_w_def)

lemma pending_compress_one [simp]: "pending (compress_one E p w) = pending w"
  by (simp add: compress_one_def Let_def)

lemma pending_compress [simp]: "pending (compress_state E K L w) = pending w"
proof -
  have "pending (fold (compress_one E) K w) = pending w" for w :: "('a, 'b, 'c) world_scheme"
    by (induction K arbitrary: w) simp_all
  moreover have "pending (fold free_state K w) = pending w" for w :: "('a, 'b, 'c) world_scheme"
    by (induction K arbitrary: w) simp_all
  ultimately show ?thesis by (simp add: compress_state_def)
qed

lemma compress_leaked:
  fixes w :: "('u, 'c, 'z) world_scheme"
  assumes U: "uc_context_ok (UC (Env R))" and I: "run_inv R (K @ L) w"
    and to: "(if OnImageExit then PrevContext (contexts w p) else Some p) = head L"
  shows "(CpuCompressLeakedContexts (Env R) p OnImageExit w :: ('j, ('u, 'c, 'z) world_scheme) outcome option) =
      Some (Done (compress_state (Env R) K L w))"
    and "step R {} L K w [] (compress_state (Env R) K L w)"
proof -
  let ?w = "compress_state (Env R) K L w"
  have C: "ctxs_ok [] (K @ L) w" and n: "nested_ok (contexts w) (K @ L)"
    and s: "saved_ok (UC (Env R)) (contexts w) (K @ L)" and q: "quiet (hooks w)"
    using I by (simp_all add: run_inv_def)
  note ok = CpuCompressLeakedContexts_ok [OF U C to]
  show "(CpuCompressLeakedContexts (Env R) p OnImageExit w :: ('j, ('u, 'c, 'z) world_scheme) outcome option) =
      Some (Done ?w)" by (rule ok(1))
  have k: "contexts ?w p = contexts w p" if "p \<in> set L" for p
    using that C by (auto simp: compress_state_simps ctxs_ok_def)
  have "nested_ok (contexts ?w) L"
    using nested_ok_append [OF n] by (subst nested_ok_cong [where h = "contexts w"]) (simp_all add: k)
  moreover have "saved_ok (UC (Env R)) (contexts ?w) L"
    using s by (subst saved_ok_cong [where h = "contexts w"]) (simp_all add: k saved_ok_def)
  ultimately have "run_inv R L ?w"
    using ok(2) I by (simp add: run_inv_def compress_state_simps(3) [OF q])
  moreover have "keep L w ?w"
    using k by (simp add: keep_def cpu_fixed_def compress_state_simps)
  ultimately show "step R {} L K w [] ?w"
    unfolding step_def using compress_base_reg [OF U C n s] by simp
qed

lemma check_leaked:
  fixes w :: "('u, 'c, 'z) world_scheme"
  assumes "uc_context_ok (UC (Env R))" "run_inv R (K @ p # C) w"
  shows "\<exists>w'. (NativeThunkCheckLeakedContexts (Env R) p w :: ('j, ('u, 'c, 'z) world_scheme) outcome option) = Some (Done w') \<and>
    step R {} (p # C) K w [] w'"
proof (cases "CpuGetTopContext w = Some p")
  case True
  with assms(2) have "K = []" by (cases K) (auto simp: run_inv_def ctxs_ok_def CpuGetTopContext_def)
  with True show ?thesis
    using near_step [of "{}" w w R "[]" "p # C"] assms(2) by (simp add: NativeThunkCheckLeakedContexts_def)
next
  case False
  have to: "(if False then PrevContext (contexts w p) else Some p) = head (p # C)" by simp
  have "(CpuCompressLeakedContexts (Env R) p False w :: ('j, ('u, 'c, 'z) world_scheme) outcome option) =
      Some (Done (compress_state (Env R) K (p # C) w))"
    by (rule compress_leaked(1) [OF assms to])
  with False compress_leaked(2) [OF assms to] show ?thesis
    by (simp add: NativeThunkCheckLeakedContexts_def)
qed

lemma check_leaked_run:
  fixes w :: "('u, 'c, 'z) world_scheme"
    and r :: "(jump \<times> ('u, 'c, 'z) world_scheme, ('u, 'c, 'z) world_scheme) outcome"
  assumes "uc_context_ok (UC (Env R))" "run_inv R (K @ p # C) w" "NativeThunkCheckLeakedContexts (Env R) p w = Some r"
  shows "\<exists>w'. r = Done w' \<and> step R {} (p # C) K w [] w'"
proof -
  obtain w' where "(NativeThunkCheckLeakedContexts (Env R) p w ::
      (jump \<times> ('u, 'c, 'z) world_scheme, ('u, 'c, 'z) world_scheme) outcome option) = Some (Done w')"
    "step R {} (p # C) K w [] w'"
    using check_leaked [OF assms(1,2)] by blast
  with assms(3) show ?thesis by auto
qed

section \<open>The pieces\<close>

lemma near_simps [simp]:
  "near D w (w\<lparr>mem := m\<rparr>)" "near D w (w\<lparr>Records := rs\<rparr>)" "near D w (w\<lparr>perf_now := k\<rparr>)"
  "near D w (rec_update q f w)"
  by (simp_all add: near_def rec_update_def)

lemma near_set_UE: "c \<in> D \<Longrightarrow> near D w (set_UE c u w)"
  by (auto simp: near_def)

lemma run_engine_near:
  fixes w :: "('u, 'c, 'z) world_scheme"
  assumes "run_engine R c pc w = Some (Done (e, w'))" "quiet (hooks w)"
  shows "near {c} w w'"
  using assms unfolding run_engine_def
  by (auto simp: Let_def read_perf_def near_def cpu_fixed_def CriticalBegin_masked split: option.splits prod.splits if_splits)

lemma near_ASSERT_w [simp]: "near D w0 (ASSERT_w b w) = near D w0 w"
  by (auto simp: near_def ASSERT_w_def ASSERT_def quiet_def hooked_def)

lemma near_rec_update [simp]: "near D w0 (rec_update q f w) = near D w0 w"
  by (simp add: near_def rec_update_def)

lemma near_critical:
  assumes "near D w0 w" "quiet (hooks w0)"
  shows "near D w0 (hooks_update CriticalEnd (ASSERT_w b (hooks_update CriticalBegin w)))"
    "near D w0 (hooks_update (CriticalEnd \<circ> CriticalBegin) w)"
proof -
  have "CriticalEnd (ASSERT b (CriticalBegin h)) = ASSERT b h" if "quiet h" for h
    using that by (simp add: ASSERT_def critical_defs)
  then have "hooks (hooks_update CriticalEnd (ASSERT_w b (hooks_update CriticalBegin w))) = ASSERT b (hooks w)"
    using assms by (simp add: near_def ASSERT_w_def)
  moreover have "quiet (ASSERT b (hooks w))" "hooked (hooks w0) \<longrightarrow> hooked (ASSERT b (hooks w))"
    using assms by (simp_all add: near_def ASSERT_def quiet_def hooked_def)
  ultimately show "near D w0 (hooks_update CriticalEnd (ASSERT_w b (hooks_update CriticalBegin w)))"
    using assms by (simp add: near_def ASSERT_w_def)
  show "near D w0 (hooks_update (CriticalEnd \<circ> CriticalBegin) w)"
    using assms by (simp add: near_def)
qed

lemma NativeUnsupported_near:
  "NativeUnsupported_fn w = Some (Done (v, w')) \<Longrightarrow> w' = w" "NativeUnsupported_fn w \<noteq> Some (Jumped x)"
  by (auto simp: NativeUnsupported_fn_def split: option.splits)

lemma CpuExitImage_near:
  assumes "CpuExitImage_fn A w = Some r" "quiet (hooks w)"
  shows "r = Done (v, w') \<Longrightarrow> near {} w w'" "r = Jumped (j, w') \<Longrightarrow> near {} w w'"
proof -
  show "r = Done (v, w') \<Longrightarrow> near {} w w'"
    using assms unfolding CpuExitImage_fn_def Let_def
    by (auto intro!: near_critical split: option.splits if_splits)
  show "r = Jumped (j, w') \<Longrightarrow> near {} w w'"
    using assms unfolding CpuExitImage_fn_def Let_def
    by (auto intro!: near_critical split: option.splits if_splits)
qed

lemma CreateEvent_near:
  fixes w :: "('u, 'c, 'z) world_scheme"
  assumes "quiet (hooks w)"
    and "EfiWrapperCreateEventCommon_fn S V un pc ra A w = (Done (v, w') :: ('j, efi_status \<times> ('u, 'c, 'z) world_scheme) outcome)"
  shows "near {} w w'"
proof -
  have n: "near {} w w1 \<Longrightarrow> near {} w (w1\<lparr>mem := m, EventRecords := f, mEventList := es, live_records := l\<rparr>)" for w1 m f es l
    by (simp add: near_def)
  obtain w1 where w1: "w1 = (if pc \<noteq> gBS_CreateEvent S then ASSERT_w (pc = gBS_CreateEventEx S) w else w)" "near {} w w1"
    by (auto split: if_splits)
  show ?thesis
    using assms w1(2) unfolding EfiWrapperCreateEventCommon_fn_def Let_def w1(1) [symmetric]
    by (auto simp: near_def split: option.splits prod.splits if_splits)
qed

lemma CloseEvent_near:
  fixes w :: "('u, 'c, 'z) world_scheme"
  assumes "quiet (hooks w)"
    and "EfiWrapperCloseEvent_fn V A w = (Done (v, w') :: ('j, efi_status \<times> ('u, 'c, 'z) world_scheme) outcome)"
  shows "near {} w w'"
  using assms unfolding EfiWrapperCloseEvent_fn_def Let_def
  by (auto simp: near_def split: option.splits)

lemma wrappers_do_not_jump:
  fixes w :: "('u, 'c, 'z) wrap_world_scheme"
  shows "EfiWrapperCreateEventCommon_fn S V un pc ra A w \<noteq> (Jumped j :: ('j, efi_status \<times> ('u, 'c, 'z) wrap_world_scheme) outcome)"
    "EfiWrapperCloseEvent_fn V A w \<noteq> (Jumped j :: ('j, efi_status \<times> ('u, 'c, 'z) wrap_world_scheme) outcome)"
  unfolding EfiWrapperCreateEventCommon_fn_def EfiWrapperCloseEvent_fn_def Let_def
  by (auto split: option.splits prod.splits)

lemma call_wrapper_near:
  fixes w :: "('u, 'c, 'z) world_scheme"
  assumes "quiet (hooks w)"
  shows "call_wrapper R target pc ra A w = Some (Done (v, w')) \<Longrightarrow> near {} w w'"
    "call_wrapper R target pc ra A w = Some (Jumped (j, w')) \<Longrightarrow> near {} w w'"
  using assms
  by (auto simp: call_wrapper_def wrappers_do_not_jump NativeUnsupported_near(2)
      dest: NativeUnsupported_near(1) CreateEvent_near CloseEvent_near CpuExitImage_near(1) [OF _ _ refl]
        CpuExitImage_near(2) [OF _ _ refl]
      split: call_target.splits)

section \<open>Native thunks\<close>

lemma run_inv_quiet: "run_inv R C w \<Longrightarrow> quiet (hooks w)"
  by (simp add: run_inv_def)

lemma native_body:
  fixes w :: "('u, 'c, 'z) world_scheme"
  assumes "good R run" "run_inv R L w"
    and "body = (case target of NativeCall q \<Rightarrow> run (t q) w | _ \<Rightarrow> call_wrapper R target pc ra A (w\<lparr>mem := m\<rparr>))"
  shows "body = Some (Done (v, w')) \<Longrightarrow> \<exists>K. step R {} L [] w K w'"
    "body = Some (Jumped (j, w')) \<Longrightarrow> \<exists>K. step R {} L [] w K w'"
proof -
  have I: "run_inv R ([] @ L) w" using assms(2) by simp
  have q: "quiet (hooks (w\<lparr>mem := m\<rparr>))" using run_inv_quiet [OF assms(2)] by simp
  have n: "step R {} L [] w [] w'" if "near {} (w\<lparr>mem := m\<rparr>) w'"
    using near_step [OF near_trans [OF near_simps(1) that] I] by simp
  note g = goodD [OF assms(1) I] and c = call_wrapper_near [OF q]
  show "body = Some (Done (v, w')) \<Longrightarrow> \<exists>K. step R {} L [] w K w'"
    using g(1) c(1) n unfolding assms(3) by (cases target) (simp; blast)+
  show "body = Some (Jumped (j, w')) \<Longrightarrow> \<exists>K. step R {} L [] w K w'"
    using g(2) c(2) n unfolding assms(3) by (cases target) (simp; blast)+
qed

text \<open>The registers a native thunk may change: the return value, and on X64 the stack pointer, when the return address is popped.\<close>

definition thunk_regs :: "isa_functions \<Rightarrow> uc_reg \<Rightarrow> uc_reg set" where
  "thunk_regs f s = (case f of X64Functions \<Rightarrow> {UC_X86_REG_RAX, s} | AArch64Functions \<Rightarrow> {UC_ARM64_REG_X0})"

lemma set_UE_step:
  assumes "run_inv R L w" "\<And>r. r \<notin> Q \<Longrightarrow> rd (UC (Env R)) u r = reg (Env R) c r w"
  shows "step R ({c} \<times> Q) L [] w [] (set_UE c u w)"
proof -
  have "near {c} w (set_UE c u w)" by (simp add: near_set_UE)
  with assms show ?thesis
    using near_inv [of "{c}" w "set_UE c u w"] near_keep [of "{c}" w "set_UE c u w"]
    by (simp add: step_def reg_def)
qed

lemma same_stack_reg: "keep L w w' \<Longrightarrow> StackReg (cpus w' c) = StackReg (cpus w c)"
proof -
  assume "keep L w w'"
  then have "StackReg (cpu_fixed (cpus w' c)) = StackReg (cpu_fixed (cpus w c))" by (simp add: keep_def)
  then show ?thesis by (simp add: cpu_fixed_def)
qed

text \<open>What both native thunks do: the call, the check for leaked contexts, and the return to emulated code.\<close>

definition thunk_return ::
  "isa_functions \<Rightarrow> ('u, 'c) env \<Rightarrow> cpu_id \<Rightarrow> u64 \<Rightarrow> ('u, 'c, 'z) machine_scheme \<Rightarrow> u64 \<times> ('u, 'c, 'z) machine_scheme" where
  "thunk_return f E c v w = (case f of
      X64Functions \<Rightarrow> CpuStackPop64 E c (REG_WRITE (UC E) c UC_X86_REG_RAX v w)
    | AArch64Functions \<Rightarrow> REG_READ (UC E) c UC_ARM64_REG_LR (REG_WRITE (UC E) c UC_ARM64_REG_X0 v w))"

lemma call_NativeThunk_parts:
  fixes w :: "('u, 'c, 'z) world_scheme"
  assumes "uc_regs_ok (UC (Env R))" "c = Cpu_of p w" "target = NativeValidateSupportedCall (options (Env R)) (bs R) pc"
  obtains ra A B m where "call_NativeThunk f R run p pc w =
      obind (case target of NativeCall q \<Rightarrow> run (native_code R q A) w
             | _ \<Rightarrow> call_wrapper R target pc ra B (w\<lparr>mem := m\<rparr>))
        (\<lambda>(v, w). obind (NativeThunkCheckLeakedContexts (Env R) p w) (\<lambda>w. Some (Done (thunk_return f (Env R) c v w))))"
proof (cases f)
  case X64Functions
  let ?E = "Env R"
  let ?sp = "reg ?E c UC_X86_REG_RSP w" and ?A = "X64_call_args ?E c w"
  let ?m = "store64 (cell ?sp 4) (?A 3) (store64 (cell ?sp 3) (?A 2) (store64 (cell ?sp 2) (?A 1) (store64 (cell ?sp 1) (?A 0) (mem w))))"
  show ?thesis
    by (rule that [of ?A "X64_ret_addr ?E c w" "\<lambda>i. load64 ?m (cell ?sp (i + 1))" ?m])
      (simp add: call_NativeThunk_def X64Functions NativeThunkX64_def X64NativeArgs_ok [OF assms(1)] X64_call_args_def
        X64_ret_addr_def thunk_return_def assms(2,3) Let_def split: call_target.split)
next
  case AArch64Functions
  let ?E = "Env R"
  show ?thesis
    by (rule that [of "AArch64_call_args ?E c w" "AArch64_ret_addr ?E c w" "AArch64_call_args ?E c w" "mem w"])
      (simp add: call_NativeThunk_def AArch64Functions NativeThunkAArch64_def AArch64NativeArgs_ok [OF assms(1)]
        AArch64_call_args_def AArch64_ret_addr_def thunk_return_def assms(2,3) Let_def reg_simps [OF assms(1)] split: call_target.split)
qed

lemma NativeThunk_step:
  fixes w :: "('u, 'c, 'z) world_scheme"
  assumes g: "good R run" and U: "uc_ok (UC (Env R))" and I: "run_inv R (p # C) w" and c: "c = Cpu_of p w"
  shows "call_NativeThunk f R run p pc w = Some (Done (v, w')) \<Longrightarrow>
      step R ({c} \<times> thunk_regs f (StackReg (cpus w c))) (p # C) [] w [] w'"
    "call_NativeThunk f R run p pc w = Some (Jumped (j, w')) \<Longrightarrow> \<exists>K. step R {} (p # C) [] w K w'"
proof -
  let ?E = "Env R" and ?L = "p # C"
  let ?V = "{c} \<times> thunk_regs f (StackReg (cpus w c))"
  have r: "uc_regs_ok (UC ?E)" and x: "uc_context_ok (UC ?E)" using U by (simp_all add: uc_ok_def)
  define target where "target = NativeValidateSupportedCall (options ?E) (bs R) pc"
  let ?fin = "thunk_return f ?E c :: u64 \<Rightarrow> ('u, 'c, 'z) world_scheme \<Rightarrow> _"
  have tail: "step R ?V ?L [] w [] w'"
    if s1: "step R {} ?L [] w K w1" and l: "NativeThunkCheckLeakedContexts ?E p w1 =
        (Some (Done w2) :: (jump \<times> ('u, 'c, 'z) world_scheme, ('u, 'c, 'z) world_scheme) outcome option)"
      and f: "?fin x w2 = (v, w')" for K w1 w2 x
  proof -
    from check_leaked_run [OF x step_inv [OF s1] l] have "step R {} ?L K w1 [] w2" by simp
    with s1 have s2: "step R {} ?L [] w [] w2" by (rule step_trans)
    have sr: "StackReg (cpus w2 c) = StackReg (cpus w c)" by (rule same_stack_reg [OF step_keep [OF s2]])
    have I2: "run_inv R ?L w2" using step_inv [OF s2] by simp
    have "\<exists>u. w' = set_UE c u w2 \<and> (\<forall>r. r \<notin> thunk_regs f (StackReg (cpus w c)) \<longrightarrow> rd (UC ?E) u r = reg ?E c r w2)"
      using f by (cases f) (auto simp: thunk_return_def reg_simps [OF r] CpuStackPop64_ok [OF r] rd_wr [OF r] Let_def sr
          reg_def thunk_regs_def)
    then have "step R ?V ?L [] w2 [] w'"
      using set_UE_step [OF I2] by blast
    with step_mono [OF s2] show ?thesis by (blast intro: step_trans)
  qed
  obtain ra A B m where eq: "call_NativeThunk f R run p pc w =
      obind (case target of NativeCall q \<Rightarrow> run (native_code R q A) w
             | _ \<Rightarrow> call_wrapper R target pc ra B (w\<lparr>mem := m\<rparr>))
        (\<lambda>(v, w). obind (NativeThunkCheckLeakedContexts ?E p w) (\<lambda>w. Some (Done (?fin v w))))"
    by (rule call_NativeThunk_parts [OF r c target_def])
  let ?body = "case target of NativeCall q \<Rightarrow> run (native_code R q A) w
        | _ \<Rightarrow> call_wrapper R target pc ra B (w\<lparr>mem := m\<rparr>)"
  note body = native_body [OF g I, where t = "\<lambda>q. native_code R q A" and target = target and pc = pc and ra = ra and A = B and m = m, OF refl]
  show "step R ?V ?L [] w [] w'" if d: "call_NativeThunk f R run p pc w = Some (Done (v, w'))"
  proof -
    from d obtain x w1 w2 where 1: "?body = Some (Done (x, w1))"
      and 2: "NativeThunkCheckLeakedContexts ?E p w1 = (Some (Done w2) :: (jump \<times> ('u, 'c, 'z) world_scheme, ('u, 'c, 'z) world_scheme) outcome option)"
      and 3: "?fin x w2 = (v, w')"
      unfolding eq by (auto simp: obind_Done)
    from body(1) [OF 1] obtain K where "step R {} ?L [] w K w1" by blast
    from tail [OF this 2 3] show ?thesis .
  qed
  show "\<exists>K. step R {} ?L [] w K w'" if d: "call_NativeThunk f R run p pc w = Some (Jumped (j, w'))"
  proof (cases "?body = Some (Jumped (j, w'))")
    case True
    then show ?thesis by (rule body(2))
  next
    case False
    with d obtain x w1 where 1: "?body = Some (Done (x, w1))"
      and 2: "NativeThunkCheckLeakedContexts ?E p w1 = (Some (Jumped (j, w')) :: (jump \<times> ('u, 'c, 'z) world_scheme, ('u, 'c, 'z) world_scheme) outcome option)"
      unfolding eq by (auto simp: obind_Jumped)
    from body(1) [OF 1] obtain K where "step R {} ?L [] w K w1" by blast
    from check_leaked_run [OF x step_inv [OF this] 2] show ?thesis by simp
  qed
qed

section \<open>The emulation loop\<close>

lemma interrupt_window_step:
  fixes w :: "('u, 'c, 'z) world_scheme"
  assumes g: "good R run" and I: "run_inv R L w"
  shows "interrupt_window run w = Some (Done w') \<Longrightarrow> step R {} L [] w [] w'"
    "interrupt_window run w = Some (Jumped (j, w')) \<Longrightarrow> \<exists>K. step R {} L [] w K w'"
proof -
  have refl: "step R {} L [] w [] w" using near_step [of "{}" w w R "[]" L] I by simp
  have "step R {} L [] w [] (w\<lparr>pending := ts\<rparr>)" "notify_safe t" if "pending w = t # ts" for t ts
    using that I by (simp_all add: step_def run_inv_def ctxs_ok_def keep_def reg_def)
  note p = this
  have g': "run t (w\<lparr>pending := ts\<rparr>) = Some (Done (v, w')) \<Longrightarrow> step R {} L [] w [] w'"
    "run t (w\<lparr>pending := ts\<rparr>) = Some (Jumped (j, w')) \<Longrightarrow> \<exists>K. step R {} L [] w K w'"
    if "pending w = t # ts" for t ts v
    using goodD [OF g step_inv [OF p(1) [OF that]]] p [OF that] step_trans [OF p(1) [OF that]] by blast+
  show "interrupt_window run w = Some (Done w') \<Longrightarrow> step R {} L [] w [] w'"
    using refl g'(1) by (auto simp: interrupt_window_def obind_Done split: list.splits if_splits)
  show "interrupt_window run w = Some (Jumped (j, w')) \<Longrightarrow> \<exists>K. step R {} L [] w K w'"
    using g'(2) by (auto simp: interrupt_window_def obind_Jumped split: list.splits if_splits)
qed

lemma run_engine_Jumped: "run_engine R c pc w \<noteq> Some (Jumped j)"
  by (auto simp: run_engine_def Let_def split: option.splits prod.splits)

lemma emulation_loop_step:
  fixes w :: "('u, 'c, 'z) world_scheme"
  assumes g: "good R run" and U: "uc_ok (UC (Env R))" and "run_inv R (p # C) w" "c = Cpu_of p w"
  shows "(emulation_loop R run n p c pc w = Some (Done (reason, w')) \<longrightarrow> step R ({c} \<times> UNIV) (p # C) [] w [] w') \<and>
    (emulation_loop R run n p c pc w = Some (Jumped (j, w')) \<longrightarrow> (\<exists>K. step R ({c} \<times> UNIV) (p # C) [] w K w'))"
  using assms(3,4)
proof (induction n arbitrary: pc w)
  case 0
  then show ?case by simp
next
  case (Suc n)
  let ?V = "{c} \<times> UNIV :: (cpu_id \<times> uc_reg) set" and ?L = "p # C"
  let ?res = "\<lambda>x. (x = Some (Done (reason, w')) \<longrightarrow> step R ?V ?L [] w [] w') \<and>
    (x = Some (Jumped (j, w')) \<longrightarrow> (\<exists>K. step R ?V ?L [] w K w'))"
  have r: "uc_regs_ok (UC (Env R))" using U by (simp add: uc_ok_def)
  have on: "?res (emulation_loop R run n p c pc' w1)" if s: "step R ?V ?L [] w [] w1" for pc' w1
  proof -
    have "c = Cpu_of p w1" using step_keep [OF s] Suc.prems(2) by (simp add: keep_def)
    from Suc.IH [OF _ this, of pc'] step_inv [OF s] show ?thesis
      using step_trans [OF s] by auto
  qed
  obtain o1 where o1: "run_engine R c pc w = o1" by simp
  show ?case
  proof (cases "\<exists>e w1. o1 = Some (Done (e, w1))")
    case False
    with run_engine_Jumped [of R c pc w] show ?thesis
      unfolding o1 by (cases o1; cases "the o1") (auto simp: o1)
  next
    case True
    then obtain e w1 where e: "run_engine R c pc w = Some (Done (e, w1))" using o1 by blast
    have s1: "step R ?V ?L [] w [] w1"
      using near_step [OF run_engine_near [OF e run_inv_quiet [OF Suc.prems(1)]], of R "[]" ?L] Suc.prems(1) by simp
    then have I1: "run_inv R ?L w1" by (simp add: step_def)
    show ?thesis
    proof (cases "\<exists>w2. interrupt_window run w1 = Some (Done w2)")
      case False
      then have "emulation_loop R run (Suc n) p c pc w = Some (Jumped (j, w')) \<Longrightarrow>
          interrupt_window run w1 = Some (Jumped (j, w'))"
        "emulation_loop R run (Suc n) p c pc w \<noteq> Some (Done (reason, w'))"
        by (auto simp: e obind_Jumped obind_Done)
      with interrupt_window_step(2) [OF g I1] show ?thesis
        using step_mono step_trans [OF s1] by blast
    next
      case True
      then obtain w2 where w2: "interrupt_window run w1 = Some (Done w2)" by blast
      have s2: "step R ?V ?L [] w [] w2"
        using step_mono [OF interrupt_window_step(1) [OF g I1 w2]] step_trans [OF s1] by blast
      then have I2: "run_inv R ?L w2" by (simp add: step_def)
      have c2: "c = Cpu_of p w2" using step_keep [OF s2] Suc.prems(2) by (simp add: keep_def)
      let ?pc = "rd (UC (Env R)) (UE w2 c) (ProgramCounterReg (cpus w2 c))"
      note unf = emulation_loop.simps(2) [of R run n p c pc w] e w2 REG_READ_ok [OF r]
      show ?thesis
      proof (cases "exit_reason (Env R) e ?pc")
        case CPU_REASON_NONE
        have "near {} w2 (ASSERT_w (?pc \<noteq> 0) w2)" by simp
        from near_step [OF this, of R "[]" ?L] I2 have "step R ?V ?L [] w2 [] (ASSERT_w (?pc \<noteq> 0) w2)"
          using step_mono by fastforce
        from on [OF step_trans [OF s2 this]] show ?thesis by (simp add: unf CPU_REASON_NONE)
      next
        case CPU_REASON_CALL_TO_NATIVE
        show ?thesis
        proof (cases "NativeThunk (cpus w2 c)")
          case None
          then show ?thesis by (simp add: unf CPU_REASON_CALL_TO_NATIVE)
        next
          case (Some f)
          note t = NativeThunk_step [OF g U I2 c2, of f ?pc]
          have "?res (obind (call_NativeThunk f R run p ?pc w2) (\<lambda>(pc, w). emulation_loop R run n p c pc w))"
          proof (cases "call_NativeThunk f R run p ?pc w2")
            case (Some x)
            show ?thesis
            proof (cases x)
              case (Done y)
              obtain pc3 w3 where y: "y = (pc3, w3)" by (cases y)
              with t(1) Some Done have "step R ({c} \<times> thunk_regs f (StackReg (cpus w2 c))) ?L [] w2 [] w3" by simp
              then have "step R ?V ?L [] w2 [] w3" by (rule step_mono) auto
              from on [OF step_trans [OF s2 this]] show ?thesis by (simp add: Some Done y)
            next
              case (Jumped y)
              have "\<exists>K. step R ?V ?L [] w K w'" if "y = (j, w')"
              proof -
                from that t(2) Some Jumped obtain K where "step R {} ?L [] w2 K w'" by auto
                then have "step R ?V ?L [] w2 K w'" by (rule step_mono) simp
                with step_trans [OF s2] show ?thesis by blast
              qed
              then show ?thesis by (simp add: Some Jumped)
            qed (simp add: Some)
          qed simp
          then show ?thesis by (simp add: unf CPU_REASON_CALL_TO_NATIVE Some)
        qed
      qed (use s2 in \<open>auto simp: unf\<close>)
    qed
  qed
qed

lemma near_mem [simp]: "near D w0 (w\<lparr>mem := m\<rparr>) = near D w0 w"
  by (simp add: near_def)

lemma near_set_UE_eq [simp]: "c \<in> D \<Longrightarrow> near D w0 (set_UE c u w) = near D w0 w"
  by (auto simp: near_def)

lemma EmuThunk_near:
  fixes w :: "('u, 'c, 'z) world_scheme"
  assumes U: "uc_regs_ok (UC E)"
  shows "near {c} w (call_EmuThunkPre f E c A w)" "near {c} w (call_EmuThunkPost f E c A w)"
proof -
  have push: "near {c} w0 w \<Longrightarrow> length xs < 2 ^ 56 \<Longrightarrow> near {c} w0 (fold (CpuStackPush64 E c) xs w)"
    for w0 w :: "('u, 'c, 'z) world_scheme" and xs
    using pushes [OF U, where xs = xs and w = w and c = c] by auto
  show "near {c} w (call_EmuThunkPre f E c A w)"
    by (cases f) (simp_all add: call_EmuThunkPre_def CpuX64EmuThunkPre_eq [OF U] CpuAArch64EmuThunkPre_eq [OF U]
        REG_WRITE_ok [OF U] push)
  show "near {c} w (call_EmuThunkPost f E c A w)"
  proof (cases f)
    case X64Functions
    then show ?thesis
      using X64_post [OF U refl, where w = w and c = c and A = A] by (auto simp: call_EmuThunkPost_def)
  next
    case AArch64Functions
    then show ?thesis
      using AArch64_post [OF U refl, where w = w and c = c and A = A] by (auto simp: call_EmuThunkPost_def)
  qed
qed

lemma CpuRunCtxInternal_step:
  fixes w :: "('u, 'c, 'z) world_scheme"
  assumes g: "good R run" and U: "uc_ok (UC (Env R))" and I: "run_inv R (p # C) w" and c: "c = Cpu_of p w"
  shows "CpuRunCtxInternal R run n p w = Some (Done (v, w')) \<Longrightarrow> step R ({c} \<times> UNIV) (p # C) [] w [] w'"
    "CpuRunCtxInternal R run n p w = Some (Jumped (j, w')) \<Longrightarrow> \<exists>K. step R ({c} \<times> UNIV) (p # C) [] w K w'"
proof -
  let ?E = "Env R" and ?V = "{c} \<times> UNIV :: (cpu_id \<times> uc_reg) set" and ?L = "p # C"
  let ?A = "Args (contexts w p)" and ?pc = "ProgramCounter (contexts w p)"
  have r: "uc_regs_ok (UC ?E)" using U by (simp add: uc_ok_def)
  have loop: "(emulation_loop R run n p c ?pc (call_EmuThunkPre f ?E c ?A w) = Some (Done (x, w1)) \<longrightarrow> step R ?V ?L [] w [] w1) \<and>
      (emulation_loop R run n p c ?pc (call_EmuThunkPre f ?E c ?A w) = Some (Jumped (j, w1)) \<longrightarrow> (\<exists>K. step R ?V ?L [] w K w1))"
    for f x w1
  proof -
    let ?w = "call_EmuThunkPre f ?E c ?A w"
    have s: "step R ?V ?L [] w [] ?w"
      using near_step [OF EmuThunk_near(1) [OF r, of c w f ?A], of R "[]" ?L] I by simp
    moreover have "c = Cpu_of p ?w" using step_keep [OF s] c by (simp add: keep_def)
    ultimately show ?thesis
      using emulation_loop_step [OF g U, of p C ?w c n ?pc x w1 j] step_inv [OF s] step_trans [OF s] by auto
  qed
  show "CpuRunCtxInternal R run n p w = Some (Done (v, w')) \<Longrightarrow> step R ?V ?L [] w [] w'"
  proof -
    assume d: "CpuRunCtxInternal R run n p w = Some (Done (v, w'))"
    then obtain f where f: "EmuThunkPre (cpus w c) = Some f"
      by (auto simp: CpuRunCtxInternal_def Let_def c [symmetric] split: option.splits)
    with d obtain x w1 where 1: "emulation_loop R run n p c ?pc (call_EmuThunkPre f ?E c ?A w) = Some (Done (x, w1))"
      and "(if x \<noteq> CPU_REASON_FAILED_EMU then
          (case EmuThunkPost (cpus w1 c) of
             None \<Rightarrow> Some (Crashed NULL_dereference)
           | Some post \<Rightarrow> let w = call_EmuThunkPost post ?E c ?A w1 in Some (Done (REG_READ (UC ?E) c (ReturnValueReg (cpus w c)) w)))
        else Some (Done (EFI_UNSUPPORTED, w1))) = (Some (Done (v, w')) :: (u64, ('u, 'c, 'z) world_scheme) run)"
      by (auto simp: CpuRunCtxInternal_def Let_def c [symmetric] obind_Done)
    then have 2: "w' = w1 \<or> (\<exists>h. w' = call_EmuThunkPost h ?E c ?A w1)"
      by (auto simp: Let_def REG_READ_ok [OF r] split: option.splits if_splits)
    from loop 1 have s: "step R ?V ?L [] w [] w1" by blast
    from 2 have "near {c} w1 w'" using EmuThunk_near(2) [OF r] by auto
    from near_step [OF this, of R "[]" ?L] step_inv [OF s] have "step R ?V ?L [] w1 [] w'" by simp
    with s show ?thesis by (rule step_trans)
  qed
  show "CpuRunCtxInternal R run n p w = Some (Jumped (j, w')) \<Longrightarrow> \<exists>K. step R ?V ?L [] w K w'"
    using loop by (auto simp: CpuRunCtxInternal_def Let_def c [symmetric] obind_Jumped split: option.splits if_splits)
qed

section \<open>Entering and leaving a context\<close>

lemma base_reg_same:
  assumes "uc_context_ok (UC E)" "nested_ok (contexts w) (K @ L)" "saved_ok (UC E) (contexts w) (K @ L)"
    "live d K w" "live d L w" "\<forall>p \<in> set K. contexts w' p = contexts w p"
  shows "base_reg E K w' d r = base_reg E K w d r"
proof -
  have "find (\<lambda>p. Cpu_of p w' = d) (rev K) = find (\<lambda>p. Cpu_of p w = d) (rev K)"
    using assms(6) by (intro find_cong) auto
  moreover from assms(4) obtain p where p: "find (\<lambda>p. Cpu_of p w = d) (rev K) = Some p"
    by (cases "find (\<lambda>p. Cpu_of p w = d) (rev K)") (auto simp: live_def find_None_iff)
  moreover have "p \<in> set K" using find_rev_Some [OF p] by (metis in_set_conv_decomp)
  moreover obtain u where "PrevUcContext (contexts w p) = Some (snd (uc_context_save (UC E) u))"
    using base_reg_saved [OF assms(1-3,5) p] by blast
  ultimately show ?thesis
    using assms(1,6) by (simp add: base_reg_def uc_context_ok_def)
qed

text \<open>What happened above K @ L, seen from L.\<close>

lemma step_lift:
  assumes U: "uc_context_ok (UC (Env R))" and I: "run_inv R (K @ L) w" and s: "step R V (K @ L) [] w K1 w'"
    and V: "\<forall>(d, r) \<in> V. live d K w"
  shows "step R {} L K w (K1 @ K) w'"
proof -
  have k: "keep K w w'" "keep L w w'" using step_keep [OF s] by (simp_all add: keep_append)
  have "base_reg (Env R) (K1 @ K) w' d r = base_reg (Env R) K w d r" if l: "live d L w" for d r
  proof (cases "live d K w")
    case True
    then have "live d K w'" using live_keep [OF k(1)] by simp
    moreover have "base_reg (Env R) K w' d r = base_reg (Env R) K w d r"
      using I k(1) by (intro base_reg_same [OF U _ _ True l]) (simp_all add: run_inv_def keep_def)
    ultimately show ?thesis by (simp add: base_reg_append)
  next
    case False
    then have "\<not> live d K w'" using live_keep [OF k(1)] by simp
    moreover have "base_reg (Env R) K1 w' d r = reg (Env R) d r w"
      using s l False V by (auto simp: step_def)
    moreover have "base_reg (Env R) K w d r = reg (Env R) d r w"
    proof -
      have "find (\<lambda>p. Cpu_of p w = d) (rev K) = None" using False by (auto simp: find_None_iff live_def)
      then show ?thesis by (simp add: base_reg_def)
    qed
    ultimately show ?thesis by (simp add: base_reg_append)
  qed
  with step_inv [OF s] k(2) show ?thesis by (simp add: step_def)
qed

lemma ctxs_ok_upd:
  assumes "ctxs_ok X L w" "contexts w' = (contexts w)(p := x)" "ctx_Cpu x = Cpu_of p w"
    "PrevUcContext x = None \<Longrightarrow> PrevUcContext (contexts w p) = None"
    "p \<in> set L \<Longrightarrow> PrevContext x = PrevContext (contexts w p) \<and> Flags x \<in> {0, 1}"
    "mTopContext w' = mTopContext w" "RunContextAlloc w' = RunContextAlloc w" "\<And>c. Contexts (cpus w' c) = Contexts (cpus w c)"
  shows "ctxs_ok X L w'"
proof -
  have "chain (contexts w') (mTopContext w) L = chain (contexts w) (mTopContext w) L"
    using assms(2,5) by (intro chain_cong) auto
  moreover have "pools_ok (RunContextAlloc w) (contexts w')"
    using assms(1-4) by (simp add: ctxs_ok_def pools_ok_upd)
  moreover have "Cpu_of q w' = Cpu_of q w" for q using assms(2,3) by simp
  moreover have "Flags (contexts w' q) \<in> {0, 1}" if "q \<in> set L" for q
    using that assms(1,2,5) by (auto simp: ctxs_ok_def)
  ultimately show ?thesis using assms(1,6-8) by (simp add: ctxs_ok_def)
qed

text \<open>A context that is allocated and prepared, above the live contexts C.\<close>

definition ready :: "('u, 'c) run_env \<Rightarrow> ptr \<Rightarrow> ptr list \<Rightarrow> ('u, 'c, 'z) world_scheme \<Rightarrow> bool" where
  "ready R p C w \<longleftrightarrow>
     ctxs_ok [p] C w \<and> Flags (contexts w p) = 0 \<and> quiet (hooks w) \<and> hooked (hooks w) \<and> nested_ok (contexts w) C \<and>
     saved_ok (UC (Env R)) (contexts w) C \<and> list_all notify_safe (pending w)"

text \<open>CpuRunCtxOnPrivateStack up to the emulation: the registers of the caller are saved when the processor is in use.\<close>

definition start_state ::
  "('u, 'c) env \<Rightarrow> ptr \<Rightarrow> ('u, 'c, 'z) cpu_world_scheme \<Rightarrow> ('u, 'c, 'z) cpu_world_scheme" where
  "start_state E p w =
     (if Contexts (cpus w (Cpu_of p w)) > 1 then
        CpuStackPushRedZone E (Cpu_of p w)
          (ctx_update p (\<lambda>x. x\<lparr>Flags := Flags x OR CRC_HAVE_SAVED_UC_CONTEXT\<rparr>) (save_uc_context E p w))
      else
        let (UcErr, u) = uc_context_restore (UC E) (UE w (Cpu_of p w)) (InitialState (cpus w (Cpu_of p w)))
        in ASSERT_w (UcErr = UC_ERR_OK) (set_UE (Cpu_of p w) u w))"

lemma start_step:
  fixes w :: "('u, 'c, 'z) world_scheme"
  assumes U: "uc_ok (UC (Env R))" and r: "ready R p C w"
  shows "step R {} C [] w [p] (start_state (Env R) p (hooks_update CriticalEnd (CpuEnterCritical p w)))"
proof -
  let ?E = "Env R" and ?c = "Cpu_of p w"
  define w1 where "w1 = hooks_update CriticalEnd (CpuEnterCritical p w)"
  have x: "uc_context_ok (UC ?E)" and rg: "uc_regs_ok (UC ?E)" using U by (simp_all add: uc_ok_def)
  have "p \<notin> set C" using r by (simp add: ready_def ctxs_ok_def)
  have w1: "contexts w1 = (contexts w)(p := (contexts w p)\<lparr>PrevContext := mTopContext w\<rparr>)" "UE w1 = UE w"
    "hooks w1 = hooks w" "pending w1 = pending w" "\<And>c. cpu_fixed (cpus w1 c) = cpu_fixed (cpus w c)"
    using r by (simp_all add: w1_def CpuEnterCritical_def Let_def ready_def cpu_fixed_def)
  have "ctxs_ok [] (p # C) (CpuEnterCritical p w)" using r by (intro CpuEnterCritical_ok) (simp_all add: ready_def)
  then have C1: "ctxs_ok [] (p # C) w1" unfolding w1_def ctxs_ok_def by simp
  have cc: "Cpu_of q w1 = Cpu_of q w" for q by (simp add: w1)
  have "Contexts (cpus w1 ?c) = int (length (filter (\<lambda>q. Cpu_of q w = ?c) (p # C)))"
    using C1 unfolding ctxs_ok_def cc by blast
  then have "Contexts (cpus w1 ?c) > 1 \<longleftrightarrow> filter (\<lambda>q. Cpu_of q w = ?c) C \<noteq> []" by simp
  then have live: "Contexts (cpus w1 ?c) > 1 \<longleftrightarrow> live ?c C w"
    by (auto simp: live_def filter_empty_conv)
  let ?u = "UE w ?c" and ?s = "StackReg (cpus w1 ?c)"
  define x1 where "x1 = contexts w1 p"
  define w3 where "w3 = start_state ?E p w1"
  have "\<exists>x u. w3 = set_UE ?c u (w1\<lparr>contexts := (contexts w1)(p := x)\<rparr>) \<and>
      ctx_Cpu x = ?c \<and> PrevContext x = PrevContext x1 \<and>
      (live ?c C w \<longrightarrow> Flags x = 1 \<and> PrevUcContext x = Some (snd (uc_context_save (UC ?E) ?u))) \<and>
      (\<not> live ?c C w \<longrightarrow> x = x1)"
  proof (cases "live ?c C w")
    case True
    let ?x = "x1\<lparr>PrevUcContext := Some (snd (uc_context_save (UC ?E) ?u)), Flags := 1\<rparr>"
    have f: "fst (uc_context_save (UC ?E) ?u) = UC_ERR_OK" using x by (simp add: uc_context_ok_def)
    show ?thesis
      by (rule exI [of _ ?x], rule exI [of _ "wr (UC ?E) ?s (rd (UC ?E) ?u ?s - 128) ?u"])
        (use True live f r in \<open>simp add: w3_def start_state_def save_uc_context_def CpuStackPushRedZone_def x1_def w1
          reg_simps [OF rg] ctx_update_def set_UE_def case_prod_beta ready_def\<close>)
  next
    case False
    have f: "fst (uc_context_restore (UC ?E) ?u c) = UC_ERR_OK" for c using x by (simp add: uc_context_ok_def)
    show ?thesis
      by (rule exI [of _ x1], rule exI [of _ "snd (uc_context_restore (UC ?E) ?u (InitialState (cpus w1 ?c)))"])
        (use False live f in \<open>simp add: w3_def start_state_def x1_def w1 case_prod_beta set_UE_def\<close>)
  qed
  then obtain x u where x3: "w3 = set_UE ?c u (w1\<lparr>contexts := (contexts w1)(p := x)\<rparr>)"
    "ctx_Cpu x = ?c" "PrevContext x = PrevContext x1"
    and lv: "live ?c C w \<Longrightarrow> Flags x = 1 \<and> PrevUcContext x = Some (snd (uc_context_save (UC ?E) ?u))"
    and nl: "\<not> live ?c C w \<Longrightarrow> x = x1"
    by blast
  have c3: "contexts w3 = (contexts w1)(p := x)" using x3(1) by simp
  have k: "contexts w3 q = contexts w q" if "q \<in> set C" for q
    using that \<open>p \<notin> set C\<close> by (auto simp: c3 w1)
  have fx: "Flags x \<in> {0, 1}" "Flags x \<noteq> 0 \<longleftrightarrow> live ?c C w"
    using lv nl r by (cases "live ?c C w"; simp add: x1_def w1 ready_def)+
  have "ctxs_ok [] (p # C) w3"
  proof (rule ctxs_ok_upd [OF C1 c3])
    show "ctx_Cpu x = Cpu_of p w1" by (simp add: x3 w1)
    show "PrevUcContext (contexts w1 p) = None" if "PrevUcContext x = None"
      using that lv nl by (cases "live ?c C w") (simp_all add: x1_def)
    show "PrevContext x = PrevContext (contexts w1 p) \<and> Flags x \<in> {0, 1}" using fx by (simp add: x3 x1_def)
  qed (simp_all add: x3(1))
  moreover have "nested_ok (contexts w3) (p # C)"
  proof -
    have "nested_ok (contexts w3) C"
      using r by (subst nested_ok_cong [where h = "contexts w"]) (simp_all add: k ready_def)
    moreover have "ctx_Cpu (contexts w3 q) = Cpu_of q w" if "q \<in> set C" for q using that by (simp add: k)
    moreover have "contexts w3 p = x" by (simp add: c3)
    ultimately show ?thesis using fx(2) x3(2) by (simp add: live_def)
  qed
  moreover have "saved_ok (UC ?E) (contexts w3) (p # C)"
  proof -
    have "saved_ok (UC ?E) (contexts w3) C"
      using r by (subst saved_ok_cong [where h = "contexts w"]) (simp_all add: k ready_def)
    moreover have "\<exists>u. PrevUcContext x = Some (snd (uc_context_save (UC ?E) u))" if "Flags x \<noteq> 0"
      using that fx(2) lv by blast
    ultimately show ?thesis by (simp add: saved_ok_def c3)
  qed
  moreover have "hooks w3 = hooks w" "pending w3 = pending w" by (simp_all add: x3(1) w1)
  ultimately have I3: "run_inv R (p # C) w3"
    using r by (simp add: run_inv_def ready_def)
  have "keep C w w3"
  proof -
    have "cpu_fixed (cpus w3 c) = cpu_fixed (cpus w c)" for c using w1(5) by (simp add: x3(1))
    with k show ?thesis by (simp add: keep_def)
  qed
  moreover have "base_reg ?E [p] w3 d q = reg ?E d q w" if "live d C w" for d q
  proof (cases "d = ?c")
    case True
    with that lv x show ?thesis by (simp add: base_reg_def reg_def c3 x3(2) uc_context_ok_def)
  next
    case False
    then show ?thesis by (simp add: base_reg_def reg_def c3 x3 w1)
  qed
  ultimately show ?thesis
    using I3 by (simp add: step_def w3_def w1_def)
qed

text \<open>The end of CpuRunCtxOnPrivateStack: the registers of the caller are restored.\<close>

definition finish_state ::
  "('u, 'c) env \<Rightarrow> ptr \<Rightarrow> u64 \<Rightarrow> ('u, 'c, 'z) cpu_world_scheme \<Rightarrow> ('u, 'c, 'z) cpu_world_scheme" where
  "finish_state E p v w =
     (let w = ctx_update p (\<lambda>x. x\<lparr>Ret := v\<rparr>) w
      in if Flags (contexts w p) AND CRC_HAVE_SAVED_UC_CONTEXT \<noteq> 0
         then ctx_update p (\<lambda>x. x\<lparr>Flags := Flags x XOR CRC_HAVE_SAVED_UC_CONTEXT\<rparr>) (restore_uc_context E p w)
         else w)"

lemma finish_step:
  fixes w :: "('u, 'c, 'z) world_scheme"
  assumes U: "uc_context_ok (UC (Env R))" and I: "run_inv R (p # C) w"
  shows "\<exists>w1 w'. (CpuLeaveCritical p (finish_state (Env R) p v w) :: ('j, ('u, 'c, 'z) world_scheme) outcome) = Done w1 \<and>
    w' = hooks_update CriticalEnd w1 \<and> ready R p C w' \<and> keep C w w' \<and> Ret (contexts w1 p) = v \<and>
    (\<forall>d r. live d C w \<longrightarrow> reg (Env R) d r w' = base_reg (Env R) [p] w d r)"
proof -
  let ?E = "Env R" and ?c = "Cpu_of p w"
  have C: "ctxs_ok [] (p # C) w" and n: "nested_ok (contexts w) (p # C)"
    and s: "saved_ok (UC ?E) (contexts w) (p # C)" and q: "quiet (hooks w)"
    using I by (simp_all add: run_inv_def)
  have new: "p \<notin> set C" and f: "Flags (contexts w p) \<in> {0, 1}" using C by (simp_all add: ctxs_ok_def)
  let ?x = "(contexts w p)\<lparr>Ret := v, Flags := 0\<rparr>"
  let ?u = "if Flags (contexts w p) = 0 then UE w ?c
    else snd (uc_context_restore (UC ?E) (UE w ?c) (the (PrevUcContext (contexts w p))))"
  define w2 where "w2 = finish_state ?E p v w"
  have w2: "w2 = set_UE ?c ?u (w\<lparr>contexts := (contexts w)(p := ?x)\<rparr>)"
  proof (cases "Flags (contexts w p) = 0")
    case True
    then have x: "(contexts w p)\<lparr>Ret := v\<rparr> = ?x" by (cases "contexts w p") simp
    have "w2 = w\<lparr>contexts := (contexts w)(p := (contexts w p)\<lparr>Ret := v\<rparr>)\<rparr>"
      using True by (simp add: w2_def finish_state_def ctx_update_def)
    also have "\<dots> = w\<lparr>contexts := (contexts w)(p := ?x)\<rparr>" by (subst x) (rule refl)
    also have "\<dots> = set_UE ?c (UE w ?c) (w\<lparr>contexts := (contexts w)(p := ?x)\<rparr>)"
      using set_UE_simps(6) [of ?c "w\<lparr>contexts := (contexts w)(p := ?x)\<rparr>"] by simp
    finally show ?thesis using True by simp
  next
    case False
    with f s obtain u where "Flags (contexts w p) = 1" "PrevUcContext (contexts w p) = Some (snd (uc_context_save (UC ?E) u))"
      by (auto simp: saved_ok_def)
    moreover have "fst (uc_context_restore (UC ?E) (UE w ?c) c) = UC_ERR_OK" for c using U by (simp add: uc_context_ok_def)
    ultimately show ?thesis
      by (simp add: w2_def finish_state_def ctx_update_def restore_uc_context_def Let_def case_prod_beta set_UE_def)
  qed
  have c2: "contexts w2 = (contexts w)(p := ?x)" by (simp add: w2)
  have C2: "ctxs_ok [] (p # C) w2"
    by (rule ctxs_ok_upd [OF C c2]) (simp_all add: w2)
  note leave = CpuLeaveCritical_ok [OF C2]
  define w' where "w' = hooks_update CriticalEnd (leave_state p w2)"
  have w': "contexts w' = (contexts w)(p := ?x)" "UE w' = UE w2" "hooks w' = hooks w" "pending w' = pending w"
    using q by (simp_all add: w'_def leave_state_def c2) (simp_all add: w2)
  have k: "contexts w' x = contexts w x" if "x \<in> set C" for x using that new by (auto simp: w')
  have "ctxs_ok [p] C w'" using leave(2) unfolding w'_def ctxs_ok_def by simp
  moreover have "nested_ok (contexts w') C"
    using n by (subst nested_ok_cong [where h = "contexts w"]) (simp_all add: k)
  moreover have "saved_ok (UC ?E) (contexts w') C"
    using s by (subst saved_ok_cong [where h = "contexts w"]) (simp_all add: k saved_ok_def)
  ultimately have "ready R p C w'"
    using I by (simp add: ready_def run_inv_def w')
  moreover have "keep C w w'"
  proof -
    have "cpu_fixed (cpus w' c) = cpu_fixed (cpus w c)" for c
      by (simp add: w'_def leave_state_def w2 cpu_fixed_def)
    with k show ?thesis by (simp add: keep_def)
  qed
  moreover have "reg ?E d r w' = base_reg ?E [p] w d r" if "live d C w" for d r
  proof (cases "d = ?c")
    case True
    with that n have "Flags (contexts w p) \<noteq> 0" by (auto simp: live_def)
    with True show ?thesis by (simp add: reg_def w'(2) w2 base_reg_def)
  next
    case False
    then show ?thesis by (simp add: reg_def w'(2) w2 base_reg_def)
  qed
  moreover have "Ret (contexts (leave_state p w2) p) = v" by (simp add: leave_state_def c2)
  ultimately show ?thesis
    using leave(1) unfolding w'_def w2_def by blast
qed

section \<open>Calls\<close>

lemma obind_assoc: "obind (obind x f) g = obind x (\<lambda>y. obind (f y) g)"
  by (simp add: obind_def split: option.split outcome.split)

lemma CpuRunCtxOnPrivateStack_eq:
  assumes "\<not> MAU_ON_PRIVATE_STACK (options (Env R))" "\<not> MAU_CHECK_ORPHAN_CONTEXTS (options (Env R))"
  shows "CpuRunCtxOnPrivateStack R run n fp p w =
    obind (CpuRunCtxInternal R run n p (start_state (Env R) p (hooks_update CriticalEnd w)))
      (\<lambda>(v, w). obind (Some (CpuLeaveCritical p (finish_state (Env R) p v w))) (\<lambda>w. Some (Done ((), w))))"
  unfolding CpuRunCtxOnPrivateStack_def start_state_def finish_state_def Let_def by (simp add: assms)

lemma CpuRunCtx_eq:
  fixes w :: "('u, 'c, 'z) world_scheme"
  assumes "\<not> MAU_ON_PRIVATE_STACK (options (Env R))" "\<not> MAU_CHECK_ORPHAN_CONTEXTS (options (Env R))"
  shows "CpuRunCtx R run n fp p w =
    obind (CpuRunCtxInternal R run n p (start_state (Env R) p (hooks_update CriticalEnd (CpuEnterCritical p w))))
      (\<lambda>(v, w). obind (Some (CpuLeaveCritical p (finish_state (Env R) p v w)))
         (\<lambda>w. Some (Done (Ret (contexts w p), hooks_update CriticalEnd w))))"
  by (simp add: CpuRunCtx_def CpuRunCtxOnPrivateStack_eq [OF assms] assms(1) Let_def obind_assoc case_prod_unfold)

lemma CpuRunCtx_step:
  fixes w :: "('u, 'c, 'z) world_scheme"
  assumes g: "good R run" and e: "env_ok R" and r: "ready R p C w"
  shows "CpuRunCtx R run n fp p w = Some (Done (v, w')) \<Longrightarrow>
      ready R p C w' \<and> keep C w w' \<and> (\<forall>d r. live d C w \<longrightarrow> reg (Env R) d r w' = reg (Env R) d r w)"
    "CpuRunCtx R run n fp p w = Some (Jumped (j, w')) \<Longrightarrow> \<exists>K. step R {} C [] w (K @ [p]) w'"
proof -
  let ?E = "Env R" and ?w = "start_state (Env R) p (hooks_update CriticalEnd (CpuEnterCritical p w))"
  have U: "uc_ok (UC ?E)" and m: "\<not> MAU_ON_PRIVATE_STACK (options ?E)" "\<not> MAU_CHECK_ORPHAN_CONTEXTS (options ?E)"
    using e by (simp_all add: env_ok_def)
  have x: "uc_context_ok (UC ?E)" using U by (simp add: uc_ok_def)
  have s: "step R {} C [] w [p] ?w" by (rule start_step [OF U r])
  have I: "run_inv R (p # C) ?w" "run_inv R ([p] @ C) ?w" using step_inv [OF s] by simp_all
  have lift: "step R {} C [] w (K @ [p]) w1" if "step R ({Cpu_of p ?w} \<times> UNIV) (p # C) [] ?w K w1" for K w1
  proof -
    have "step R {} C [p] ?w (K @ [p]) w1"
      using that by (intro step_lift [OF x I(2)]) auto
    with s show ?thesis by (rule step_trans)
  qed
  note int = CpuRunCtxInternal_step [OF g U I(1) refl]
  show "ready R p C w' \<and> keep C w w' \<and> (\<forall>d r. live d C w \<longrightarrow> reg ?E d r w' = reg ?E d r w)"
    if d: "CpuRunCtx R run n fp p w = Some (Done (v, w'))"
  proof -
    from d obtain x1 w1 w2 where 1: "CpuRunCtxInternal R run n p ?w = Some (Done (x1, w1))"
      and 2: "CpuLeaveCritical p (finish_state ?E p x1 w1) = (Done w2 :: (jump \<times> ('u, 'c, 'z) world_scheme, ('u, 'c, 'z) world_scheme) outcome)"
      and 3: "w' = hooks_update CriticalEnd w2"
      unfolding CpuRunCtx_eq [OF m] by (auto simp: obind_Done)
    from lift [OF int(1) [OF 1]] have s1: "step R {} C [] w [p] w1" by simp
    then have "run_inv R (p # C) w1" using step_inv by fastforce
    from finish_step [OF x this, of x1] obtain w3 where
      l: "(CpuLeaveCritical p (finish_state ?E p x1 w1) :: (jump \<times> ('u, 'c, 'z) world_scheme, ('u, 'c, 'z) world_scheme) outcome) = Done w3"
      and "ready R p C (hooks_update CriticalEnd w3)" "keep C w1 (hooks_update CriticalEnd w3)"
        "\<forall>d r. live d C w1 \<longrightarrow> reg ?E d r (hooks_update CriticalEnd w3) = base_reg ?E [p] w1 d r"
      by blast
    moreover have "w' = hooks_update CriticalEnd w3" using l 2 3 by simp
    ultimately have f: "ready R p C w'" "keep C w1 w'" "\<forall>d r. live d C w1 \<longrightarrow> reg ?E d r w' = base_reg ?E [p] w1 d r"
      by simp_all
    with s1 live_keep [OF step_keep [OF s1]] keep_trans [OF step_keep [OF s1]] show ?thesis
      by (simp add: step_def)
  qed
  show "\<exists>K. step R {} C [] w (K @ [p]) w'" if d: "CpuRunCtx R run n fp p w = Some (Jumped (j, w'))"
  proof -
    have "CpuLeaveCritical p w1 \<noteq> (Jumped y :: (jump \<times> ('u, 'c, 'z) world_scheme, ('u, 'c, 'z) world_scheme) outcome)" for w1 y
      by (simp add: CpuLeaveCritical_def Let_def split: option.split)
    with d have "CpuRunCtxInternal R run n p ?w = Some (Jumped (j, w'))"
      unfolding CpuRunCtx_eq [OF m] by (auto simp: obind_Jumped)
    from int(2) [OF this] lift show ?thesis by blast
  qed
qed

text \<open>Nothing that the live contexts C rely on has changed.\<close>

definition below_same ::
  "('u, 'c) run_env \<Rightarrow> ptr list \<Rightarrow> ('u, 'c, 'z) world_scheme \<Rightarrow> ('u, 'c, 'z) world_scheme \<Rightarrow> bool" where
  "below_same R C w w' \<longleftrightarrow> keep C w w' \<and> (\<forall>d r. live d C w \<longrightarrow> reg (Env R) d r w' = reg (Env R) d r w)"

lemma below_same_trans: "below_same R C w w' \<Longrightarrow> below_same R C w' w'' \<Longrightarrow> below_same R C w w''"
  unfolding below_same_def using keep_trans [of C w w' w''] live_keep [of C w w'] by simp

lemma below_same_step: "below_same R C w w' \<Longrightarrow> step R {} C [] w' K w'' \<Longrightarrow> step R {} C [] w K w''"
  unfolding below_same_def step_def using keep_trans [of C w w' w''] live_keep [of C w w'] by simp

lemma below_same_inv: "below_same R C w w' \<Longrightarrow> run_inv R C w' \<Longrightarrow> step R {} C [] w [] w'"
  by (simp add: below_same_def step_def)

lemma alloc_ready:
  fixes w :: "('u, 'c, 'z) world_scheme"
  assumes I: "run_inv R C w" and f: "FreeList (RunContextAlloc w c) = p # rest"
  shows "(CpuAllocContext c w :: (jump \<times> ('u, 'c, 'z) world_scheme, ptr option \<times> ('u, 'c, 'z) world_scheme) outcome) = Done (Some p, alloc_state c p w)" "ready R p C (alloc_state c p w)"
    "below_same R C w (alloc_state c p w)"
proof -
  have C: "ctxs_ok [] C w" using I by (simp add: run_inv_def)
  note a = CpuAllocContext_first [OF C f]
  show "(CpuAllocContext c w :: (jump \<times> ('u, 'c, 'z) world_scheme, ptr option \<times> ('u, 'c, 'z) world_scheme) outcome) = Done (Some p, alloc_state c p w)"
    by (rule CpuAllocContext_first(1) [OF C f])
  have "p \<notin> set C" using a(2) by (simp add: ctxs_ok_def)
  then have k: "contexts (alloc_state c p w) q = contexts w q" if "q \<in> set C" for q
    using that alloc_state_simps(1) [of q p c w] by metis
  have "nested_ok (contexts (alloc_state c p w)) C" "saved_ok (UC (Env R)) (contexts (alloc_state c p w)) C"
    using I by (subst nested_ok_cong [where h = "contexts w"] saved_ok_cong [where h = "contexts w"]; simp add: k run_inv_def)+
  with a(2) I show "ready R p C (alloc_state c p w)"
    by (simp add: ready_def run_inv_def)
  show "below_same R C w (alloc_state c p w)"
    by (simp add: below_same_def keep_def k reg_def)
qed

lemma ready_ctx_update:
  fixes w :: "('u, 'c, 'z) world_scheme"
  assumes r: "ready R p C w"
    and f: "\<And>x. ctx_Cpu (f x) = ctx_Cpu x" "\<And>x. PrevUcContext (f x) = PrevUcContext x" "\<And>x. Flags (f x) = Flags x"
  shows "ready R p C (ctx_update p f w)" "below_same R C w (ctx_update p f w)"
proof -
  have new: "p \<notin> set C" and C: "ctxs_ok [p] C w" using r by (simp_all add: ready_def ctxs_ok_def)
  have "ctxs_ok [p] C (ctx_update p f w)"
    by (rule ctxs_ok_upd [OF C, where p = p and x = "f (contexts w p)"]) (use new in \<open>simp_all add: f\<close>)
  moreover have k: "contexts (ctx_update p f w) q = contexts w q" if "q \<in> set C" for q using that new by auto
  moreover have "nested_ok (contexts (ctx_update p f w)) C" "saved_ok (UC (Env R)) (contexts (ctx_update p f w)) C"
    using r by (subst nested_ok_cong [where h = "contexts w"] saved_ok_cong [where h = "contexts w"]; simp only: k ready_def)+
  ultimately show "ready R p C (ctx_update p f w)"
    using r by (simp add: ready_def f)
  show "below_same R C w (ctx_update p f w)"
    using k by (simp add: below_same_def keep_def reg_def)
qed

lemma free_ready:
  fixes w :: "('u, 'c, 'z) world_scheme"
  assumes "ready R p C w"
  shows "(CpuFreeContext p w :: (jump \<times> ('u, 'c, 'z) world_scheme, ('u, 'c, 'z) world_scheme) outcome) = Done (free_state p w)" "run_inv R C (free_state p w)" "below_same R C w (free_state p w)"
proof -
  have C: "ctxs_ok ([] @ p # []) C w" "Flags (contexts w p) = 0" using assms by (simp_all add: ready_def)
  show "(CpuFreeContext p w :: (jump \<times> ('u, 'c, 'z) world_scheme, ('u, 'c, 'z) world_scheme) outcome) = Done (free_state p w)"
    by (rule CpuFreeContext_ok(1) [OF C])
  show "run_inv R C (free_state p w)"
    using assms CpuFreeContext_ok(2) [OF C] by (simp add: run_inv_def ready_def)
  show "below_same R C w (free_state p w)" by (simp add: below_same_def keep_def reg_def)
qed

text \<open>
  A call: run the context, then release it.  Returning, everything below is as it
  was; a long jump leaves contexts above it.
\<close>

lemma run_and_free:
  fixes w :: "('u, 'c, 'z) world_scheme"
  assumes g: "good R run" and e: "env_ok R" and r: "ready R p C w"
    and x: "x = obind (CpuRunCtx R run n fp p w) (\<lambda>(v, w). obind (Some (CpuFreeContext p w)) (\<lambda>w. Some (Done (v, w))))"
  shows "x = Some (Done (v, w')) \<Longrightarrow> step R {} C [] w [] w'"
    "x = Some (Jumped (j, w')) \<Longrightarrow> \<exists>K. step R {} C [] w (K @ [p]) w'"
proof -
  note run = CpuRunCtx_step [OF g e r]
  show "step R {} C [] w [] w'" if d: "x = Some (Done (v, w'))"
  proof -
    from d obtain w1 where 1: "CpuRunCtx R run n fp p w = Some (Done (v, w1))"
      and 2: "CpuFreeContext p w1 = (Done w' :: (jump \<times> ('u, 'c, 'z) world_scheme, ('u, 'c, 'z) world_scheme) outcome)"
      unfolding x by (auto simp: obind_Done)
    from run(1) [OF 1] have r1: "ready R p C w1" and b: "below_same R C w w1" by (simp_all add: below_same_def)
    have "w' = free_state p w1" using 2 free_ready(1) [OF r1] by simp
    with free_ready(2,3) [OF r1] below_same_trans [OF b] below_same_inv show ?thesis by blast
  qed
  show "\<exists>K. step R {} C [] w (K @ [p]) w'" if d: "x = Some (Jumped (j, w'))"
  proof (cases "CpuRunCtx R run n fp p w = Some (Jumped (j, w'))")
    case True
    then show ?thesis by (rule run(2))
  next
    case False
    with d obtain y w1 where 1: "CpuRunCtx R run n fp p w = Some (Done (y, w1))"
      and 2: "CpuFreeContext p w1 = (Jumped (j, w') :: (jump \<times> ('u, 'c, 'z) world_scheme, ('u, 'c, 'z) world_scheme) outcome)"
      unfolding x by (auto simp: obind_Jumped)
    from run(1) [OF 1] have "ready R p C w1" by simp
    from free_ready(1) [OF this] 2 show ?thesis by simp
  qed
qed

lemma CpuRunFunc_step:
  fixes w :: "('u, 'c, 'z) world_scheme"
  assumes g: "good R run" and e: "env_ok R" and I: "run_inv R C w"
  shows "CpuRunFunc R run n fp c pc A w = Some (Done (v, w')) \<Longrightarrow> step R {} C [] w [] w'"
    "CpuRunFunc R run n fp c pc A w = Some (Jumped (j, w')) \<Longrightarrow> \<exists>K. step R {} C [] w K w'"
proof -
  have "(CpuRunFunc R run n fp c pc A w = Some (Done (v, w')) \<longrightarrow> step R {} C [] w [] w') \<and>
    (CpuRunFunc R run n fp c pc A w = Some (Jumped (j, w')) \<longrightarrow> (\<exists>K. step R {} C [] w K w'))"
  proof (cases "FreeList (RunContextAlloc w c)")
    case Nil
    then have "CpuRunFunc R run n fp c pc A w = Some (Done (EFI_OUT_OF_RESOURCES, w))"
      by (simp add: CpuRunFunc_def CpuAllocContext_empty)
    moreover have "step R {} C [] w [] w" using near_step [of "{}" w w R "[]" C] I by simp
    ultimately show ?thesis by auto
  next
    case (Cons p rest)
    note a = alloc_ready [OF I Cons]
    let ?w = "ctx_update p (\<lambda>x. x\<lparr>ProgramCounter := pc, Args := A\<rparr>) (alloc_state c p w)"
    have r: "ready R p C ?w" "below_same R C (alloc_state c p w) ?w"
      by (rule ready_ctx_update [OF a(2)]; simp)+
    have b: "below_same R C w ?w" using a(3) r(2) by (rule below_same_trans)
    have "CpuRunFunc R run n fp c pc A w =
        obind (CpuRunCtx R run n fp p ?w) (\<lambda>(v, w). obind (Some (CpuFreeContext p w)) (\<lambda>w. Some (Done (v, w))))"
      by (simp add: CpuRunFunc_def a(1))
    note call = run_and_free [OF g e r(1) this]
    show ?thesis using call below_same_step [OF b] by blast
  qed
  then show "CpuRunFunc R run n fp c pc A w = Some (Done (v, w')) \<Longrightarrow> step R {} C [] w [] w'"
    "CpuRunFunc R run n fp c pc A w = Some (Jumped (j, w')) \<Longrightarrow> \<exists>K. step R {} C [] w K w'" by blast+
qed

lemma ready_near:
  assumes "ready R p C w" "near {} w w'"
  shows "ready R p C w'" "below_same R C w w'"
  using assms near_keep [OF assms(2), of C]
  by (simp_all add: ready_def near_def ctxs_ok_def below_same_def reg_def)

text \<open>Exit of an image: the jump to the SetJump of CpuRunImage and the removal of its contexts.\<close>

lemma exit_step:
  fixes w :: "('u, 'c, 'z) world_scheme"
  assumes U: "uc_context_ok (UC (Env R))" and s: "step R {} C [] w (K @ [p]) w1"
    and x: "(CpuCompressLeakedContexts (Env R) p True w1 :: (jump \<times> ('u, 'c, 'z) world_scheme, ('u, 'c, 'z) world_scheme) outcome option) = Some r"
  shows "\<exists>w2. r = Done w2 \<and> step R {} C [] w [] w2"
proof -
  have I: "run_inv R ((K @ [p]) @ C) w1" by (rule step_inv [OF s])
  then have "chain (contexts w1) (mTopContext w1) (K @ p # C)" by (simp add: run_inv_def ctxs_ok_def)
  then have "PrevContext (contexts w1 p) = head C" by (rule chain_head [OF chain_suffix])
  then have to: "(if True then PrevContext (contexts w1 p) else Some p) = head C" by simp
  have "(CpuCompressLeakedContexts (Env R) p True w1 :: (jump \<times> ('u, 'c, 'z) world_scheme, ('u, 'c, 'z) world_scheme) outcome option) =
      Some (Done (compress_state (Env R) (K @ [p]) C w1))"
    by (rule compress_leaked(1) [OF U I to])
  with x compress_leaked(2) [OF U I to] s show ?thesis by (auto intro: step_trans)
qed

lemma CpuRunImage_step:
  fixes w :: "('u, 'c, 'z) world_scheme"
  assumes g: "good R run" and e: "env_ok R" and I: "run_inv R C w"
  shows "(CpuRunImage R run n fp Handle w = Some (Done (v, w')) \<longrightarrow> step R {} C [] w [] w') \<and>
    (CpuRunImage R run n fp Handle w = Some (Jumped (j, w')) \<longrightarrow> (\<exists>K. step R {} C [] w K w'))"
proof -
  let ?res = "\<lambda>x. (x = Some (Done (v, w')) \<longrightarrow> step R {} C [] w [] w') \<and>
    (x = Some (Jumped (j, w')) \<longrightarrow> (\<exists>K. step R {} C [] w K w'))"
  have U: "uc_context_ok (UC (Env R))" using e by (simp add: env_ok_def uc_ok_def)
  have id: "step R {} C [] w [] w" using near_step [of "{}" w w R "[]" C] I by simp
  have run: "?res (case CpuRunCtx R run n fp p w1 of
      None \<Rightarrow> None
    | Some (Done (v, w)) \<Rightarrow> obind (Some (CpuFreeContext p w)) (\<lambda>w. Some (Done (v, w)))
    | Some (Crashed c) \<Rightarrow> Some (Crashed c)
    | Some (Jumped (j, w)) \<Rightarrow>
        if j \<noteq> ToFrame frame then Some (Jumped (j, w))
        else obind (CpuCompressLeakedContexts (Env R) p True w)
          (\<lambda>w. let H = ImageHandle (Records w Record) in
               case gBS_Exit_fails R H of
                 None \<Rightarrow> Some (Jumped (ToStartImage H (ImageExitStatus (Records w Record)), w))
               | Some Status \<Rightarrow> Some (Done (Status, ASSERT_w (\<not> EFI_ERROR Status) w))))"
    if r: "ready R p C w1" and b: "below_same R C w w1" for p w1 frame Record
  proof (cases "CpuRunCtx R run n fp p w1")
    case (Some x)
    show ?thesis
    proof (cases x)
      case (Done y)
      obtain a w2 where y: "y = (a, w2)" by (cases y)
      with Some Done CpuRunCtx_step(1) [OF g e r] have r2: "ready R p C w2" and b2: "below_same R C w1 w2"
        by (simp_all add: below_same_def)
      have "step R {} C [] w [] (free_state p w2)"
        using below_same_trans [OF below_same_trans [OF b b2] free_ready(3) [OF r2]] free_ready(2) [OF r2]
        by (rule below_same_inv)
      then show ?thesis using Some Done y by (auto simp: free_ready(1) [OF r2])
    next
      case (Jumped y)
      obtain i w2 where y: "y = (i, w2)" by (cases y)
      with Some Jumped have "CpuRunCtx R run n fp p w1 = Some (Jumped (i, w2))" by simp
      from CpuRunCtx_step(2) [OF g e r this] obtain K where s: "step R {} C [] w1 (K @ [p]) w2" by blast
      show ?thesis
      proof (cases "i = ToFrame frame")
        case False
        with Some Jumped y s below_same_step [OF b] show ?thesis by auto
      next
        case True
        note ex = exit_step [OF U s]
        show ?thesis
        proof (cases "CpuCompressLeakedContexts (Env R) p True w2 ::
            (jump \<times> ('u, 'c, 'z) world_scheme, ('u, 'c, 'z) world_scheme) outcome option")
          case None
          with Some Jumped y True show ?thesis by simp
        next
          case (Some z)
          from ex [OF this] obtain w3 where z: "z = Done w3" and s3: "step R {} C [] w1 [] w3" by blast
          have "step R {} C [] w [] w3" by (rule below_same_step [OF b s3])
          moreover from this have "step R {} C [] w [] (ASSERT_w c w3)" for c
            using near_step [of "{}" w3 "ASSERT_w c w3" R "[]" C] step_inv [OF s3] by (auto intro: step_trans)
          ultimately show ?thesis
            using Some z \<open>CpuRunCtx R run n fp p w1 = Some x\<close> Jumped y True
            by (auto simp: Let_def split: option.splits)
        qed
      qed
    qed (simp add: Some)
  qed simp
  show ?thesis
  proof (cases "EFI_ERROR (fst (LoadedImageBase R Handle))")
    case True
    with id show ?thesis by (auto simp: CpuRunImage_def case_prod_beta Let_def)
  next
    case ok: False
    show ?thesis
    proof (cases "ImageFindByAddress (snd (LoadedImageBase R Handle)) w")
      case None
      with ok show ?thesis by (simp add: CpuRunImage_def case_prod_beta Let_def)
    next
      case image: (Some Record)
      show ?thesis
      proof (cases "rec_Cpu (Records w Record)")
        case None
        with ok image show ?thesis by (simp add: CpuRunImage_def case_prod_beta Let_def)
      next
        case cpu: (Some c)
        show ?thesis
        proof (cases "FreeList (RunContextAlloc w c)")
          case Nil
          with ok image cpu id show ?thesis
            by (auto simp: CpuRunImage_def case_prod_beta Let_def CpuAllocContext_empty)
        next
          case (Cons p rest)
          note a = alloc_ready [OF I Cons]
          define w1 where "w1 = rec_update Record (\<lambda>r. r\<lparr>ImageHandle := Handle, ImageExitJumpBuffer := next_frame (alloc_state c p w)\<rparr>)
            (alloc_state c p w)"
          define w2 where "w2 = ctx_update p (\<lambda>x. x\<lparr>ctx_ImageRecord := Some Record, ProgramCounter := ImageEntry (Records w1 Record),
            Args := (\<lambda>i. if i = 0 then Handle else if i = 1 then SystemTable R else 0)\<rparr>) w1"
          define w3 where "w3 = w2\<lparr>next_frame := next_frame (alloc_state c p w) + 1\<rparr>"
          have r1: "ready R p C w1" "below_same R C (alloc_state c p w) w1"
            unfolding w1_def by (rule ready_near [OF a(2)]; simp)+
          have r2: "ready R p C w2" "below_same R C w1 w2"
            unfolding w2_def by (rule ready_ctx_update [OF r1(1)]; simp)+
          have r3: "ready R p C w3" "below_same R C w2 w3"
            unfolding w3_def by (rule ready_near [OF r2(1)]; simp add: near_def)+
          have b: "below_same R C w w3"
            using below_same_trans [OF below_same_trans [OF below_same_trans [OF a(3) r1(2)] r2(2)] r3(2)] .
          show ?thesis
            using run [OF r3(1) b, of "next_frame (alloc_state c p w)" Record] ok image cpu
            unfolding w3_def w2_def w1_def
            by (simp add: CpuRunImage_def case_prod_beta Let_def a(1))
        qed
      qed
    qed
  qed
qed

section \<open>Native code\<close>

lemma request_near:
  assumes "fw_cpu_ok fw" "quiet (hooks w)" "hooked (hooks w)"
  shows "near {} w (hooks_update (request fw b) w)"
  using assms request_frame(1) [of fw "hooks w" b]
  by (simp add: near_def request_hooked quiet_def)

text \<open>What one run of native code does, from K contexts above L.\<close>

definition outcome_ok ::
  "('u, 'c) run_env \<Rightarrow> ptr list \<Rightarrow> ptr list \<Rightarrow> bool \<Rightarrow> ('u, 'c, 'z) world_scheme \<Rightarrow> ('v, ('u, 'c, 'z) world_scheme) run \<Rightarrow> bool" where
  "outcome_ok R L K safe w x \<longleftrightarrow>
     (\<forall>v w'. x = Some (Done (v, w')) \<longrightarrow> (\<exists>K'. step R {} L K w K' w' \<and> (safe \<longrightarrow> K' = K))) \<and>
     (\<forall>j w'. x = Some (Jumped (j, w')) \<longrightarrow> (\<exists>K'. step R {} L K w K' w'))"

lemma good_outcome: "good R run \<longleftrightarrow> (\<forall>t w K L. run_inv R (K @ L) w \<longrightarrow> outcome_ok R L K (notify_safe t) w (run t w))"
  unfolding good_def outcome_ok_def by simp

lemma outcome_then:
  assumes "step R {} L K w K1 w1" "outcome_ok R L K1 safe w1 x" "safe' \<Longrightarrow> safe \<and> K1 = K"
  shows "outcome_ok R L K safe' w x"
  using assms step_trans [OF assms(1)] unfolding outcome_ok_def by blast

lemma outcome_mono: "outcome_ok R L K safe w x \<Longrightarrow> (safe' \<Longrightarrow> safe) \<Longrightarrow> outcome_ok R L K safe' w x"
  unfolding outcome_ok_def by blast

lemma outcome_bind:
  assumes "outcome_ok R L K safe w x"
    and "\<And>v w1 K1. x = Some (Done (v, w1)) \<Longrightarrow> step R {} L K w K1 w1 \<Longrightarrow> outcome_ok R L K1 safe' w1 (f v w1)"
    and "safe'' \<Longrightarrow> safe \<and> safe'"
  shows "outcome_ok R L K safe'' w (obind x (\<lambda>(v, w). f v w))"
proof (cases x)
  case (Some y)
  show ?thesis
  proof (cases y)
    case (Done z)
    obtain v w1 where z: "z = (v, w1)" by (cases z)
    from assms(1) Some Done z obtain K1 where s: "step R {} L K w K1 w1" "safe \<longrightarrow> K1 = K" by (auto simp: outcome_ok_def)
    have "outcome_ok R L K safe'' w (f v w1)"
      by (rule outcome_then [OF s(1) assms(2) [OF _ s(1)]]) (use Some Done z s(2) assms(3) in auto)
    then show ?thesis by (simp add: Some Done z)
  qed (use assms(1) Some in \<open>simp_all add: outcome_ok_def\<close>)
qed (simp add: outcome_ok_def)

lemma outcome_call:
  assumes U: "uc_context_ok (UC (Env R))" and I: "run_inv R (K @ L) w"
    and "\<And>v w'. x = Some (Done (v, w')) \<Longrightarrow> step R {} (K @ L) [] w [] w'"
    and "\<And>j w'. x = Some (Jumped (j, w')) \<Longrightarrow> \<exists>K1. step R {} (K @ L) [] w K1 w'"
  shows "outcome_ok R L K safe w x"
proof -
  have lift: "step R {} L K w (K1 @ K) w'" if "step R {} (K @ L) [] w K1 w'" for K1 w'
    using that by (intro step_lift [OF U I]) auto
  have "\<exists>K'. step R {} L K w K' w' \<and> (safe \<longrightarrow> K' = K)" if "x = Some (Done (v, w'))" for v w'
    using lift [OF assms(3) [OF that]] by auto
  moreover have "\<exists>K'. step R {} L K w K' w'" if "x = Some (Jumped (j, w'))" for j w'
    using lift assms(4) [OF that] by blast
  ultimately show ?thesis unfolding outcome_ok_def by blast
qed

lemma run_native_good:
  fixes R :: "('u, 'c) run_env"
  assumes e: "env_ok R"
  shows "good R (run_native R n :: native \<Rightarrow> ('u, 'c, 'z) world_scheme \<Rightarrow> (u64, ('u, 'c, 'z) world_scheme) run)"
proof (induction n)
  case 0
  show ?case by (simp add: good_outcome outcome_ok_def)
next
  case (Suc n)
  note g = this
  have U: "uc_context_ok (UC (Env R))" and fw: "fw_cpu_ok (firmware_cpu R)" using e by (simp_all add: env_ok_def uc_ok_def)
  show ?case unfolding good_outcome
  proof (intro allI impI)
    fix t and w :: "('u, 'c, 'z) world_scheme" and K L
    assume I: "run_inv R (K @ L) w"
    have ih: "outcome_ok R L K (notify_safe t) w (run_native R n t w)" if "run_inv R (K @ L) w"
      for t K and w :: "('u, 'c, 'z) world_scheme"
      using g that by (simp add: good_outcome)
    have same: "outcome_ok R L K safe w (run_native R n t w1)" if "near {} w w1" "safe \<Longrightarrow> notify_safe t" for t w1 safe
    proof -
      have s: "step R {} L K w K w1" using near_step [OF that(1) I] by simp
      show ?thesis by (rule outcome_then [OF s ih [OF step_inv [OF s]]]) (use that in simp)
    qed
    show "outcome_ok R L K (notify_safe t) w (run_native R (Suc n) t w)"
    proof (cases t)
      case (NReturn v)
      have "step R {} L K w K w" using near_step [of "{}" w w R K L] I by simp
      then show ?thesis by (auto simp: NReturn outcome_ok_def)
    next
      case (NWrite a v k)
      then show ?thesis by (simp add: same)
    next
      case (NRead a k)
      then show ?thesis by (simp add: same)
    next
      case (NInterrupts b k)
      have "near {} w (hooks_update (request (firmware_cpu R) b) w)"
        using I by (intro request_near [OF fw]) (simp_all add: run_inv_def)
      then show ?thesis by (simp add: NInterrupts same)
    next
      case (NEmulated fp pc A k)
      show ?thesis
      proof (cases "ImageFindByAddress pc w")
        case None
        then show ?thesis by (simp add: NEmulated outcome_ok_def)
      next
        case (Some Record)
        show ?thesis
        proof (cases "rec_Cpu (Records w Record)")
          case None
          with Some show ?thesis by (simp add: NEmulated outcome_ok_def EmulatorVmEntry_def)
        next
          case cpu: (Some c)
          have call: "outcome_ok R L K True w (CpuRunFunc R (run_native R n) n fp c pc A w)"
            using CpuRunFunc_step [OF g e I] by (intro outcome_call [OF U I])
          have "outcome_ok R L K (notify_safe t) w
              (obind (CpuRunFunc R (run_native R n) n fp c pc A w) (\<lambda>(v, w). run_native R n (k v) w))"
          proof (rule outcome_bind [OF call])
            show "outcome_ok R L K1 (notify_safe t) w1 (run_native R n (k v) w1)" if "step R {} L K w K1 w1" for v w1 K1
              by (rule outcome_mono [OF ih [OF step_inv [OF that]]]) (simp add: NEmulated)
          qed simp
          then show ?thesis by (simp add: NEmulated Some cpu EmulatorVmEntry_def)
        qed
      qed
    next
      case (NStartImage fp H k)
      have call: "outcome_ok R L K True w (CpuRunImage R (run_native R n) n fp H w)"
        using CpuRunImage_step [OF g e I] by (intro outcome_call [OF U I]) blast+
      have on: "outcome_ok R L K False w (run_native R n (k v) w1)" if "step R {} L K w K1 w1" for v w1 K1
        by (rule outcome_then [OF that ih [OF step_inv [OF that]]]) simp
      show ?thesis
      proof (cases "CpuRunImage R (run_native R n) n fp H w")
        case (Some y)
        then show ?thesis
          using call on
          by (cases y) (auto simp: NStartImage outcome_ok_def split: jump.splits if_splits)
      qed (simp add: NStartImage outcome_ok_def)
    next
      case (NNotify fp ev r k)
      have call: "outcome_ok R L K True w (EfiWrappersEventNotify R (run_native R n) n fp ev r w)"
        using CpuRunFunc_step [OF g e I] unfolding EfiWrappersEventNotify_def Let_def
        by (intro outcome_call [OF U I])
      have "outcome_ok R L K (notify_safe t) w
          (obind (EfiWrappersEventNotify R (run_native R n) n fp ev r w) (\<lambda>(v, w). run_native R n k w))"
      proof (rule outcome_bind [OF call])
        show "outcome_ok R L K1 (notify_safe t) w1 (run_native R n k w1)" if "step R {} L K w K1 w1" for v w1 K1
          by (rule outcome_mono [OF ih [OF step_inv [OF that]]]) (simp add: NNotify)
      qed simp
      then show ?thesis by (simp add: NNotify)
    next
      case (NSetJump j body handler k)
      have body: "outcome_ok R L K (notify_safe body) w (run_native R n body w)" by (rule ih [OF I])
      have on: "outcome_ok R L K False w (run_native R n t1 w1)" if "step R {} L K w K1 w1" for t1 w1 K1
        by (rule outcome_then [OF that ih [OF step_inv [OF that]]]) simp
      show ?thesis
      proof (cases "run_native R n body w")
        case (Some y)
        then show ?thesis
          using body on
          by (cases y) (auto simp: NSetJump outcome_ok_def split: if_splits)
      qed (simp add: NSetJump outcome_ok_def)
    next
      case (NLongJump j)
      have "step R {} L K w K w" using near_step [of "{}" w w R K L] I by simp
      then show ?thesis by (auto simp: NLongJump outcome_ok_def)
    qed
  qed
qed

end
