(* ===== verification/Run_Fuel.thy ===== *)
theory Run_Fuel
  imports Run
begin

text \<open>
  More fuel never changes a result: what a run with some fuel returns, jumps to
  or crashes with, every run with more fuel does too.  So None means "not yet",
  and the result of a computation that comes back does not depend on the fuel.
\<close>

section \<open>The order\<close>

definition upto :: "'a option \<Rightarrow> 'a option \<Rightarrow> bool" where
  "upto x y \<longleftrightarrow> x = None \<or> x = y"

lemma upto_refl [simp]: "upto x x"
  by (simp add: upto_def)

lemma upto_None [simp]: "upto None x"
  by (simp add: upto_def)

lemma upto_Some: "upto x y \<Longrightarrow> x = Some z \<Longrightarrow> y = Some z"
  by (auto simp: upto_def)

lemma upto_obind: "upto x y \<Longrightarrow> (\<And>z. upto (f z) (g z)) \<Longrightarrow> upto (obind x f) (obind y g)"
  by (auto simp: upto_def obind_def split: option.splits outcome.splits)

lemma upto_case:
  "upto x y \<Longrightarrow> (\<And>z. upto (f z) (g z)) \<Longrightarrow> (\<And>z. upto (h z) (k z)) \<Longrightarrow>
   upto (case x of None \<Rightarrow> None | Some (Done z) \<Rightarrow> f z | Some (Jumped z) \<Rightarrow> h z | Some (Crashed c) \<Rightarrow> l c)
     (case y of None \<Rightarrow> None | Some (Done z) \<Rightarrow> g z | Some (Jumped z) \<Rightarrow> k z | Some (Crashed c) \<Rightarrow> l c)"
  by (auto simp: upto_def split: option.splits outcome.splits)

lemma upto_option:
  "(\<And>z. upto (f z) (g z)) \<Longrightarrow> upto (case x of None \<Rightarrow> y | Some z \<Rightarrow> f z) (case x of None \<Rightarrow> y | Some z \<Rightarrow> g z)"
  by (cases x) simp_all

lemma upto_if: "upto x z \<Longrightarrow> upto y u \<Longrightarrow> upto (if b then x else y) (if b then z else u)"
  by simp

lemma upto_prod: "(\<And>a b. upto (f a b) (g a b)) \<Longrightarrow> upto (case z of (a, b) \<Rightarrow> f a b) (case z of (a, b) \<Rightarrow> g a b)"
  by (cases z) simp

definition less_run ::
  "(native \<Rightarrow> 'w \<Rightarrow> (u64, 'w) run) \<Rightarrow> (native \<Rightarrow> 'w \<Rightarrow> (u64, 'w) run) \<Rightarrow> bool" where
  "less_run run run' \<longleftrightarrow> (\<forall>t w. upto (run t w) (run' t w))"

lemma less_runD: "less_run run run' \<Longrightarrow> upto (run t w) (run' t w)"
  by (simp add: less_run_def)

section \<open>Every function is monotone\<close>

named_theorems upto_intros

lemma upto_interrupt_window [upto_intros]:
  "less_run run run' \<Longrightarrow> upto (interrupt_window run w) (interrupt_window run' w)"
  by (auto simp: interrupt_window_def intro!: upto_obind less_runD split: list.split)

lemma upto_call_NativeThunk [upto_intros]:
  assumes "less_run run run'"
  shows "upto (call_NativeThunk f R run p pc w) (call_NativeThunk f R run' p pc w)"
  by (cases f)
    (auto simp: call_NativeThunk_def NativeThunkX64_def NativeThunkAArch64_def Let_def
      intro!: upto_obind less_runD [OF assms] split: prod.split call_target.split)

lemma upto_emulation_loop:
  assumes "less_run run run'" "n \<le> m"
  shows "upto (emulation_loop R run n p c pc w) (emulation_loop R run' m p c pc w)"
  using assms(2)
proof (induction n arbitrary: m pc w)
  case (Suc n)
  then obtain k where m: "m = Suc k" "n \<le> k" by (cases m) auto
  show ?case
    unfolding m(1) emulation_loop.simps
    by (auto intro!: upto_obind upto_intros [OF assms(1)] Suc.IH [OF m(2)] simp: Let_def
        split: prod.split CpuExitReason.split option.split)
qed simp

lemma upto_CpuRunCtxInternal:
  assumes "less_run run run'" "n \<le> m"
  shows "upto (CpuRunCtxInternal R run n p w) (CpuRunCtxInternal R run' m p w)"
  by (auto simp: CpuRunCtxInternal_def Let_def intro!: upto_obind upto_emulation_loop [OF assms] split: option.split)

lemma upto_CpuRunCtxOnPrivateStack:
  assumes "less_run run run'" "n \<le> m"
  shows "upto (CpuRunCtxOnPrivateStack R run n fp p w) (CpuRunCtxOnPrivateStack R run' m fp p w)"
  unfolding CpuRunCtxOnPrivateStack_def Let_def
  by (intro upto_obind case_prodI2 upto_CpuRunCtxInternal [OF assms] upto_refl | clarify)+

lemma upto_CpuRunCtx:
  assumes "less_run run run'" "n \<le> m"
  shows "upto (CpuRunCtx R run n fp p w) (CpuRunCtx R run' m fp p w)"
  unfolding CpuRunCtx_def Let_def
  by (rule upto_obind)
    (auto intro!: upto_case upto_CpuRunCtxOnPrivateStack [OF assms])

lemma upto_CpuRunFunc:
  assumes "less_run run run'" "n \<le> m"
  shows "upto (CpuRunFunc R run n fp c pc A w) (CpuRunFunc R run' m fp c pc A w)"
  by (auto simp: CpuRunFunc_def Let_def intro!: upto_obind upto_CpuRunCtx [OF assms] split: option.split)

lemma upto_CpuRunImage:
  assumes "less_run run run'" "n \<le> m"
  shows "upto (CpuRunImage R run n fp H w) (CpuRunImage R run' m fp H w)"
  unfolding CpuRunImage_def Let_def
  by (intro upto_prod upto_if upto_case upto_obind upto_option upto_CpuRunCtx [OF assms] upto_refl)

lemma upto_EmulatorVmEntry:
  assumes "less_run run run'" "n \<le> m"
  shows "upto (EmulatorVmEntry R run n fp pc A r w) (EmulatorVmEntry R run' m fp pc A r w)"
  by (auto simp: EmulatorVmEntry_def intro!: upto_CpuRunFunc [OF assms] split: option.split)

lemma upto_EfiWrappersEventNotify:
  assumes "less_run run run'" "n \<le> m"
  shows "upto (EfiWrappersEventNotify R run n fp e r w) (EfiWrappersEventNotify R run' m fp e r w)"
  by (auto simp: EfiWrappersEventNotify_def Let_def intro!: upto_CpuRunFunc [OF assms])

lemma upto_run_native:
  fixes w :: "('u, 'c, 'z) world_scheme"
  shows "n \<le> m \<Longrightarrow> upto (run_native R n t w) (run_native R m t w)"
proof (induction n arbitrary: m t w)
  case (Suc n)
  then obtain k where m: "m = Suc k" "n \<le> k" by (cases m) auto
  have lr: "less_run (run_native R n :: native \<Rightarrow> ('u, 'c, 'z) world_scheme \<Rightarrow> _) (run_native R k)"
    by (simp add: less_run_def Suc.IH [OF m(2)])
  note ih = Suc.IH [OF m(2)]
  note calls = upto_EmulatorVmEntry [OF lr m(2)] upto_EfiWrappersEventNotify [OF lr m(2)] upto_CpuRunImage [OF lr m(2)]
  show ?case
    unfolding m(1)
  proof (cases t)
    case (NStartImage fp H k')
    then show "upto (run_native R (Suc n) t w) (run_native R (Suc k) t w)"
      by (auto intro!: upto_case calls ih split: jump.split)
  next
    case (NSetJump j b h k')
    then show "upto (run_native R (Suc n) t w) (run_native R (Suc k) t w)"
      by (auto intro!: upto_case ih)
  qed (auto intro!: upto_obind calls ih split: option.split)
qed simp

end
