(* ===== verification/Run_Example.thy ===== *)
theory Run_Example
  imports Run_Inv
begin

text \<open>
  A concrete system for the witnesses of the theorems about running code: an X64
  image at 0x20000 with two functions that call native code and one that adds
  its arguments, native functions at 0x6000 (which sets a jump buffer and calls
  the image again) and 0x6100 (which long-jumps), and a chain of contexts L.
\<close>

definition example_guest :: "cpu_id \<Rightarrow> u64 \<Rightarrow> (uc_reg \<Rightarrow> u64) \<times> memory \<Rightarrow> (uc_reg \<Rightarrow> u64) \<times> memory" where
  "example_guest c pc s =
     (case s of (u, m) \<Rightarrow>
        if pc = 0x20100 then
          (u(UC_X86_REG_RSP := u UC_X86_REG_RSP - 8, UC_X86_REG_RIP := 0x6000), store64 (u UC_X86_REG_RSP - 8) 0x20110 m)
        else if pc = 0x20200 then
          (u(UC_X86_REG_RSP := u UC_X86_REG_RSP - 8, UC_X86_REG_RIP := 0x6100), store64 (u UC_X86_REG_RSP - 8) 0x20210 m)
        else
          (u(UC_X86_REG_RSP := u UC_X86_REG_RSP + 8, UC_X86_REG_RIP := load64 m (u UC_X86_REG_RSP),
             UC_X86_REG_RAX := u UC_X86_REG_RCX + u UC_X86_REG_RDX), m))"

definition example_native :: "u64 \<Rightarrow> args \<Rightarrow> native" where
  "example_native f A =
     (if f = 0x6000 then NSetJump 1 (NEmulated 0x900 0x20200 A NReturn) (NReturn 7) NReturn
      else if f = 0x6100 then NLongJump 1 else NReturn 0)"

definition example_run_env :: "(uc_reg \<Rightarrow> u64, uc_reg \<Rightarrow> u64) run_env" where
  "example_run_env = \<lparr>Env = example_env example_guest, bs = example_bs, events_fw = example_events EFI_SUCCESS,
     firmware_cpu = fw_cpu_std, GetPerformanceCounter = (\<lambda>n. of_nat n), native_code = example_native,
     LoadedImageBase = (\<lambda>h. (EFI_SUCCESS, 0x20000)), gBS_Exit_fails = (\<lambda>_. None), SystemTable = 0x77,
     uninitialised = (\<lambda>_. 0), mNativeStackStart = 0, mNativeStackTop = 0\<rparr>"

definition example_run_world :: "ptr list \<Rightarrow> (uc_reg \<Rightarrow> u64, uc_reg \<Rightarrow> u64) world" where
  "example_run_world L = \<lparr>mem = (\<lambda>_. 0), hooks = example_hooks True Hook, UE = (\<lambda>_ _. 0),
     cpus = (\<lambda>c. example_cpu\<lparr>Contexts := int (length (filter (\<lambda>p. p \<in> set (example_objects c)) L))\<rparr>),
     mImageList = [0x100], Records = (\<lambda>_. example_record), attr_calls = [],
     contexts = example_contexts L (\<lambda>_. 0) (\<lambda>_. 0), RunContextAlloc = example_ctx_pool L, mTopContext = head L,
     mEventList = [], EventRecords = (\<lambda>_. undefined), live_records = [],
     perf_now = 0, pending = [], next_frame = 0, mOriginalStack = 0\<rparr>"

lemma example_env_ok: "env_ok example_run_env"
proof -
  have "fw_cpu_ok fw_cpu_std" by (simp add: fw_cpu_ok_def fw_cpu_std_def)
  then show ?thesis
    by (simp add: env_ok_def example_run_env_def example_env_def function_ops_ok default_build_def)
qed

lemma example_run_inv: "run_inv example_run_env [0x10000] (example_run_world [0x10000])"
proof -
  have "ctxs_ok [] [0x10000] (example_world [] [0x10000] (\<lambda>_. 0) (\<lambda>_. 0))"
    by (rule example_world_ok) (auto simp: example_objects_def)
  then have "ctxs_ok [] [0x10000] (example_run_world [0x10000])"
    unfolding ctxs_ok_def by (simp add: example_world_def example_run_world_def)
  then show ?thesis
    by (simp add: run_inv_def example_run_world_def saved_ok_def example_contexts_def quiet_def hooked_def
        example_hooks_def)
qed

end
