(* ===== verification/Run_Props.thy ===== *)
theory Run_Props
  imports Run_Inv Run_Fuel Run_Example
begin

text \<open>
  The properties of running emulated code: nested calls in both directions keep
  the live contexts and their registers whatever long jumps happen, the engine
  only ever hands native addresses to native code, the stop period stays within
  its bounds, and calls of leaf functions return.
\<close>

section \<open>Stops\<close>

definition power_of_two_period :: "u64 \<Rightarrow> bool" where
  "power_of_two_period p \<longleftrightarrow> (\<exists>k \<in> {8..20}. p = push_bit k 1)"

lemma powers_8_20: "(\<exists>k \<in> {8..20}. P (push_bit k (1 :: u64))) \<longleftrightarrow>
    P 0x100 \<or> P 0x200 \<or> P 0x400 \<or> P 0x800 \<or> P 0x1000 \<or> P 0x2000 \<or> P 0x4000 \<or> P 0x8000 \<or> P 0x10000 \<or>
    P 0x20000 \<or> P 0x40000 \<or> P 0x80000 \<or> P 0x100000"
proof -
  have "{8..20} = {8, 9, 10, 11, 12, 13, 14, 15, 16, 17, 18, 19, 20 :: nat}"
    by (rule set_eqI) (simp, arith)
  then show ?thesis by (simp add: push_bit_eq_mult)
qed

lemma power_of_two_period_iff:
  "power_of_two_period p \<longleftrightarrow> p \<in> {0x100, 0x200, 0x400, 0x800, 0x1000, 0x2000, 0x4000, 0x8000, 0x10000, 0x20000, 0x40000,
     0x80000, 0x100000}"
  unfolding power_of_two_period_def using powers_8_20 [of "\<lambda>x. p = x"] by simp

lemma calibrate_period_power: "power_of_two_period p \<Longrightarrow> power_of_two_period (calibrate_period t a p)"
  unfolding power_of_two_period_iff calibrate_period_def
  by (elim insertE emptyE; simp add: push_bit_eq_mult drop_bit_eq_div)

lemma CpuTimeoutCb_period: "fst (snd (((fst \<circ> CpuTimeoutCb) ^^ n) t)) = fst (snd t)"
proof (induction n)
  case (Suc n)
  have "fst (snd (fst (CpuTimeoutCb t))) = fst (snd t)" for t
    by (cases t) (simp add: CpuTimeoutCb_def Let_def)
  with Suc show ?case by simp
qed simp

lemma CpuTimeoutCb_count: "fst (((fst \<circ> CpuTimeoutCb) ^^ n) t) = fst t + of_nat n"
proof (induction n)
  case (Suc n)
  have "fst (fst (CpuTimeoutCb t)) = fst t + 1" for t
    by (cases t) (simp add: CpuTimeoutCb_def Let_def)
  with Suc show ?case by simp
qed simp

text \<open>A count that reaches a multiple of the power of two within its period.\<close>

lemma mask_reached:
  fixes c :: u64
  assumes "k < 64"
  shows "\<exists>i \<in> {1..2 ^ k}. (c + of_nat i) AND (push_bit k 1 - 1) = 0"
proof -
  define i where "i = 2 ^ k - unat c mod 2 ^ k"
  have lt: "unat c mod 2 ^ k < 2 ^ k" by simp
  then have i: "i \<in> {1..2 ^ k}" by (simp add: Suc_le_eq i_def)
  have m: "push_bit k 1 - 1 = (mask k :: u64)" by (simp add: mask_eq_exp_minus_1 push_bit_eq_mult)
  have "unat (c + of_nat i) = (unat c + i) mod 2 ^ 64"
    by (simp add: unat_word_ariths unat_of_nat mod_add_right_eq)
  then have "unat (take_bit k (c + of_nat i)) = (unat c + i) mod 2 ^ 64 mod 2 ^ k"
    by (simp only: unsigned_take_bit_eq take_bit_eq_mod [where 'a = nat])
  also have "\<dots> = (unat c + i) mod 2 ^ k"
    using assms by (intro mod_mod_cancel le_imp_power_dvd) simp
  also have "unat c + i = unat c div 2 ^ k * 2 ^ k + 2 ^ k"
    using lt div_mult_mod_eq [of "unat c" "2 ^ k"] unfolding i_def by linarith
  finally have "take_bit k (c + of_nat i) = 0" by (simp add: unat_eq_0)
  then have "(c + of_nat i) AND (push_bit k 1 - 1) = 0"
    unfolding m by (simp add: take_bit_eq_mask)
  with i show ?thesis by blast
qed

text \<open>The state the block callback sees, and the effect of a whole run of the engine on it.\<close>

definition tb_of :: "cpu_id \<Rightarrow> ('u, 'c, 'z) world_scheme \<Rightarrow> tb_state" where
  "tb_of c w = (TbCount (cpus w c), ExitPeriodTbs (cpus w c), StoppedOnTimeout (cpus w c))"

lemma funpow_const: "((fst \<circ> (\<lambda>t. (t, False))) ^^ n) t = t"
  by (induction n) simp_all

text \<open>One run of the engine, in three parts: entering the critical section, Unicorn, and the end.\<close>

definition engine_start :: "('u, 'c) run_env \<Rightarrow> ('u, 'c, 'z) world_scheme \<Rightarrow> ('u, 'c, 'z) world_scheme" where
  "engine_start R w =
     (let w = hooks_update CriticalBegin w
      in if MAU_EMU_TIMEOUT_NONE (options (Env R)) then w else snd (read_perf R w))"

definition block_callback :: "('u, 'c) run_env \<Rightarrow> tb_state \<Rightarrow> tb_state \<times> bool" where
  "block_callback R = (if MAU_EMU_TIMEOUT_NONE (options (Env R)) then (\<lambda>t. (t, False)) else CpuTimeoutCb)"

lemma engine_start_simps [simp]:
  "cpus (engine_start R w) = cpus w" "UE (engine_start R w) = UE w" "mem (engine_start R w) = mem w"
  "mImageList (engine_start R w) = mImageList w" "Records (engine_start R w) = Records w"
  by (simp_all add: engine_start_def read_perf_def Let_def)

lemma run_engine_parts:
  assumes "run_engine R c pc w = Some (Done (e, w'))"
  obtains u m count period stopped where
    "uc_emu_start (UC (Env R)) c (CpuIsNativeCb (Env R) (engine_start R w)) (block_callback R) pc (UE w c, mem w, tb_of c w) =
      Some (e, u, m, (count, period, stopped))"
    "UE w' c = u" "mImageList w' = mImageList w" "Records w' = Records w"
    "ExitPeriodTbs (cpus w' c) = period \<or> (\<exists>t a. ExitPeriodTbs (cpus w' c) = calibrate_period t a period)"
proof (cases "uc_emu_start (UC (Env R)) c (CpuIsNativeCb (Env R) (engine_start R w)) (block_callback R) pc
    (UE w c, mem w, tb_of c w)")
  case None
  with assms show ?thesis
    by (simp add: run_engine_def engine_start_def block_callback_def tb_of_def read_perf_def Let_def split: if_splits)
next
  case (Some y)
  obtain e' u m count period stopped where y: "y = (e', u, m, count, period, stopped)" by (cases y) auto
  have "e' = e \<and> UE w' c = u \<and> mImageList w' = mImageList w \<and> Records w' = Records w \<and>
    (ExitPeriodTbs (cpus w' c) = period \<or> (\<exists>t a. ExitPeriodTbs (cpus w' c) = calibrate_period t a period))"
    using assms Some y
    by (cases "MAU_EMU_TIMEOUT_NONE (options (Env R))"; cases stopped)
      (force simp: run_engine_def engine_start_def block_callback_def tb_of_def read_perf_def Let_def ASSERT_w_def)+
  then show ?thesis using that Some y by blast
qed

lemma run_engine_period:
  assumes U: "uc_emu_ok (UC (Env R))" and r: "run_engine R c pc w = Some (Done (e, w'))"
    and p: "power_of_two_period (ExitPeriodTbs (cpus w c))"
  shows "power_of_two_period (ExitPeriodTbs (cpus w' c))"
proof -
  from r obtain u m count period stopped where
    s: "uc_emu_start (UC (Env R)) c (CpuIsNativeCb (Env R) (engine_start R w)) (block_callback R) pc (UE w c, mem w, tb_of c w) =
      Some (e, u, m, (count, period, stopped))"
    and w': "ExitPeriodTbs (cpus w' c) = period \<or> (\<exists>t a. ExitPeriodTbs (cpus w' c) = calibrate_period t a period)"
    by (rule run_engine_parts)
  from U s obtain n where "(count, period, stopped) = ((fst \<circ> block_callback R) ^^ n) (tb_of c w)"
    unfolding uc_emu_ok_def by blast
  then have "period = fst (snd (((fst \<circ> block_callback R) ^^ n) (tb_of c w)))" by (metis fst_conv snd_conv)
  then have "period = ExitPeriodTbs (cpus w c)"
    by (simp add: block_callback_def funpow_const CpuTimeoutCb_period tb_of_def split: if_splits)
  with w' p calibrate_period_power show ?thesis by metis
qed

lemma run_engine_native:
  fixes w :: "('u, 'c, 'z) world_scheme"
  assumes U: "uc_emu_ok (UC (Env R))" and r: "run_engine R c pc w = Some (Done (UC_ERR_FIND_TB, w'))"
  shows "CpuIsNativeCb (Env R) w' (reg (Env R) c (program_counter_reg c) w')"
proof -
  from r obtain u m count period stopped where
    s: "uc_emu_start (UC (Env R)) c (CpuIsNativeCb (Env R) (engine_start R w)) (block_callback R) pc (UE w c, mem w, tb_of c w) =
      Some (UC_ERR_FIND_TB, u, m, (count, period, stopped))"
    and w': "UE w' c = u" "mImageList w' = mImageList w" "Records w' = Records w"
    by (rule run_engine_parts)
  from U s have "CpuIsNativeCb (Env R) (engine_start R w) (rd (UC (Env R)) u (program_counter_reg c))"
    unfolding uc_emu_ok_def by blast
  moreover have "CpuIsNativeCb (Env R) (engine_start R w) = CpuIsNativeCb (Env R) w'"
    by (rule ext) (simp add: CpuIsNativeCb_def EmulatorIsNativeCall_def ImageFindByAddress_def w')
  ultimately show ?thesis by (simp add: reg_def w')
qed

section \<open>Leaf functions\<close>

text \<open>
  The code at pc is a leaf function of the X64 convention that computes f: it
  returns to the address on the top of the stack, when that is native code, with
  f of its arguments in RAX.
\<close>

definition X64_leaf :: "('u, 'c) uc_ops \<Rightarrow> u64 \<Rightarrow> (args \<Rightarrow> u64) \<Rightarrow> bool" where
  "X64_leaf U pc f \<longleftrightarrow>
     (\<forall>is_native block u m t A.
        is_native (load64 m (rd U u UC_X86_REG_RSP)) \<and>
        (\<forall>i < MAX_ARGS. A i =
           (if i = 0 then rd U u UC_X86_REG_RCX else if i = 1 then rd U u UC_X86_REG_RDX
            else if i = 2 then rd U u UC_X86_REG_R8 else if i = 3 then rd U u UC_X86_REG_R9
            else load64 m (cell (rd U u UC_X86_REG_RSP) (i + 1)))) \<longrightarrow>
        (\<exists>u' m' t'. uc_emu_start U CpuX64 is_native block pc (u, m, t) = Some (UC_ERR_FIND_TB, u', m', t') \<and>
           rd U u' UC_X86_REG_RIP = load64 m (rd U u UC_X86_REG_RSP) \<and> rd U u' UC_X86_REG_RAX = f A))"

text \<open>The CpuContext of X64 after CpuInitEx.\<close>

definition X64_cpu :: "'c CpuContext \<Rightarrow> bool" where
  "X64_cpu x \<longleftrightarrow> StackReg x = UC_X86_REG_RSP \<and> ProgramCounterReg x = UC_X86_REG_RIP \<and>
     ReturnValueReg x = UC_X86_REG_RAX \<and> EmuThunkPre x = Some X64Functions \<and> EmuThunkPost x = Some X64Functions"

lemma X64_cpu_fixed: "cpu_fixed x = cpu_fixed y \<Longrightarrow> X64_cpu x = X64_cpu y"
  by (cases x; cases y) (simp add: cpu_fixed_def X64_cpu_def)

lemma run_engine_leaf:
  fixes w :: "('u, 'c, 'z) world_scheme"
  assumes "X64_leaf (UC (Env R)) pc f" "uc_regs_ok (UC (Env R))"
    and "X64_ret_addr (Env R) CpuX64 w = RETURN_TO_NATIVE_MAGIC (Env R)" "\<forall>i < MAX_ARGS. X64_call_args (Env R) CpuX64 w i = A i"
  shows "\<exists>w'. run_engine R CpuX64 pc w = Some (Done (UC_ERR_FIND_TB, w')) \<and>
    reg (Env R) CpuX64 UC_X86_REG_RIP w' = RETURN_TO_NATIVE_MAGIC (Env R) \<and> reg (Env R) CpuX64 UC_X86_REG_RAX w' = f A"
proof -
  let ?U = "UC (Env R)"
  have native: "CpuIsNativeCb (Env R) w1 (load64 (mem w) (rd ?U (UE w CpuX64) UC_X86_REG_RSP))"
    and ra: "load64 (mem w) (rd ?U (UE w CpuX64) UC_X86_REG_RSP) = RETURN_TO_NATIVE_MAGIC (Env R)" for w1 :: "('u, 'c, 'z) world_scheme"
    using assms(3) by (simp_all add: X64_ret_addr_def X64NativeArgs_ok [OF assms(2)] reg_def CpuIsNativeCb_def)
  have args: "\<forall>i < MAX_ARGS. A i =
      (if i = 0 then rd ?U (UE w CpuX64) UC_X86_REG_RCX else if i = 1 then rd ?U (UE w CpuX64) UC_X86_REG_RDX
       else if i = 2 then rd ?U (UE w CpuX64) UC_X86_REG_R8 else if i = 3 then rd ?U (UE w CpuX64) UC_X86_REG_R9
       else load64 (mem w) (cell (rd ?U (UE w CpuX64) UC_X86_REG_RSP) (i + 1)))" (is ?args)
    using assms(4) unfolding X64_call_args_def X64NativeArgs_ok [OF assms(2)] reg_def fst_conv
    by (intro allI impI) (rule sym, blast)
  have "CpuIsNativeCb (Env R) (engine_start R w) (load64 (mem w) (rd ?U (UE w CpuX64) UC_X86_REG_RSP)) \<and> ?args"
    using native args by blast
  from X64_leaf_def [of ?U pc f, THEN iffD1, OF assms(1), THEN spec [where x = "CpuIsNativeCb (Env R) (engine_start R w)"],
      THEN spec [where x = "block_callback R"], THEN spec [where x = "UE w CpuX64"], THEN spec [where x = "mem w"],
      THEN spec [where x = "tb_of CpuX64 w"], THEN spec [where x = A], THEN mp, OF this]
  obtain u m count period stopped where
    s: "uc_emu_start ?U CpuX64 (CpuIsNativeCb (Env R) (engine_start R w)) (block_callback R) pc (UE w CpuX64, mem w, tb_of CpuX64 w) =
      Some (UC_ERR_FIND_TB, u, m, (count, period, stopped))"
    and u: "rd ?U u UC_X86_REG_RIP = load64 (mem w) (rd ?U (UE w CpuX64) UC_X86_REG_RSP)" "rd ?U u UC_X86_REG_RAX = f A"
    by (elim exE conjE) (rename_tac u m t, case_tac t, blast)
  from s have "\<exists>w'. run_engine R CpuX64 pc w = Some (Done (UC_ERR_FIND_TB, w'))"
    by (simp add: run_engine_def engine_start_def block_callback_def tb_of_def read_perf_def Let_def split: if_splits)
  then obtain w' where r: "run_engine R CpuX64 pc w = Some (Done (UC_ERR_FIND_TB, w'))" by blast
  then obtain u2 m2 t1 t2 t3 where
    "uc_emu_start ?U CpuX64 (CpuIsNativeCb (Env R) (engine_start R w)) (block_callback R) pc (UE w CpuX64, mem w, tb_of CpuX64 w) =
      Some (UC_ERR_FIND_TB, u2, m2, (t1, t2, t3))" and "UE w' CpuX64 = u2"
    by (rule run_engine_parts)
  with s have "UE w' CpuX64 = u" by simp
  with r u ra show ?thesis by (auto simp: reg_def)
qed

lemma CpuRunCtxInternal_leaf:
  fixes w :: "('u, 'c, 'z) world_scheme"
  assumes "X64_leaf (UC (Env R)) (ProgramCounter (contexts w p)) f" and U: "uc_regs_ok (UC (Env R))"
    and c: "Cpu_of p w = CpuX64" "X64_cpu (cpus w CpuX64)" "pending w = []" and q: "quiet (hooks w)"
  shows "\<exists>w'. CpuRunCtxInternal R run (Suc n) p w = Some (Done (f (Args (contexts w p)), w'))"
proof -
  let ?E = "Env R" and ?A = "Args (contexts w p)" and ?pc = "ProgramCounter (contexts w p)"
  let ?w = "CpuX64EmuThunkPre ?E CpuX64 ?A w"
  have ok: "X64_ok ?E CpuX64 w" using U c(2) by (simp add: X64_ok_def X64_cpu_def)
  have near: "near {CpuX64} w ?w" using EmuThunk_near(1) [OF U, of CpuX64 w X64Functions ?A] by (simp add: call_EmuThunkPre_def)
  have "X64_ret_addr ?E CpuX64 ?w = RETURN_TO_NATIVE_MAGIC ?E" "\<forall>i < MAX_ARGS. X64_call_args ?E CpuX64 ?w i = ?A i"
    using x64.pre_ret [OF ok] x64.pre_args [OF ok] by blast+
  from run_engine_leaf [OF assms(1) U this] obtain w1 where
    1: "run_engine R CpuX64 ?pc ?w = Some (Done (UC_ERR_FIND_TB, w1))"
    "reg ?E CpuX64 UC_X86_REG_RIP w1 = RETURN_TO_NATIVE_MAGIC ?E" "reg ?E CpuX64 UC_X86_REG_RAX w1 = f ?A" by blast
  have near1: "near {CpuX64} w w1" using near run_engine_near [OF 1(1)] near q by (meson near_def near_trans)
  then have k: "X64_cpu (cpus w1 CpuX64)" "pending w1 = []" "cpu_fixed (cpus w1 CpuX64) = cpu_fixed (cpus w CpuX64)"
    using X64_cpu_fixed [of "cpus w1 CpuX64" "cpus w CpuX64"] c by (simp_all add: near_def)
  then have "emulation_loop R run (Suc n) p CpuX64 ?pc ?w = Some (Done (CPU_REASON_RETURN_TO_NATIVE, w1))"
    using 1 by (simp add: interrupt_window_def REG_READ_ok [OF U] exit_reason_def X64_cpu_def reg_def)
  moreover obtain u where "CpuX64EmuThunkPost ?E CpuX64 ?A w1 = set_UE CpuX64 u w1" "rd (UC ?E) u UC_X86_REG_RAX = f ?A"
    using X64_post [OF U refl, where w = w1 and c = CpuX64 and A = ?A] k(1) 1(3) by (auto simp: X64_cpu_def)
  ultimately show ?thesis
    using c(2) k(1)
    by (simp add: CpuRunCtxInternal_def Let_def c(1) X64_cpu_def call_EmuThunkPre_def call_EmuThunkPost_def REG_READ_ok [OF U]
        del: emulation_loop.simps)
qed

lemma start_state_fields:
  fixes w :: "('u, 'c, 'z) world_scheme"
  assumes "uc_regs_ok (UC E)"
  shows "Args (contexts (start_state E p w) q) = Args (contexts w q)"
    "ProgramCounter (contexts (start_state E p w) q) = ProgramCounter (contexts w q)"
    "Cpu_of q (start_state E p w) = Cpu_of q w" "pending (start_state E p w) = pending w"
    "cpus (start_state E p w) = cpus w"
  by (simp_all add: start_state_def CpuStackPushRedZone_def save_uc_context_def REG_READ_ok [OF assms] REG_WRITE_ok [OF assms]
      Let_def ctx_update_def ASSERT_w_def case_prod_unfold)

text \<open>A context that is ready to run a leaf function runs it.\<close>

lemma leaf_ctx:
  fixes w :: "('u, 'c, 'z) world_scheme"
  assumes e: "env_ok R" and r: "ready R p L w" and leaf: "X64_leaf (UC (Env R)) (ProgramCounter (contexts w p)) f"
    and c: "Cpu_of p w = CpuX64" "X64_cpu (cpus w CpuX64)" "pending w = []"
  obtains w' where "CpuRunCtx R (run_native R n) (Suc m) fp p w = Some (Done (f (Args (contexts w p)), w'))" "ready R p L w'"
proof -
  let ?E = "Env R" and ?A = "Args (contexts w p)"
  let ?run = "run_native R n :: native \<Rightarrow> ('u, 'c, 'z) world_scheme \<Rightarrow> (u64, ('u, 'c, 'z) world_scheme) run"
  have U: "uc_ok (UC ?E)" and rg: "uc_regs_ok (UC ?E)" and x: "uc_context_ok (UC ?E)"
    and m: "\<not> MAU_ON_PRIVATE_STACK (options ?E)" "\<not> MAU_CHECK_ORPHAN_CONTEXTS (options ?E)"
    using e by (simp_all add: env_ok_def uc_ok_def)
  let ?ws = "start_state ?E p (hooks_update CriticalEnd (CpuEnterCritical p w))"
  have I1: "run_inv R (p # L) ?ws" using step_inv [OF start_step [OF U r]] by simp
  have ws: "Args (contexts ?ws p) = ?A" "ProgramCounter (contexts ?ws p) = ProgramCounter (contexts w p)" "Cpu_of p ?ws = CpuX64"
    "pending ?ws = []" "X64_cpu (cpus ?ws CpuX64)"
    using c X64_cpu_fixed [of "cpus ?ws CpuX64" "cpus w CpuX64"]
    by (simp_all add: start_state_fields [OF rg] CpuEnterCritical_def Let_def cpu_fixed_def)
  obtain w1 where 1: "CpuRunCtxInternal R ?run (Suc m) p ?ws = Some (Done (f ?A, w1))"
    using CpuRunCtxInternal_leaf [OF _ rg ws(3,5,4) run_inv_quiet [OF I1], of f ?run m] leaf unfolding ws(1,2) by blast
  have "run_inv R (p # L) w1"
    using step_inv [OF CpuRunCtxInternal_step(1) [OF run_native_good [OF e] U I1 refl 1]] by simp
  from finish_step [OF x this, of "f ?A"] obtain w2 where
    2: "(CpuLeaveCritical p (finish_state ?E p (f ?A) w1) :: (jump \<times> ('u, 'c, 'z) world_scheme, ('u, 'c, 'z) world_scheme) outcome) = Done w2"
    "ready R p L (hooks_update CriticalEnd w2)" "Ret (contexts w2 p) = f ?A" by blast
  have "CpuRunCtx R ?run (Suc m) fp p w = Some (Done (f ?A, hooks_update CriticalEnd w2))"
    unfolding CpuRunCtx_eq [OF m] 1 by (simp add: 2)
  with 2(2) that show ?thesis by blast
qed

lemma leaf_call:
  fixes w :: "('u, 'c, 'z) world_scheme"
  assumes e: "env_ok R" and I: "run_inv R L w" and leaf: "X64_leaf (UC (Env R)) pc f"
    and c: "X64_cpu (cpus w CpuX64)" "pending w = []" and free: "FreeList (RunContextAlloc w CpuX64) \<noteq> []"
  shows "\<exists>w'. CpuRunFunc R (run_native R n) (Suc m) fp CpuX64 pc A w = Some (Done (f A, w')) \<and> step R {} L [] w [] w'"
proof -
  obtain p rest where p: "FreeList (RunContextAlloc w CpuX64) = p # rest" using free by (cases "FreeList (RunContextAlloc w CpuX64)") auto
  note a = alloc_ready [OF I p]
  define w0 where "w0 = ctx_update p (\<lambda>x. x\<lparr>ProgramCounter := pc, Args := A\<rparr>) (alloc_state CpuX64 p w)"
  have r0: "ready R p L w0" unfolding w0_def by (rule ready_ctx_update(1) [OF a(2)]; simp)
  have own: "Cpu_of p w = CpuX64" using I p CpuAllocContext_first(3) by (auto simp: run_inv_def)
  obtain w2 where 2: "CpuRunCtx R (run_native R n) (Suc m) fp p w0 = Some (Done (f A, w2))" "ready R p L w2"
    using leaf_ctx [OF e r0, of f n m fp] leaf c own by (auto simp: w0_def)
  then have "CpuRunFunc R (run_native R n) (Suc m) fp CpuX64 pc A w = Some (Done (f A, free_state p w2))"
    unfolding CpuRunFunc_def Let_def a(1) by (simp add: w0_def free_ready(1) [OF 2(2)])
  with CpuRunFunc_step(1) [OF run_native_good [OF e] e I this] show ?thesis by blast
qed

text \<open>An image whose entry point is a leaf function returns from StartImage with its value.\<close>

lemma leaf_image:
  fixes w :: "('u, 'c, 'z) world_scheme"
  assumes e: "env_ok R" and I: "run_inv R L w" and leaf: "X64_leaf (UC (Env R)) (ImageEntry (Records w Record)) f"
    and c: "X64_cpu (cpus w CpuX64)" "pending w = []" and free: "FreeList (RunContextAlloc w CpuX64) \<noteq> []"
    and image: "LoadedImageBase R Handle = (EFI_SUCCESS, base)" "ImageFindByAddress base w = Some Record"
      "rec_Cpu (Records w Record) = Some CpuX64"
  shows "\<exists>w'. CpuRunImage R (run_native R n) (Suc m) fp Handle w =
    Some (Done (f (\<lambda>i. if i = 0 then Handle else if i = 1 then SystemTable R else 0), w'))"
proof -
  let ?A = "\<lambda>i :: nat. if i = 0 then Handle else if i = 1 then SystemTable R else 0"
  obtain p rest where p: "FreeList (RunContextAlloc w CpuX64) = p # rest" using free by (cases "FreeList (RunContextAlloc w CpuX64)") auto
  note a = alloc_ready [OF I p]
  define w1 where "w1 = rec_update Record (\<lambda>r. r\<lparr>ImageHandle := Handle, ImageExitJumpBuffer := next_frame (alloc_state CpuX64 p w)\<rparr>)
    (alloc_state CpuX64 p w)"
  define w2 where "w2 = ctx_update p (\<lambda>x. x\<lparr>ctx_ImageRecord := Some Record, ProgramCounter := ImageEntry (Records w1 Record), Args := ?A\<rparr>) w1"
  define w3 where "w3 = w2\<lparr>next_frame := next_frame (alloc_state CpuX64 p w) + 1\<rparr>"
  have r1: "ready R p L w1" unfolding w1_def by (rule ready_near(1) [OF a(2)]) simp
  have r2: "ready R p L w2" unfolding w2_def by (rule ready_ctx_update(1) [OF r1]; simp)
  have r3: "ready R p L w3" unfolding w3_def by (rule ready_near(1) [OF r2]) (simp add: near_def)
  have own: "Cpu_of p w = CpuX64" using I p CpuAllocContext_first(3) by (auto simp: run_inv_def)
  have w3: "Args (contexts w3 p) = ?A" "ProgramCounter (contexts w3 p) = ImageEntry (Records w Record)" "Cpu_of p w3 = CpuX64"
    "cpus w3 = cpus w" "pending w3 = pending w"
    by (simp_all add: w3_def w2_def w1_def rec_update_def own)
  have leaf': "X64_leaf (UC (Env R)) (ProgramCounter (contexts w3 p)) f" unfolding w3(2) by (rule leaf)
  have c': "X64_cpu (cpus w3 CpuX64)" "pending w3 = []" unfolding w3(4,5) by (rule c)+
  obtain w4 where 4: "CpuRunCtx R (run_native R n) (Suc m) fp p w3 = Some (Done (f ?A, w4))" "ready R p L w4"
    using leaf_ctx [OF e r3 leaf' w3(3) c', of n m fp] unfolding w3(1) .
  have run: "CpuRunCtx R (run_native R n) (Suc m) fp p
      ((ctx_update p (\<lambda>x. x\<lparr>ctx_ImageRecord := Some Record, ProgramCounter := ImageEntry (Records w1 Record), Args := ?A\<rparr>) w1)
        \<lparr>next_frame := next_frame (alloc_state CpuX64 p w) + 1\<rparr>) = Some (Done (f ?A, w4))"
    using 4(1) by (simp only: w3_def w2_def)
  have "CpuRunImage R (run_native R n) (Suc m) fp Handle w = Some (Done (f ?A, free_state p w4))"
    using run free_ready(1) [OF 4(2)] unfolding w1_def by (simp add: CpuRunImage_def Let_def image a(1))
  then show ?thesis by blast
qed

section \<open>The private stack\<close>

lemma contexts_restore [simp]: "contexts (restore_uc_context E p w) = contexts w"
  by (simp add: restore_uc_context_def ASSERT_w_def case_prod_unfold Let_def split: option.split)

lemma CpuLeaveCritical_contexts: "CpuLeaveCritical p w = Done w' \<Longrightarrow> contexts w' = contexts w"
  by (auto simp: CpuLeaveCritical_def Let_def ASSERT_w_def cpu_update_def split: option.splits)

lemma xor_clears: "(f :: u64) AND 1 \<noteq> 0 \<Longrightarrow> (f XOR 1) AND 1 = 0"
  by (simp add: and_one_eq even_xor_iff odd_iff_mod_2_eq_one [symmetric] split: if_splits)
    (simp add: and_one_eq mod_2_eq_odd even_xor_iff split: if_splits)

lemma if_returns: "(if b then Some (Jumped j) else Some (Done x)) = Some (Done y) \<longleftrightarrow> \<not> b \<and> x = y"
  by simp

section \<open>Properties\<close>


text \<open>
  C2: a call of emulated code that returns is transparent to everything below it:
  the chain is the one before the call, with the same contexts, and every
  processor with a live context has the registers it had, whatever the emulated
  code and the native code it called did.
\<close>

theorem emulated_call_is_transparent:
  fixes w w' :: "('u, 'c, 'z) world_scheme"
  assumes "env_ok R" "run_inv R L w" "CpuRunFunc R (run_native R n) m fp c pc A w = Some (Done (v, w'))"
  shows "run_inv R L w' \<and> mTopContext w' = mTopContext w \<and> map (contexts w') L = map (contexts w) L \<and>
    (\<forall>d. Contexts (cpus w' d) = Contexts (cpus w d)) \<and>
    (\<forall>d r. live d L w \<longrightarrow> reg (Env R) d r w' = reg (Env R) d r w)"
proof -
  have "step R {} L [] w [] w'"
    by (rule CpuRunFunc_step(1) [OF run_native_good [OF assms(1)] assms(1,2,3)])
  then have s: "run_inv R L w'" "keep L w w'" "\<forall>d r. live d L w \<longrightarrow> reg (Env R) d r w' = reg (Env R) d r w"
    by (simp_all add: step_def)
  have t: "mTopContext w' = head L" "mTopContext w = head L"
    using s(1) assms(2) by (auto simp: run_inv_def ctxs_ok_def dest: chain_head)
  have "filter (\<lambda>p. Cpu_of p w' = d) L = filter (\<lambda>p. Cpu_of p w = d) L" for d
    using s(2) by (intro filter_cong) (simp_all add: keep_def)
  then have "Contexts (cpus w' d) = Contexts (cpus w d)" for d
    using s(1) assms(2) by (simp add: run_inv_def ctxs_ok_def)
  with s t show ?thesis by (auto simp: keep_def)
qed

text \<open>
  C3: emulated code that calls native code gets its registers back, apart from
  the return value and, on X64, the stack pointer that the return pops, even when
  contexts leaked above it and had to be unwound.
\<close>

theorem NativeThunk_preserves_registers:
  fixes w w' :: "('u, 'c, 'z) world_scheme"
  assumes "env_ok R" "run_inv R (p # L) w" "call_NativeThunk f R (run_native R n) p pc w = Some (Done (v, w'))"
    and "r \<notin> thunk_regs f (StackReg (cpus w (Cpu_of p w)))"
  shows "run_inv R (p # L) w' \<and> reg (Env R) (Cpu_of p w) r w' = reg (Env R) (Cpu_of p w) r w \<and>
    contexts w' p = contexts w p"
proof -
  have U: "uc_ok (UC (Env R))" using assms(1) by (simp add: env_ok_def)
  from NativeThunk_step(1) [OF run_native_good [OF assms(1)] U assms(2) refl assms(3)] assms(4)
  show ?thesis by (simp add: step_def keep_def)
qed


text \<open>The result of running native code does not depend on the fuel: more fuel gives the same result.\<close>

lemma run_native_fuel:
  assumes "n \<le> m" "run_native R n t w = Some x"
  shows "run_native R m t w = Some x"
  using upto_run_native [OF assms(1)] assms(2) by (rule upto_Some)


text \<open>
  C23: however the period between two stops is adapted, it remains a power of two
  between UC\_EMU\_EXIT\_PERIOD\_TB\_MIN and UC\_EMU\_EXIT\_PERIOD\_TB\_MAX,
  which the mask in CpuTimeoutCb relies on.
\<close>

theorem exit_period_stays_in_bounds:
  assumes "uc_emu_ok (UC (Env R))" "power_of_two_period (ExitPeriodTbs (cpus w c))"
    and "run_engine R c pc w = Some (Done (e, w'))"
  shows "power_of_two_period (ExitPeriodTbs (cpus w' c)) \<and>
    ExitPeriodTbs (cpus w' c) \<in> {UC_EMU_EXIT_PERIOD_TB_MIN..UC_EMU_EXIT_PERIOD_TB_MAX}"
proof -
  have p: "power_of_two_period (ExitPeriodTbs (cpus w' c))" by (rule run_engine_period [OF assms(1,3,2)])
  then have "ExitPeriodTbs (cpus w' c) \<in> {UC_EMU_EXIT_PERIOD_TB_MIN..UC_EMU_EXIT_PERIOD_TB_MAX}"
    unfolding power_of_two_period_iff by (elim insertE emptyE) simp_all
  with p show ?thesis ..
qed

text \<open>
  C24: emulated code cannot run for more blocks than the period without being
  stopped: among that many consecutive calls of CpuTimeoutCb one asks for a stop.
\<close>

theorem CpuTimeoutCb_stops:
  assumes "power_of_two_period (ExitPeriodTbs (cpus w c))"
  shows "\<exists>i. i < unat (ExitPeriodTbs (cpus w c)) \<and> snd (CpuTimeoutCb (((fst \<circ> CpuTimeoutCb) ^^ i) (tb_of c w)))"
proof -
  obtain k where k: "k \<in> {8..20}" "ExitPeriodTbs (cpus w c) = push_bit k 1"
    using assms by (auto simp: power_of_two_period_def)
  from mask_reached [of k "TbCount (cpus w c)"] k(1) obtain i where
    i: "i \<in> {1..2 ^ k}" "(TbCount (cpus w c) + of_nat i) AND (push_bit k 1 - 1) = 0" by auto
  obtain j where j: "i = Suc j" using i(1) by (cases i) auto
  have "(2 :: nat) ^ k < 2 ^ 64" using k(1) by (intro power_strict_increasing) auto
  moreover have "push_bit k 1 = (of_nat (2 ^ k) :: u64)" by (simp add: push_bit_eq_mult)
  ultimately have "unat (push_bit k 1 :: u64) = 2 ^ k" by (simp only: unat_of_nat64)
  moreover have "snd (CpuTimeoutCb (((fst \<circ> CpuTimeoutCb) ^^ j) (tb_of c w)))"
    using i(2) CpuTimeoutCb_count [of j "tb_of c w"] CpuTimeoutCb_period [of j "tb_of c w"]
    by (cases "((fst \<circ> CpuTimeoutCb) ^^ j) (tb_of c w)") (simp add: CpuTimeoutCb_def Let_def tb_of_def k(2) j add.commute add.left_commute)
  ultimately show ?thesis using i(1) j k(2) by (intro exI [of _ j]) auto
qed


text \<open>
  C25: Exit of the image that is running goes to the SetJump of its CpuRunImage,
  with the status and the exit data in the record of the image; Exit with an
  unknown handle, or with the handle of another image than the innermost one
  running, returns EFI\_INVALID\_PARAMETER to the caller.
\<close>

theorem CpuExitImage_unwinds_innermost:
  fixes w :: "('u, 'c, 'z) cpu_world_scheme"
  assumes "quiet (hooks w)" "chain (contexts w) (mTopContext w) (K @ p # L)"
    and "\<forall>q \<in> set K. ctx_ImageRecord (contexts w q) = None" "ctx_ImageRecord (contexts w p) = Some r"
  shows "CpuExitImage_fn A w =
    (if ImageFindByHandle (A 0) w = Some r then
       Some (Jumped (ToFrame (ImageExitJumpBuffer (Records w r)),
         rec_update r (\<lambda>x. x\<lparr>ImageExitStatus := A 1, ImageExitDataSize := A 2, ImageExitData := A 3\<rparr>) w))
     else Some (Done (EFI_INVALID_PARAMETER, w)))"
proof -
  have find: "find_image_context (contexts w) t = Some (Some p)"
    if "chain (contexts w) t (K @ p # L)" "\<forall>q \<in> set K. ctx_ImageRecord (contexts w q) = None" for t
    using that
  proof (induction K arbitrary: t)
    case Nil
    with assms(4) show ?case by (subst find_image_context.simps) simp
  next
    case (Cons q K)
    then show ?case by (subst find_image_context.simps) simp
  qed
  have h: "ImageHandle (Records w x) = A 0" if "ImageFindByHandle (A 0) w = Some x" for x
    using that by (auto simp: ImageFindByHandle_def find_Some_iff)
  show ?thesis
    using find [OF assms(2,3)] h assms(1,4)
    by (auto simp: CpuExitImage_fn_def Let_def rec_update_def split: option.split)
qed

section \<open>Witnesses\<close>

lemma example_leaf: "X64_leaf (UC (Env example_run_env)) 0x20300 (\<lambda>A. A 0 + A 1)"
  by (auto simp: X64_leaf_def example_run_env_def example_env_def function_ops_def rd_def example_guest_def
      program_counter_reg_def Let_def) (metis prod_cases3)

lemma example_ready: "X64_cpu (cpus (example_run_world L) CpuX64)" "pending (example_run_world L) = []"
  "FreeList (RunContextAlloc (example_run_world [0x10000]) CpuX64) \<noteq> []"
  by (simp_all add: X64_cpu_def example_run_world_def example_cpu_def example_ctx_pool_def example_objects_def)

lemma example_call:
  obtains w where "CpuRunFunc example_run_env (run_native example_run_env n) (Suc m) 0x900 CpuX64 0x20300 A
      (example_run_world [0x10000]) = Some (Done (A 0 + A 1, w))"
  using leaf_call [OF example_env_ok example_run_inv example_leaf example_ready, where A = A and m = m and n = n and fp = "0x900"] by blast

lemma example_emulated:
  obtains w where "run_native example_run_env 2 (NEmulated 0x900 0x20300 (\<lambda>i. 20 + of_nat i) NReturn)
      (example_run_world [0x10000]) = Some (Done (41, w))"
proof -
  obtain w where w: "CpuRunFunc example_run_env (run_native example_run_env (Suc 0)) (Suc 0) 0x900 CpuX64 0x20300
      (\<lambda>i. 20 + of_nat i) (example_run_world [0x10000]) = Some (Done (20 + of_nat 0 + (20 + of_nat 1), w))"
    by (rule example_call)
  have "ImageFindByAddress 0x20300 (example_run_world [0x10000]) = Some 0x100"
    "rec_Cpu (Records (example_run_world [0x10000]) 0x100) = Some CpuX64"
    by (simp_all add: ImageFindByAddress_def covers_def example_run_world_def example_record_def)
  then have "run_native example_run_env (Suc (Suc 0)) (NEmulated 0x900 0x20300 (\<lambda>i. 20 + of_nat i) NReturn)
      (example_run_world [0x10000]) = Some (Done (41, w))"
    using w by (simp add: EmulatorVmEntry_def)
  then show ?thesis using that by (simp add: numeral_2_eq_2)
qed


theorem emulated_call_is_transparent_witness:
  "\<exists>w. CpuRunFunc example_run_env (run_native example_run_env 1) (Suc 0) 0x900 CpuX64 0x20300 (\<lambda>_. 4)
      (example_run_world [0x10000]) = Some (Done (8, w)) \<and> mTopContext w = Some 0x10000 \<and> run_inv example_run_env [0x10000] w"
proof -
  obtain w where w: "CpuRunFunc example_run_env (run_native example_run_env 1) (Suc 0) 0x900 CpuX64 0x20300 (\<lambda>_. 4)
      (example_run_world [0x10000]) = Some (Done (4 + 4, w))" by (rule example_call [where A = "\<lambda>_. 4"])
  with emulated_call_is_transparent [OF example_env_ok example_run_inv w] show ?thesis
    by (auto simp: example_run_world_def)
qed


text \<open>One run of the engine in the image, which ends with a call of the native function at 0x6000.\<close>

lemma example_engine:
  obtains w where "run_engine example_run_env CpuX64 0x20100 (example_run_world [0x10000]) = Some (Done (UC_ERR_FIND_TB, w))"
    "reg (Env example_run_env) CpuX64 UC_X86_REG_RIP w = 0x6000"
proof -
  have n: "CpuIsNativeCb (Env example_run_env) w 0x6000"
    if "mImageList w = [0x100]" "Records w = (\<lambda>_. example_record)" for w :: "(uc_reg \<Rightarrow> u64, uc_reg \<Rightarrow> u64) world"
    using that by (simp add: CpuIsNativeCb_def EmulatorIsNativeCall_def ImageFindByAddress_def covers_def example_record_def
        example_run_env_def example_env_def NATIVE_INSN_ALIGNMENT_def)
  have start: "is_native 0x6000 \<Longrightarrow> \<exists>u m t1 t2 t3. uc_emu_start (UC (Env example_run_env)) CpuX64 is_native block 0x20100
      (u0, m0, t) = Some (UC_ERR_FIND_TB, u, m, (t1, t2, t3)) \<and> u UC_X86_REG_RIP = 0x6000" for is_native block u0 m0 t
    by (cases "fst (block t)")
      (simp add: example_run_env_def example_env_def function_ops_def example_guest_def program_counter_reg_def Let_def)
  have "CpuIsNativeCb (Env example_run_env) (engine_start example_run_env (example_run_world [0x10000])) 0x6000"
    by (rule n) (simp_all add: example_run_world_def)
  note start [where is_native = "CpuIsNativeCb (Env example_run_env) (engine_start example_run_env (example_run_world [0x10000]))", OF this]
  from this [of "block_callback example_run_env" "\<lambda>_. 0" "\<lambda>_. 0" "tb_of CpuX64 (example_run_world [0x10000])"]
  obtain u m t1 t2 t3 where s: "uc_emu_start (UC (Env example_run_env)) CpuX64
      (CpuIsNativeCb (Env example_run_env) (engine_start example_run_env (example_run_world [0x10000])))
      (block_callback example_run_env) 0x20100 (\<lambda>_. 0, \<lambda>_. 0, tb_of CpuX64 (example_run_world [0x10000])) =
      Some (UC_ERR_FIND_TB, u, m, (t1, t2, t3))" "u UC_X86_REG_RIP = 0x6000"
    by blast
  have "\<not> MAU_EMU_TIMEOUT_NONE (options (Env example_run_env))"
    by (simp add: example_run_env_def example_env_def default_build_def)
  with s have "\<exists>w. run_engine example_run_env CpuX64 0x20100 (example_run_world [0x10000]) = Some (Done (UC_ERR_FIND_TB, w))"
    by (simp add: run_engine_def engine_start_def block_callback_def tb_of_def read_perf_def Let_def example_run_world_def)
  then obtain w where w: "run_engine example_run_env CpuX64 0x20100 (example_run_world [0x10000]) = Some (Done (UC_ERR_FIND_TB, w))" by blast
  then obtain u2 m2 t1' t2' t3' where "uc_emu_start (UC (Env example_run_env)) CpuX64
      (CpuIsNativeCb (Env example_run_env) (engine_start example_run_env (example_run_world [0x10000])))
      (block_callback example_run_env) 0x20100 (UE (example_run_world [0x10000]) CpuX64, mem (example_run_world [0x10000]),
       tb_of CpuX64 (example_run_world [0x10000])) = Some (UC_ERR_FIND_TB, u2, m2, (t1', t2', t3'))" "UE w CpuX64 = u2"
    by (rule run_engine_parts)
  with s have "reg (Env example_run_env) CpuX64 UC_X86_REG_RIP w = 0x6000"
    by (simp add: example_run_world_def reg_def rd_def example_run_env_def example_env_def function_ops_def)
  with w that show ?thesis by blast
qed

lemma example_uc_ok: "uc_emu_ok (UC (Env example_run_env))"
  using example_env_ok by (simp add: env_ok_def uc_ok_def)

lemma example_period: "power_of_two_period (ExitPeriodTbs (cpus (example_run_world L) c))"
  by (simp add: power_of_two_period_iff example_run_world_def example_cpu_def)


theorem exit_period_stays_in_bounds_witness:
  "\<exists>w. run_engine example_run_env CpuX64 0x20100 (example_run_world [0x10000]) = Some (Done (UC_ERR_FIND_TB, w)) \<and>
    ExitPeriodTbs (cpus w CpuX64) \<le> 0x100000"
proof -
  obtain w where w: "run_engine example_run_env CpuX64 0x20100 (example_run_world [0x10000]) = Some (Done (UC_ERR_FIND_TB, w))"
    by (rule example_engine)
  from exit_period_stays_in_bounds [OF example_uc_ok example_period w] w show ?thesis by auto
qed

theorem CpuTimeoutCb_stops_witness:
  "\<exists>i. i < 0x1000 \<and> snd (CpuTimeoutCb (((fst \<circ> CpuTimeoutCb) ^^ i) (tb_of CpuX64 (example_run_world []))))"
  using CpuTimeoutCb_stops [OF example_period [of "[]" CpuX64]] by (auto simp: example_run_world_def example_cpu_def)

definition example_private :: "(uc_reg \<Rightarrow> u64, uc_reg \<Rightarrow> u64) run_env" where
  "example_private = example_run_env\<lparr>Env := (Env example_run_env)\<lparr>options := default_build\<lparr>MAU_ON_PRIVATE_STACK := True\<rparr>\<rparr>,
     mNativeStackStart := 0x800, mNativeStackTop := 0x1000\<rparr>"


theorem NativeThunk_preserves_registers_witness:
  "\<exists>w. call_NativeThunk X64Functions example_run_env (run_native example_run_env 1) 0x10000 0x6200
      (example_run_world [0x10000]) = Some (Done (0, w)) \<and> run_inv example_run_env [0x10000] w \<and>
    reg (Env example_run_env) CpuX64 UC_X86_REG_RIP w = 0"
proof -
  let ?w = "example_run_world [0x10000]"
  have U: "uc_regs_ok (UC (Env example_run_env))" using example_env_ok by (simp add: env_ok_def uc_ok_def)
  have c: "Cpu_of 0x10000 ?w = CpuX64" "StackReg (cpus ?w CpuX64) = UC_X86_REG_RSP" "mTopContext ?w = Some 0x10000"
    "mem ?w = (\<lambda>_. 0)" "reg (Env example_run_env) CpuX64 UC_X86_REG_RIP ?w = 0"
    by (simp_all add: example_run_world_def example_contexts_def example_cpu_def reg_def rd_def example_run_env_def
        example_env_def function_ops_def)
  have t: "NativeValidateSupportedCall (options (Env example_run_env)) (bs example_run_env) 0x6200 = NativeCall 0x6200"
    by (simp add: NativeValidateSupportedCall_def EfiWrappersOverride_def example_run_env_def example_env_def example_bs_def
        default_build_def)
  have nc: "native_code example_run_env 0x6200 A = NReturn 0" for A by (simp add: example_run_env_def example_native_def)
  have "load64 (\<lambda>_. 0) a = 0" for a by (simp add: load64_def load32_def load16_def)
  then obtain w where w: "call_NativeThunk X64Functions example_run_env (run_native example_run_env 1) 0x10000 0x6200 ?w = Some (Done (0, w))"
    using c t by (simp add: call_NativeThunk_def NativeThunkX64_def X64NativeArgs_ok [OF U] NativeThunkCheckLeakedContexts_def
        CpuGetTopContext_def REG_WRITE_ok [OF U] CpuStackPop64_ok [OF U] Let_def nc)
  have "UC_X86_REG_RIP \<notin> thunk_regs X64Functions (StackReg (cpus ?w (Cpu_of 0x10000 ?w)))"
    using c by (simp add: thunk_regs_def)
  from NativeThunk_preserves_registers [OF example_env_ok example_run_inv w this] w c show ?thesis by auto
qed

theorem CpuExitImage_unwinds_innermost_witness:
  "\<exists>w. CpuExitImage_fn (\<lambda>i. if i = 0 then 0x55 else 7)
      ((example_run_world [0x10200, 0x10000])\<lparr>contexts := (contexts (example_run_world [0x10200, 0x10000]))
        (0x10000 := (contexts (example_run_world [0x10200, 0x10000]) 0x10000)\<lparr>ctx_ImageRecord := Some 0x100\<rparr>)\<rparr>) =
    Some (Jumped (ToFrame 0, w)) \<and> ImageExitStatus (Records w 0x100) = 7"
  by (subst CpuExitImage_unwinds_innermost [where K = "[0x10200]" and p = "0x10000" and L = "[]" and r = "0x100"])
    (simp_all add: example_run_world_def example_contexts_def quiet_def example_hooks_def ImageFindByHandle_def
      example_record_def rec_update_def)

end
