(* ===== verification/Run_Frame.thy ===== *)
theory Run_Frame
  imports Run_Inv
begin

text \<open>
  What running code never changes: the image list, where each image is and which
  processor runs it, and the machine type of each processor.  Only the image
  protocol changes the list.
\<close>

section \<open>The frame\<close>

definition image_view ::
  "('u, 'c, 'z) image_world_scheme \<Rightarrow> ptr list \<times> (ptr \<Rightarrow> u64 \<times> u64 \<times> u64 \<times> cpu_id option) \<times> (cpu_id \<Rightarrow> u16)" where
  "image_view w =
     (mImageList w,
      \<lambda>p. (ImageBase (Records w p), ImageSize (Records w p), ImageEntry (Records w p), rec_Cpu (Records w p)),
      \<lambda>c. EmuMachineType (cpus w c))"

named_theorems view_simps

lemma view_fields [view_simps]:
  "image_view (w\<lparr>mem := m\<rparr>) = image_view w" "image_view (w\<lparr>hooks := h\<rparr>) = image_view w"
  "image_view (w\<lparr>UE := u\<rparr>) = image_view w" "image_view (set_UE c x w) = image_view w"
  "image_view (hooks_update f w) = image_view w" "image_view (ASSERT_w b w) = image_view w"
  by (simp_all add: image_view_def set_UE_def ASSERT_w_def)

lemma view_cpu_fields [view_simps]:
  "image_view (w\<lparr>contexts := k\<rparr>) = image_view w" "image_view (w\<lparr>RunContextAlloc := a\<rparr>) = image_view w"
  "image_view (w\<lparr>mTopContext := t\<rparr>) = image_view w" "image_view (ctx_update p f w) = image_view w"
  by (simp_all add: image_view_def ctx_update_def)

lemma view_wrap_fields [view_simps]:
  "image_view (w\<lparr>mEventList := k\<rparr>) = image_view w" "image_view (w\<lparr>EventRecords := a\<rparr>) = image_view w"
  "image_view (w\<lparr>live_records := t\<rparr>) = image_view w"
  by (simp_all add: image_view_def)

lemma view_world_fields [view_simps]:
  "image_view (w\<lparr>perf_now := k\<rparr>) = image_view w" "image_view (w\<lparr>pending := a\<rparr>) = image_view w"
  "image_view (w\<lparr>next_frame := t\<rparr>) = image_view w" "image_view (w\<lparr>mOriginalStack := s\<rparr>) = image_view w"
  by (simp_all add: image_view_def)

lemma view_cpu_update: "(\<And>x. EmuMachineType (f x) = EmuMachineType x) \<Longrightarrow> image_view (cpu_update c f w) = image_view w"
  by (auto simp: image_view_def cpu_update_def)

lemma view_counters [view_simps]:
  "image_view (cpu_update c (\<lambda>x. x\<lparr>Contexts := g x\<rparr>) w) = image_view w"
  "image_view (cpu_update c (\<lambda>x. x\<lparr>ExitPeriodTbs := p x\<rparr>) w) = image_view w"
  "image_view (cpu_update c (\<lambda>x. x\<lparr>StoppedOnTimeout := b\<rparr>) w) = image_view w"
  "image_view (cpu_update c (\<lambda>x. x\<lparr>TbCount := n, ExitPeriodTbs := q, StoppedOnTimeout := b\<rparr>) w) = image_view w"
  by (rule view_cpu_update; simp)+

lemma view_rec_update [view_simps]:
  "image_view (rec_update p (\<lambda>r. r\<lparr>ImageExitStatus := a, ImageExitDataSize := b, ImageExitData := d\<rparr>) w) = image_view w"
  "image_view (rec_update p (\<lambda>r. r\<lparr>ImageHandle := h, ImageExitJumpBuffer := f\<rparr>) w) = image_view w"
  by (auto simp: image_view_def rec_update_def)

text \<open>Every state a computation returns or jumps with satisfies P, respectively Q.\<close>

definition inside :: "('j \<Rightarrow> bool) \<Rightarrow> ('a \<Rightarrow> bool) \<Rightarrow> ('j, 'a) outcome option \<Rightarrow> bool" where
  "inside J P x = (case x of Some (Done y) \<Rightarrow> P y | Some (Jumped j) \<Rightarrow> J j | _ \<Rightarrow> True)"

lemma inside_simps [simp]:
  "inside J P None" "inside J P (Some (Done y)) = P y" "inside J P (Some (Jumped j)) = J j" "inside J P (Some (Crashed c))"
  by (simp_all add: inside_def)

lemma inside_obind: "inside J P x \<Longrightarrow> (\<And>y. P y \<Longrightarrow> inside J Q (f y)) \<Longrightarrow> inside J Q (obind x f)"
proof (cases x)
  case (Some y)
  assume "inside J P x" "\<And>y. P y \<Longrightarrow> inside J Q (f y)"
  with Some show ?thesis by (cases y) simp_all
qed simp

lemma inside_mono: "inside J P x \<Longrightarrow> (\<And>y. P y \<Longrightarrow> Q y) \<Longrightarrow> inside J Q x"
  by (auto simp: inside_def split: option.splits outcome.splits)

lemma inside_pair: "inside J P x \<Longrightarrow> (\<And>y z. P (y, z) \<Longrightarrow> inside J Q (f y z)) \<Longrightarrow> inside J Q (obind x (\<lambda>(y, z). f y z))"
  by (erule inside_obind) auto

lemma inside_option: "inside J P y \<Longrightarrow> (\<And>z. inside J P (f z)) \<Longrightarrow> inside J P (case x of None \<Rightarrow> y | Some z \<Rightarrow> f z)"
  by (cases x) simp_all

lemma inside_prod: "(\<And>y z. inside J P (f y z)) \<Longrightarrow> inside J P (case x of (y, z) \<Rightarrow> f y z)"
  by (cases x) simp

lemma inside_if: "inside J P x \<Longrightarrow> inside J P y \<Longrightarrow> inside J P (if b then x else y)"
  by simp

text \<open>The computations whose states have the view V.\<close>

abbreviation views where "views V \<equiv> inside (\<lambda>(j, w). image_view w = V) (\<lambda>(v, w). image_view w = V)"
abbreviation views_w where "views_w V \<equiv> inside (\<lambda>(j, w). image_view w = V) (\<lambda>w. image_view w = V)"

definition run_frame ::
  "(native \<Rightarrow> ('u, 'c, 'z) world_scheme \<Rightarrow> (u64, ('u, 'c, 'z) world_scheme) run) \<Rightarrow> bool" where
  "run_frame run \<longleftrightarrow> (\<forall>t w. views (image_view w) (run t w))"

lemma run_frameD: "run_frame run \<Longrightarrow> image_view w = V \<Longrightarrow> views V (run t w)"
  by (auto simp: run_frame_def)

section \<open>Contexts\<close>

lemma view_REG [view_simps]:
  "image_view (snd (REG_READ U c r w)) = image_view w" "image_view (REG_WRITE U c r v w) = image_view w"
  by (simp_all add: REG_READ_def REG_WRITE_def Let_def view_simps split: prod.split)

lemma view_uc_context [view_simps]:
  "image_view (save_uc_context E p w) = image_view w" "image_view (restore_uc_context E p w) = image_view w"
  by (simp_all add: save_uc_context_def restore_uc_context_def Let_def view_simps split: prod.split option.split)

lemma view_compress_step [view_simps]: "image_view (compress_step E p w) = image_view w"
  by (simp add: compress_step_def Let_def view_simps)

lemma view_CpuEnterCritical [view_simps]: "image_view (CpuEnterCritical p w) = image_view w"
  by (simp add: CpuEnterCritical_def Let_def view_simps)

lemma views_CpuLeaveCritical: "image_view w = V \<Longrightarrow> inside J (\<lambda>w. image_view w = V) (Some (CpuLeaveCritical p w))"
  by (simp add: CpuLeaveCritical_def Let_def view_simps split: option.split)

lemma pool_does_not_jump: "ObjectFree C p s \<noteq> Jumped j" "ObjectAlloc C s \<noteq> Jumped j"
  by (auto simp: ObjectFree_def ObjectAlloc_def Let_def split: list.split option.split prod.split)

lemma views_CpuFreeContext: "image_view w = V \<Longrightarrow> inside J (\<lambda>w. image_view w = V) (Some (CpuFreeContext p w))"
  by (auto simp: CpuFreeContext_def Let_def view_simps pool_does_not_jump split: outcome.split)

lemma views_CpuAllocContext: "image_view w = V \<Longrightarrow> inside J (\<lambda>(q, w). image_view w = V) (Some (CpuAllocContext c w))"
  by (auto simp: CpuAllocContext_def Let_def view_simps pool_does_not_jump split: outcome.split)

lemma views_compress_loop:
  fixes J :: "'j \<Rightarrow> bool" and w :: "('u, 'c, 'z) cpu_world_scheme"
  shows "inside J (\<lambda>w'. image_view w' = image_view w) (compress_loop E p q w)"
proof (cases "compress_loop E p q w :: ('j, ('u, 'c, 'z) cpu_world_scheme) outcome option")
  case (Some r)
  let ?P = "\<lambda>E p q (w :: ('u, 'c, 'z) cpu_world_scheme) (r :: ('j, ('u, 'c, 'z) cpu_world_scheme) outcome). inside J (\<lambda>w'. image_view w' = image_view w) (Some r)"
  have "?P E p q w r"
  proof (rule compress_loop.raw_induct [where P = ?P, OF _ Some])
    fix loop E p q and w :: "('u, 'c, 'z) cpu_world_scheme" and r :: "('j, ('u, 'c, 'z) cpu_world_scheme) outcome"
    assume ih: "\<And>E p q w r. loop E p q w = Some r \<Longrightarrow> ?P E p q w r"
      and e: "(if p = q then Some (Done w) else case p of None \<Rightarrow> Some (Crashed NULL_dereference)
        | Some p \<Rightarrow> let w1 = compress_step E p w in loop E (PrevContext (contexts w1 p)) q w1) = Some r"
    show "?P E p q w r"
    proof (cases "p = q \<or> p = None")
      case False
      then obtain p' where p': "p = Some p'" "p \<noteq> q" by auto
      with e have "loop E (PrevContext (contexts (compress_step E p' w) p')) q (compress_step E p' w) = Some r"
        by (simp add: Let_def)
      from ih [OF this] show ?thesis by (simp add: view_simps)
    qed (use e in \<open>auto split: if_splits\<close>)
  qed
  with Some show ?thesis by simp
qed simp

lemma views_free_loop:
  fixes J :: "'j \<Rightarrow> bool" and w :: "('u, 'c, 'z) cpu_world_scheme"
  shows "inside J (\<lambda>w'. image_view w' = image_view w) (free_loop p q w)"
proof (cases "free_loop p q w :: ('j, ('u, 'c, 'z) cpu_world_scheme) outcome option")
  case (Some r)
  let ?P = "\<lambda>p q (w :: ('u, 'c, 'z) cpu_world_scheme) (r :: ('j, ('u, 'c, 'z) cpu_world_scheme) outcome). inside J (\<lambda>w'. image_view w' = image_view w) (Some r)"
  have "?P p q w r"
  proof (rule free_loop.raw_induct [where P = ?P, OF _ Some])
    fix loop p q and w :: "('u, 'c, 'z) cpu_world_scheme" and r :: "('j, ('u, 'c, 'z) cpu_world_scheme) outcome"
    assume ih: "\<And>p q w r. loop p q w = Some r \<Longrightarrow> ?P p q w r"
      and e: "(if p = q then Some (Done w) else case p of None \<Rightarrow> Some (Crashed NULL_dereference)
        | Some p \<Rightarrow> let next = PrevContext (contexts w p)
            in case CpuFreeContext p w of Done w1 \<Rightarrow> loop next q w1 | Jumped j \<Rightarrow> Some (Jumped j) | Crashed c \<Rightarrow> Some (Crashed c)) = Some r"
    show "?P p q w r"
    proof (cases "p = q \<or> p = None")
      case False
      then obtain p' where p': "p = Some p'" "p \<noteq> q" by auto
      have *: "inside J (\<lambda>w'. image_view w' = image_view w) (Some (CpuFreeContext p' w))" by (rule views_CpuFreeContext) simp
      show ?thesis
      proof (cases "CpuFreeContext p' w :: ('j, ('u, 'c, 'z) cpu_world_scheme) outcome")
        case (Done w1)
        with e p' have "loop (PrevContext (contexts w p')) q w1 = Some r" by (simp add: Let_def)
        from ih [OF this] * Done show ?thesis by simp
      next
        case (Jumped j)
        with e p' have "r = Jumped j" by (simp add: Let_def)
        with * Jumped show ?thesis by simp
      next
        case (Crashed c)
        with e p' have "r = Crashed c" by (simp add: Let_def)
        then show ?thesis by simp
      qed
    qed (use e in \<open>auto split: if_splits\<close>)
  qed
  with Some show ?thesis by simp
qed simp

lemma views_compress:
  "image_view w = V \<Longrightarrow> inside J (\<lambda>w. image_view w = V) (CpuCompressLeakedContexts E p b w)"
  "image_view w = V \<Longrightarrow> inside J (\<lambda>w. image_view w = V) (NativeThunkCheckLeakedContexts E p w)"
proof -
  have c: "inside J (\<lambda>w. image_view w = V) (CpuCompressLeakedContexts E p b w)" if "image_view w = V" for b w
  proof -
    have e: "CpuCompressLeakedContexts E p b w =
        (let w = hooks_update CriticalBegin w; F = mTopContext w; T = (if b then PrevContext (contexts w p) else Some p)
         in obind (compress_loop E F T (w\<lparr>mTopContext := T\<rparr>)) (\<lambda>w. free_loop F T (hooks_update CriticalEnd w)))"
      by (simp add: CpuCompressLeakedContexts_def obind_def Let_def)
    show ?thesis
      unfolding e Let_def
      by (rule inside_obind [OF inside_mono [OF views_compress_loop]])
        (auto simp: view_simps that intro: inside_mono [OF views_free_loop])
  qed
  show "image_view w = V \<Longrightarrow> inside J (\<lambda>w. image_view w = V) (CpuCompressLeakedContexts E p b w)" by (rule c)
  show "image_view w = V \<Longrightarrow> inside J (\<lambda>w. image_view w = V) (NativeThunkCheckLeakedContexts E p w)"
    by (simp add: NativeThunkCheckLeakedContexts_def c)
qed

section \<open>One turn of the loop\<close>

lemma views_run_engine: "views (image_view w) (run_engine R c pc w)"
  by (auto simp: run_engine_def Let_def read_perf_def view_simps split: option.splits prod.splits)

lemma view_stack [view_simps]:
  "image_view (CpuStackPush64 E c v w) = image_view w" "image_view (snd (CpuStackPop64 E c w)) = image_view w"
  "image_view (CpuStackPushRedZone E c w) = image_view w"
  by (simp_all add: CpuStackPush64_def CpuStackPop64_def CpuStackPushRedZone_def REG_READ_def REG_WRITE_def Let_def view_simps
      split: prod.split)

lemma view_fold: "(\<And>x w. image_view (f x w) = image_view w) \<Longrightarrow> image_view (fold f xs w) = image_view w"
  by (induction xs arbitrary: w) simp_all

lemma view_EmuThunk [view_simps]:
  "image_view (call_EmuThunkPre f E c A w) = image_view w" "image_view (call_EmuThunkPost f E c A w) = image_view w"
  by (cases f; simp add: call_EmuThunkPre_def CpuX64EmuThunkPre_def CpuAArch64EmuThunkPre_def Let_def view_simps view_fold)
    (cases f; simp add: call_EmuThunkPost_def CpuX64EmuThunkPost_def CpuAArch64EmuThunkPost_def Let_def view_simps view_fold)

lemma view_NativeArgs:
  "X64NativeArgs E c w = (A, ra, sp, w') \<Longrightarrow> image_view w' = image_view w"
  "AArch64NativeArgs E c w = (A, ra, sp, w') \<Longrightarrow> image_view w' = image_view w"
  by (auto simp: X64NativeArgs_def AArch64NativeArgs_def REG_READ_def Let_def view_simps split: prod.splits)

lemma views_call_wrapper:
  fixes w :: "('u, 'c, 'z) world_scheme"
  assumes "image_view w = V"
  shows "views V (call_wrapper R target pc ra A w)"
  using assms
  by (cases target)
    (auto simp: call_wrapper_def NativeUnsupported_fn_def CpuExitImage_fn_def EfiWrapperCreateEventCommon_fn_def
      EfiWrapperCloseEvent_fn_def Let_def view_simps split: option.split prod.split)

lemma views_thunk:
  fixes w :: "('u, 'c, 'z) world_scheme"
  assumes "run_frame run" "image_view w = V"
  shows "views V (call_NativeThunk f R run p pc w)"
proof -
  have body: "views V (case target of NativeCall q \<Rightarrow> run (t q) w | _ \<Rightarrow> call_wrapper R target pc ra A (w\<lparr>mem := m\<rparr>))"
    if "image_view w = V" for target t ra A m and w :: "('u, 'c, 'z) world_scheme"
    using run_frameD [OF assms(1) that] views_call_wrapper [of "w\<lparr>mem := m\<rparr>"] that
    by (cases target) (simp_all add: view_simps)
  have after: "views V (obind (NativeThunkCheckLeakedContexts E p w) (\<lambda>w. let w = REG_WRITE U c r v w in Some (Done (g w))))"
    if "image_view w = V" "\<And>w. image_view (snd (g w)) = image_view w" for E U c r v g and w :: "('u, 'c, 'z) world_scheme"
    by (rule inside_obind [OF views_compress(2) [OF that(1)]]) (use that(2) in \<open>auto simp: Let_def case_prod_beta view_simps\<close>)
  have x: "views V (NativeThunkX64 R run p pc w)"
  proof -
    obtain A ra sp w1 where a: "X64NativeArgs (Env R) (Cpu_of p w) w = (A, ra, sp, w1)" by (metis prod_cases4)
    have "image_view w1 = V" using view_NativeArgs(1) [OF a] assms(2) by simp
    then show ?thesis
      unfolding NativeThunkX64_def Let_def a prod.case
      by (intro inside_pair [OF body [unfolded Let_def]] after [unfolded Let_def]) (simp_all add: view_simps)
  qed
  have y: "views V (NativeThunkAArch64 R run p pc w)"
  proof -
    obtain A ra sp w1 where a: "AArch64NativeArgs (Env R) (Cpu_of p w) w = (A, ra, sp, w1)" by (metis prod_cases4)
    have w1: "image_view w1 = V" using view_NativeArgs(2) [OF a] assms(2) by simp
    have same: "w1\<lparr>mem := mem w1\<rparr> = w1" by simp
    show ?thesis
      unfolding NativeThunkAArch64_def Let_def a prod.case
      by (intro inside_pair [OF body [OF w1, where m = "mem w1", unfolded same]] after [unfolded Let_def]) (simp_all add: view_simps)
  qed
  show ?thesis using x y by (cases f) (simp_all add: call_NativeThunk_def)
qed

lemma views_interrupt_window:
  fixes w :: "('u, 'c, 'z) world_scheme"
  assumes "run_frame run" "image_view w = V"
  shows "views_w V (interrupt_window run w)"
  unfolding interrupt_window_def
  by (auto split: list.split intro!: inside_pair [OF run_frameD [OF assms(1)]] simp: view_simps assms(2))

lemma views_emulation_loop:
  fixes w :: "('u, 'c, 'z) world_scheme"
  assumes "run_frame run" "image_view w = V"
  shows "views V (emulation_loop R run n p c pc w)"
  using assms(2)
proof (induction n arbitrary: pc w)
  case (Suc n)
  have rest: "views V (let (pc, w) = REG_READ (UC (Env R)) c (ProgramCounterReg (cpus w c)) w
      in case exit_reason (Env R) e pc of
           CPU_REASON_NONE \<Rightarrow> emulation_loop R run n p c pc (ASSERT_w (pc \<noteq> 0) w)
         | CPU_REASON_CALL_TO_NATIVE \<Rightarrow>
             (case NativeThunk (cpus w c) of None \<Rightarrow> Some (Crashed NULL_dereference)
              | Some f \<Rightarrow> obind (call_NativeThunk f R run p pc w) (\<lambda>(pc, w). emulation_loop R run n p c pc w))
         | reason \<Rightarrow> Some (Done (reason, w)))"
    if "image_view w = V" for e and w :: "('u, 'c, 'z) world_scheme"
  proof -
    obtain pc1 w1 where r: "REG_READ (UC (Env R)) c (ProgramCounterReg (cpus w c)) w = (pc1, w1)" by (metis surj_pair)
    then have w1: "image_view w1 = V" using view_REG(1) [of "UC (Env R)" c "ProgramCounterReg (cpus w c)" w] that by simp
    have "views V (obind (call_NativeThunk f R run p pc1 w1) (\<lambda>(pc, w). emulation_loop R run n p c pc w))" for f
      by (rule inside_pair [OF views_thunk [OF assms(1) w1]]) (simp add: Suc.IH)
    then show ?thesis
      using w1 Suc.IH by (auto simp: r view_simps split: CpuExitReason.split option.split)
  qed
  have eng: "views V (run_engine R c pc w)" using views_run_engine [of w R c pc] Suc.prems by simp
  show ?case
    unfolding emulation_loop.simps
    by (rule inside_pair [OF eng], rule inside_obind [OF views_interrupt_window [OF assms(1)]]) (use rest [unfolded Let_def] in \<open>auto simp: Let_def\<close>)
qed simp

section \<open>Calls\<close>

lemma views_CpuRunCtxInternal:
  fixes w :: "('u, 'c, 'z) world_scheme"
  assumes "run_frame run" "image_view w = V"
  shows "views V (CpuRunCtxInternal R run n p w)"
proof -
  have "views V (emulation_loop R run n p c pc (call_EmuThunkPre f E d A w))" for c pc f E d A
    by (rule views_emulation_loop [OF assms(1)]) (simp add: view_simps assms(2))
  note loop = inside_pair [OF this]
  have post: "image_view (snd (REG_READ U c r (call_EmuThunkPost f E d A w))) = V" if "image_view w = V"
    for U c r f E d A and w :: "('u, 'c, 'z) world_scheme"
    using that by (simp add: view_simps)
  show ?thesis
    unfolding CpuRunCtxInternal_def Let_def
    by (auto split: option.split intro!: loop simp: case_prod_beta post)
qed

lemma views_CpuRunCtxOnPrivateStack:
  fixes w :: "('u, 'c, 'z) world_scheme"
  assumes "run_frame run" "image_view w = V" "\<not> MAU_CHECK_ORPHAN_CONTEXTS (options (Env R))"
  shows "views V (CpuRunCtxOnPrivateStack R run n fp p w)"
proof -
  have enter: "image_view (if b then CpuStackPushRedZone E c (ctx_update p f (save_uc_context E p w))
      else let (e, u) = uc_context_restore U x y in ASSERT_w (e = UC_ERR_OK) (set_UE c u w)) = V"
    if "image_view w = V" for b E c f U x y and w :: "('u, 'c, 'z) world_scheme"
    using that by (simp add: view_simps split: prod.split)
  have leave: "views V (obind (Some (CpuLeaveCritical p w)) (\<lambda>w. if b w then Some (Jumped (j w, w)) else Some (Done ((), w))))"
    if "image_view w = V" for b j and w :: "('u, 'c, 'z) world_scheme"
    by (rule inside_obind [OF views_CpuLeaveCritical [OF that]]) auto
  show ?thesis
    unfolding CpuRunCtxOnPrivateStack_def Let_def
    using assms(3)
    by (simp only: if_False obind_simps prod.case)
      (intro inside_pair [OF views_CpuRunCtxInternal [OF assms(1)]] leave; simp add: view_simps assms(2) split: prod.split)
qed

lemma views_CpuRunCtx:
  fixes w :: "('u, 'c, 'z) world_scheme"
  assumes "run_frame run" "image_view w = V" "env_ok R"
  shows "views V (CpuRunCtx R run n fp p w)"
proof -
  have "views V (CpuRunCtxOnPrivateStack R run n fp p (CpuEnterCritical p w))"
    by (rule views_CpuRunCtxOnPrivateStack [OF assms(1)]) (use assms(2,3) in \<open>simp_all add: view_simps env_ok_def\<close>)
  then have "views V (obind (CpuRunCtxOnPrivateStack R run n fp p (CpuEnterCritical p w))
      (\<lambda>(_, w). Some (Done (Ret (contexts w p), hooks_update CriticalEnd w))))"
    by (rule inside_pair) (simp add: view_simps)
  then show ?thesis using assms(3) by (simp add: CpuRunCtx_def Let_def env_ok_def)
qed

lemma views_free:
  fixes w :: "('u, 'c, 'z) world_scheme"
  shows "image_view w = V \<Longrightarrow> views V (obind (Some (CpuFreeContext p w)) (\<lambda>w. Some (Done (v, w))))"
  by (rule inside_obind [OF views_CpuFreeContext]) auto

lemma views_CpuRunFunc:
  fixes w :: "('u, 'c, 'z) world_scheme"
  assumes "run_frame run" "image_view w = V" "env_ok R"
  shows "views V (CpuRunFunc R run n fp c pc A w)"
  unfolding CpuRunFunc_def Let_def
  by (rule inside_pair [OF views_CpuAllocContext [OF assms(2)]])
      (auto split: option.split intro!: inside_pair [OF views_CpuRunCtx [OF assms(1) _ assms(3)]] views_free simp: view_simps)

lemma views_EmulatorVmEntry:
  fixes w :: "('u, 'c, 'z) world_scheme"
  assumes "run_frame run" "image_view w = V" "env_ok R"
  shows "views V (EmulatorVmEntry R run n fp pc A p w)"
  by (auto simp: EmulatorVmEntry_def views_CpuRunFunc [OF assms] split: option.split)

lemma views_CpuRunImage:
  fixes w :: "('u, 'c, 'z) world_scheme"
  assumes "run_frame run" "image_view w = V" "env_ok R"
  shows "views V (CpuRunImage R run n fp H w)"
proof -
  have exit: "views V (obind (CpuCompressLeakedContexts (Env R) p True w)
      (\<lambda>w. case gBS_Exit_fails R (h w) of None \<Rightarrow> Some (Jumped (j w, w)) | Some Status \<Rightarrow> Some (Done (Status, ASSERT_w (b Status) w))))"
    if "image_view w = V" for p h b and j :: "('u, 'c, 'z) world_scheme \<Rightarrow> jump" and w :: "('u, 'c, 'z) world_scheme"
    by (rule inside_obind [OF views_compress(1) [OF that]]) (auto simp: view_simps split: option.split)
  have run: "views V (case CpuRunCtx R run n fp p w of
      None \<Rightarrow> None
    | Some (Done (v, w)) \<Rightarrow> obind (Some (CpuFreeContext p w)) (\<lambda>w. Some (Done (v, w)))
    | Some (Crashed c) \<Rightarrow> Some (Crashed c)
    | Some (Jumped (j, w)) \<Rightarrow>
        if j \<noteq> ToFrame frame then Some (Jumped (j, w))
        else obind (CpuCompressLeakedContexts (Env R) p True w)
          (\<lambda>w. case gBS_Exit_fails R (h w) of
                 None \<Rightarrow> Some (Jumped (jmp w, w)) | Some Status \<Rightarrow> Some (Done (Status, ASSERT_w (b Status) w))))"
    if "image_view w = V" for p frame h jmp b and w :: "('u, 'c, 'z) world_scheme"
    using views_CpuRunCtx [OF assms(1) that assms(3), of n fp p] exit
    by (cases "CpuRunCtx R run n fp p w") (auto split: outcome.split intro: views_free)
  show ?thesis
    unfolding CpuRunImage_def Let_def
    by (rule run [unfolded Let_def] inside_prod inside_if inside_option inside_pair [OF views_CpuAllocContext [OF assms(2)]]
      | simp add: view_simps assms(2))+
qed

lemma run_native_frame:
  assumes "env_ok R"
  shows "run_frame (run_native R n :: native \<Rightarrow> ('u, 'c, 'z) world_scheme \<Rightarrow> (u64, ('u, 'c, 'z) world_scheme) run)"
proof (induction n)
  case 0
  show ?case by (simp add: run_frame_def)
next
  case (Suc n)
  note ih = run_frameD [OF Suc]
  show ?case unfolding run_frame_def
  proof (intro allI)
    fix t and w :: "('u, 'c, 'z) world_scheme"
    show "views (image_view w) (run_native R (Suc n) t w)"
    proof (cases t)
      case (NEmulated fp pc A k)
      then show ?thesis
        by (auto split: option.split intro!: inside_pair [OF views_EmulatorVmEntry [OF Suc refl assms]] ih)
    next
      case (NStartImage fp H k)
      then show ?thesis
        using views_CpuRunImage [OF Suc refl assms, of w n fp H]
        by (cases "CpuRunImage R (run_native R n) n fp H w") (auto split: outcome.split jump.split intro!: ih)
    next
      case (NNotify fp e r k)
      then show ?thesis
        by (auto simp: EfiWrappersEventNotify_def Let_def intro!: inside_pair [OF views_CpuRunFunc [OF Suc refl assms]] ih)
    next
      case (NSetJump j body h k)
      then show ?thesis
        using ih [OF refl, of w body] by (cases "run_native R n body w") (auto split: outcome.split intro!: ih)
    qed (simp_all add: view_simps ih)
  qed
qed

end
