(* ===== verification/Run_Asserts.thy ===== *)
theory Run_Asserts
  imports Run_Frame Run_Props
begin

text \<open>
  The assertions of the driver: while emulated code runs, whatever native code
  does and whatever long jumps happen, none of them fails.
\<close>

section \<open>The assertion flag\<close>

abbreviation flag :: "('u, 'c, 'z) machine_scheme \<Rightarrow> bool" where "flag w \<equiv> assert_failed (hooks w)"

text \<open>The computations whose states have the flag b.\<close>

abbreviation flags where "flags b \<equiv> inside (\<lambda>(j, w). flag w = b) (\<lambda>(v, w). flag w = b)"
abbreviation flags_w where "flags_w b \<equiv> inside (\<lambda>(j, w). flag w = b) (\<lambda>w. flag w = b)"

lemma inside_obindI:
  "inside J P x \<Longrightarrow> (\<And>y. x = Some (Done y) \<Longrightarrow> P y \<Longrightarrow> inside J Q (f y)) \<Longrightarrow> inside J Q (obind x f)"
proof (cases x)
  case (Some y)
  assume "inside J P x" "\<And>y. x = Some (Done y) \<Longrightarrow> P y \<Longrightarrow> inside J Q (f y)"
  with Some show ?thesis by (cases y) simp_all
qed simp

section \<open>What the environment promises\<close>

text \<open>
  The engine does not stop at the address 0 (its callers enable the exits, which
  takes the meaning from the until argument), and Exit of the firmware does not
  come back for an image that was started.
\<close>

definition stops_ok :: "('u, 'c) uc_ops \<Rightarrow> bool" where
  "stops_ok U \<longleftrightarrow>
     (\<forall>cpu is_native block pc u m t u' m' t'.
        uc_emu_start U cpu is_native block pc (u, m, t) = Some (UC_ERR_OK, u', m', t') \<longrightarrow> rd U u' (program_counter_reg cpu) \<noteq> 0)"

definition assert_env :: "('u, 'c) run_env \<Rightarrow> bool" where
  "assert_env R \<longleftrightarrow> env_ok R \<and> stops_ok (UC (Env R)) \<and> (\<forall>H. gBS_Exit_fails R H = None)"

text \<open>
  CpuExitImage asserts that an image is running: the live contexts L hold one of
  an image, or no address stands for Exit.
\<close>

definition exit_ok :: "('u, 'c) run_env \<Rightarrow> ptr list \<Rightarrow> ('u, 'c, 'z) cpu_world_scheme \<Rightarrow> bool" where
  "exit_ok R L w \<longleftrightarrow> (\<exists>p \<in> set L. ctx_ImageRecord (contexts w p) \<noteq> None) \<or>
     (\<forall>pc. NativeValidateSupportedCall (options (Env R)) (bs R) pc \<noteq> CpuExitImage)"

text \<open>A processor that can run code has the program counter of its instruction set.\<close>

definition cpus_ready :: "('u, 'c, 'z) machine_scheme \<Rightarrow> bool" where
  "cpus_ready w \<longleftrightarrow> (\<forall>c. EmuThunkPre (cpus w c) \<noteq> None \<longrightarrow> ProgramCounterReg (cpus w c) = program_counter_reg c)"

definition assert_state :: "('u, 'c) run_env \<Rightarrow> ptr list \<Rightarrow> ('u, 'c, 'z) cpu_world_scheme \<Rightarrow> bool" where
  "assert_state R L w \<longleftrightarrow> exit_ok R L w \<and> cpus_ready w"

lemma cpu_fixed_fields:
  "cpu_fixed x = cpu_fixed y \<Longrightarrow> EmuThunkPre x = EmuThunkPre y \<and> ProgramCounterReg x = ProgramCounterReg y"
  by (cases x; cases y) (simp add: cpu_fixed_def)

lemma assert_state_keep: "keep L w w' \<Longrightarrow> assert_state R L w \<Longrightarrow> assert_state R L w'"
  unfolding assert_state_def exit_ok_def cpus_ready_def keep_def using cpu_fixed_fields by metis

lemma assert_state_more: "assert_state R L w \<Longrightarrow> assert_state R (K @ L) w"
  by (auto simp: assert_state_def exit_ok_def)

definition calm ::
  "('u, 'c) run_env \<Rightarrow> (native \<Rightarrow> ('u, 'c, 'z) world_scheme \<Rightarrow> (u64, ('u, 'c, 'z) world_scheme) run) \<Rightarrow> bool" where
  "calm R run \<longleftrightarrow> (\<forall>t w K L. run_inv R (K @ L) w \<longrightarrow> assert_state R L w \<longrightarrow> flags (flag w) (run t w))"

lemma calmD: "calm R run \<Longrightarrow> run_inv R (K @ L) w \<Longrightarrow> assert_state R L w \<Longrightarrow> flag w = b \<Longrightarrow> flags b (run t w)"
  by (auto simp: calm_def)

section \<open>The pieces\<close>

lemma run_engine_hooks:
  assumes "run_engine R c pc w = Some (Done (e, w'))" "quiet (hooks w)"
  shows "hooks w' = hooks w"
  using assms unfolding run_engine_def
  by (auto simp: Let_def read_perf_def ASSERT_w_def split: option.splits prod.splits if_splits)

lemma find_image_context_found:
  "chain h t C \<Longrightarrow> \<exists>p \<in> set C. ctx_ImageRecord (h p) \<noteq> None \<Longrightarrow> \<exists>q. find_image_context h t = Some (Some q)"
proof (induction C arbitrary: t)
  case (Cons p C)
  then show ?case
    by (cases "ctx_ImageRecord (h p) = None") (auto simp: find_image_context.simps [of h "Some p"])
qed simp

lemma critical_assert: "quiet h \<Longrightarrow> CriticalEnd (ASSERT True (CriticalBegin h)) = h"
  by simp

lemma CpuExitImage_flag:
  assumes "quiet (hooks w)" "chain (contexts w) (mTopContext w) C" "\<exists>p \<in> set C. ctx_ImageRecord (contexts w p) \<noteq> None"
  shows "flags (flag w) (CpuExitImage_fn A w)"
proof (cases "ImageFindByHandle (A 0) w")
  case (Some r)
  obtain q where q: "find_image_context (contexts w) (mTopContext w) = Some (Some q)"
    using find_image_context_found [OF assms(2,3)] by blast
  have "ImageHandle (Records w r) = A 0" using Some by (auto simp: ImageFindByHandle_def find_Some_iff)
  with Some q assms(1) show ?thesis by (simp add: CpuExitImage_fn_def Let_def rec_update_def)
qed (simp add: CpuExitImage_fn_def)

lemma call_wrapper_flag:
  fixes w :: "('u, 'c, 'z) world_scheme"
  assumes "quiet (hooks w)" "chain (contexts w) (mTopContext w) (K @ L)" "exit_ok R L w"
  shows "flags (flag w) (call_wrapper R (NativeValidateSupportedCall (options (Env R)) (bs R) pc) pc ra A w)"
proof -
  let ?t = "NativeValidateSupportedCall (options (Env R)) (bs R) pc"
  have e: "flags (flag w) (CpuExitImage_fn A w)" if "?t = CpuExitImage"
    using assms(3) that by (intro CpuExitImage_flag [OF assms(1,2)]) (auto simp: exit_ok_def)
  have c: "pc \<noteq> gBS_CreateEvent (bs R) \<longrightarrow> pc = gBS_CreateEventEx (bs R)" if "?t = EfiWrapperCreateEventCommon"
    using that by (auto simp: NativeValidateSupportedCall_def EfiWrappersOverride_def split: if_splits)
  have create: "flags (flag w) (Some (EfiWrapperCreateEventCommon_fn (bs R) V u pc ra A w) :: (u64, ('u, 'c, 'z) world_scheme) run)"
    if "?t = EfiWrapperCreateEventCommon" for V u
    using c [OF that] assms(1) unfolding EfiWrapperCreateEventCommon_fn_def Let_def
    by (auto split: option.split prod.split if_splits)
  show ?thesis
    using e create assms(1)
    by (cases ?t) (auto simp: call_wrapper_def NativeUnsupported_fn_def EfiWrapperCloseEvent_fn_def Let_def split: option.split)
qed

lemma check_leaked_flag:
  fixes w :: "('u, 'c, 'z) world_scheme"
  assumes "uc_context_ok (UC (Env R))" "run_inv R (K @ p # C) w"
  shows "inside J (\<lambda>w'. flag w' = flag w) (NativeThunkCheckLeakedContexts (Env R) p w)"
proof (cases "CpuGetTopContext w = Some p")
  case False
  have to: "(if False then PrevContext (contexts w p) else Some p) = head (p # C)" by simp
  have "hooks (compress_state (Env R) K (p # C) w) = hooks w"
    using assms(2) by (intro compress_state_simps) (simp add: run_inv_def)
  with False show ?thesis
    by (simp add: NativeThunkCheckLeakedContexts_def compress_leaked(1) [OF assms to])
qed (simp add: NativeThunkCheckLeakedContexts_def)

section \<open>The thunks and the loop\<close>

lemma native_body_flag:
  fixes w :: "('u, 'c, 'z) world_scheme"
  assumes "calm R run" "run_inv R (K @ L) w" "assert_state R L w" "flag w = b"
  shows "flags b (case NativeValidateSupportedCall (options (Env R)) (bs R) pc of
      NativeCall q \<Rightarrow> run (t q) w
    | _ \<Rightarrow> call_wrapper R (NativeValidateSupportedCall (options (Env R)) (bs R) pc) pc ra A (w\<lparr>mem := m\<rparr>))"
proof -
  have "flags (flag w) (call_wrapper R (NativeValidateSupportedCall (options (Env R)) (bs R) pc) pc ra A (w\<lparr>mem := m\<rparr>))"
    using call_wrapper_flag [of "w\<lparr>mem := m\<rparr>" K L R pc ra A] assms(2,3)
    by (simp add: run_inv_def ctxs_ok_def assert_state_def exit_ok_def)
  with calmD [OF assms(1-4)] assms(4) show ?thesis
    by (auto split: call_target.split)
qed

lemma thunk_flag:
  fixes w :: "('u, 'c, 'z) world_scheme"
  assumes g: "good R run" and q: "calm R run" and U: "uc_ok (UC (Env R))"
    and I: "run_inv R (p # C) w" and L: "p # C = K @ L" and a: "assert_state R L w" and b: "flag w = b"
  shows "flags b (call_NativeThunk f R run p pc w)"
proof -
  let ?E = "Env R" and ?c = "Cpu_of p w"
  let ?t = "NativeValidateSupportedCall (options ?E) (bs R) pc"
  have r: "uc_regs_ok (UC ?E)" and x: "uc_context_ok (UC ?E)" using U by (simp_all add: uc_ok_def)
  have I': "run_inv R (K @ L) w" using I L by simp
  obtain ra A B m where eq: "call_NativeThunk f R run p pc w =
      obind (case ?t of NativeCall q \<Rightarrow> run (native_code R q A) w | _ \<Rightarrow> call_wrapper R ?t pc ra B (w\<lparr>mem := m\<rparr>))
        (\<lambda>(v, w). obind (NativeThunkCheckLeakedContexts ?E p w) (\<lambda>w. Some (Done (thunk_return f ?E ?c v w))))"
    by (rule call_NativeThunk_parts [OF r refl refl])
  show ?thesis unfolding eq
  proof (rule inside_obindI [OF native_body_flag [OF q I' a b]])
    fix y
    assume d: "(case ?t of NativeCall q \<Rightarrow> run (native_code R q A) w | _ \<Rightarrow> call_wrapper R ?t pc ra B (w\<lparr>mem := m\<rparr>)) = Some (Done y)"
      and fl: "case y of (v, w) \<Rightarrow> flag w = b"
    obtain v w1 where y: "y = (v, w1)" by (cases y)
    from native_body(1) [OF g I refl d [unfolded y]] obtain K1 where "step R {} (p # C) [] w K1 w1" by blast
    then have "run_inv R (K1 @ p # C) w1" by (rule step_inv)
    from check_leaked_flag [OF x this] have "inside (\<lambda>(j, w). flag w = b) (\<lambda>w'. flag w' = b) (NativeThunkCheckLeakedContexts ?E p w1)"
      using fl by (simp add: y)
    moreover have "flag (snd (thunk_return f ?E ?c v w)) = flag w" for w :: "('u, 'c, 'z) world_scheme"
      by (cases f) (simp_all add: thunk_return_def reg_simps [OF r] CpuStackPop64_ok [OF r] Let_def)
    ultimately show "flags b (case y of (v, w) \<Rightarrow> obind (NativeThunkCheckLeakedContexts ?E p w)
        (\<lambda>w. Some (Done (thunk_return f ?E ?c v w))))"
      by (auto simp: y case_prod_beta intro: inside_obind)
  qed
qed

lemma interrupt_window_flag:
  fixes w :: "('u, 'c, 'z) world_scheme"
  assumes q: "calm R run" and I: "run_inv R (K @ L) w" and a: "assert_state R L w" and b: "flag w = b"
  shows "flags_w b (interrupt_window run w)"
proof -
  have "flags b (run t (w\<lparr>pending := ts\<rparr>))" if "pending w = t # ts" for t ts
    using that I a b by (intro calmD [OF q, where K = K and L = L]) (simp_all add: run_inv_def ctxs_ok_def assert_state_def exit_ok_def cpus_ready_def)
  then show ?thesis
    unfolding interrupt_window_def using b by (auto split: list.split intro: inside_pair)
qed

lemma emulation_loop_flag:
  fixes w :: "('u, 'c, 'z) world_scheme"
  assumes g: "good R run" and q: "calm R run" and U: "uc_ok (UC (Env R))" and st: "stops_ok (UC (Env R))" and L: "p # C = K @ L"
    and "run_inv R (p # C) w" "c = Cpu_of p w" "assert_state R L w" "EmuThunkPre (cpus w c) \<noteq> None" "flag w = b"
  shows "flags b (emulation_loop R run n p c pc w)"
  using assms(6-)
proof (induction n arbitrary: pc w)
  case (Suc n)
  let ?E = "Env R" and ?L = "p # C"
  have r: "uc_regs_ok (UC ?E)" using U by (simp add: uc_ok_def)
  have on: "flags b (emulation_loop R run n p c pc' w1)"
    if s: "step R ({c} \<times> UNIV) ?L [] w [] w1" and f: "flag w1 = b" for pc' w1
  proof (rule Suc.IH)
    have k: "keep ?L w w1" by (rule step_keep [OF s])
    then show "c = Cpu_of p w1" using Suc.prems(2) by (simp add: keep_def)
    show "run_inv R ?L w1" using step_inv [OF s] by simp
    have "keep L w w1" using k unfolding L by (simp add: keep_append)
    then show "assert_state R L w1" using Suc.prems(3) by (rule assert_state_keep)
    show "EmuThunkPre (cpus w1 c) \<noteq> None"
      using k Suc.prems(4) cpu_fixed_fields unfolding keep_def by metis
    show "flag w1 = b" by (rule f)
  qed
  have quiet: "quiet (hooks w)" using Suc.prems(1) by (rule run_inv_quiet)
  show ?case unfolding emulation_loop.simps
  proof (rule inside_obindI)
    show "inside (\<lambda>(j, w). flag w = b) (\<lambda>(e, w). flag w = b) (run_engine R c pc w)"
      using run_engine_hooks [OF _ quiet, of R c pc] run_engine_Jumped [of R c pc w] Suc.prems(5)
      by (auto simp: inside_def split: option.split outcome.split)
    fix y assume y: "run_engine R c pc w = Some (Done y)" "case y of (e, w) \<Rightarrow> flag w = b"
    obtain e w1 where yy: "y = (e, w1)" by (cases y)
    note e = y(1) [unfolded yy]
    have f1: "flag w1 = b" using y(2) yy by simp
    have s1: "step R ({c} \<times> UNIV) ?L [] w [] w1"
      using near_step [OF run_engine_near [OF e quiet], of R "[]" ?L] Suc.prems(1) by simp
    have I1: "run_inv R ?L w1" using step_inv [OF s1] by simp
    have a1: "assert_state R L w1"
      using step_keep [OF s1] Suc.prems(3) unfolding L keep_append by (blast intro: assert_state_keep)
    show "flags b (case y of (e, w) \<Rightarrow> obind (interrupt_window run w)
         (\<lambda>w. let (pc, w) = REG_READ (UC ?E) c (ProgramCounterReg (cpus w c)) w
               in case exit_reason ?E e pc of
                    CPU_REASON_NONE \<Rightarrow> emulation_loop R run n p c pc (ASSERT_w (pc \<noteq> 0) w)
                  | CPU_REASON_CALL_TO_NATIVE \<Rightarrow>
                      (case NativeThunk (cpus w c) of
                         None \<Rightarrow> Some (Crashed NULL_dereference)
                       | Some f \<Rightarrow> obind (call_NativeThunk f R run p pc w)
                           (\<lambda>(pc, w). emulation_loop R run n p c pc w))
                  | reason \<Rightarrow> Some (Done (reason, w))))"
      unfolding yy prod.case
    proof (rule inside_obindI [OF interrupt_window_flag [OF q I1 [unfolded L] a1 f1]])
      fix w2 assume w2: "interrupt_window run w1 = Some (Done w2)" and f2: "flag w2 = b"
      have i: "step R {} ?L [] w1 [] w2" by (rule interrupt_window_step(1) [OF g I1 w2])
      have s2: "step R ({c} \<times> UNIV) ?L [] w [] w2"
        using step_mono [OF i] step_trans [OF s1] by blast
      have I2: "run_inv R ?L w2" using step_inv [OF s2] by simp
      have k2: "keep ?L w w2" by (rule step_keep [OF s2])
      have c2: "c = Cpu_of p w2" using k2 Suc.prems(2) by (simp add: keep_def)
      have a2: "assert_state R L w2"
        using k2 Suc.prems(3) unfolding L keep_append by (blast intro: assert_state_keep)
      let ?pc = "rd (UC ?E) (UE w2 c) (ProgramCounterReg (cpus w2 c))"
      have ready: "ProgramCounterReg (cpus w2 c) = program_counter_reg c"
        using a2 k2 Suc.prems(4) cpu_fixed_fields unfolding assert_state_def cpus_ready_def keep_def by metis
      have pc: "?pc \<noteq> 0" if ok: "e = UC_ERR_OK"
      proof -
        have "c = Cpu_of p w1" using step_keep [OF s1] Suc.prems(2) by (simp add: keep_def)
        then have "reg ?E c (program_counter_reg c) w2 = reg ?E c (program_counter_reg c) w1"
          using i by (simp add: step_def)
        moreover obtain u m t1 where u: "uc_emu_start (UC ?E) c (CpuIsNativeCb ?E (engine_start R w)) (block_callback R) pc
            (UE w c, mem w, tb_of c w) = Some (UC_ERR_OK, u, m, t1)" "UE w1 c = u"
          by (rule run_engine_parts [OF e [unfolded ok]])
        moreover from u(1) st have "rd (UC ?E) u (program_counter_reg c) \<noteq> 0" unfolding stops_ok_def by blast
        ultimately show ?thesis unfolding ready by (simp add: reg_def)
      qed
      show "flags b (let (pc, w) = REG_READ (UC ?E) c (ProgramCounterReg (cpus w2 c)) w2
               in case exit_reason ?E e pc of
                    CPU_REASON_NONE \<Rightarrow> emulation_loop R run n p c pc (ASSERT_w (pc \<noteq> 0) w)
                  | CPU_REASON_CALL_TO_NATIVE \<Rightarrow>
                      (case NativeThunk (cpus w c) of
                         None \<Rightarrow> Some (Crashed NULL_dereference)
                       | Some f \<Rightarrow> obind (call_NativeThunk f R run p pc w)
                           (\<lambda>(pc, w). emulation_loop R run n p c pc w))
                  | reason \<Rightarrow> Some (Done (reason, w)))"
      proof (cases "exit_reason ?E e ?pc")
        case CPU_REASON_NONE
        then have "e = UC_ERR_OK" by (auto simp: exit_reason_def split: if_splits)
        with CPU_REASON_NONE pc show ?thesis
          using on [OF s2 f2] by (simp add: REG_READ_ok [OF r])
      next
        case CPU_REASON_CALL_TO_NATIVE
        have "flags b (obind (call_NativeThunk f R run p ?pc w2) (\<lambda>(pc, w). emulation_loop R run n p c pc w))" for f
        proof (rule inside_obindI [OF thunk_flag [OF g q U I2 L a2 f2]])
          fix z assume z: "call_NativeThunk f R run p ?pc w2 = Some (Done z)" "case z of (v, w) \<Rightarrow> flag w = b"
          obtain v w3 where zz: "z = (v, w3)" by (cases z)
          have "step R ({c} \<times> UNIV) ?L [] w2 [] w3"
            using NativeThunk_step(1) [OF g U I2 c2 z(1) [unfolded zz]] by (rule step_mono) auto
          from on [OF step_trans [OF s2 this]] z(2) show "flags b (case z of (pc, w) \<Rightarrow> emulation_loop R run n p c pc w)"
            by (simp add: zz)
        qed
        then show ?thesis using CPU_REASON_CALL_TO_NATIVE by (simp add: REG_READ_ok [OF r] split: option.split)
      qed (use f2 in \<open>simp_all add: REG_READ_ok [OF r]\<close>)
    qed
  qed
qed simp

section \<open>Calls\<close>

lemma EmuThunk_hooks:
  fixes w :: "('u, 'c, 'z) world_scheme"
  assumes U: "uc_regs_ok (UC E)"
  shows "hooks (call_EmuThunkPre f E c A w) = hooks w" "hooks (call_EmuThunkPost f E c A w) = hooks w"
proof -
  have push: "length xs < 2 ^ 56 \<Longrightarrow> hooks (fold (CpuStackPush64 E c) xs w) = hooks w" for w :: "('u, 'c, 'z) world_scheme" and xs
    using pushes [OF U, where xs = xs and w = w and c = c] by auto
  show "hooks (call_EmuThunkPre f E c A w) = hooks w"
    by (cases f) (simp_all add: call_EmuThunkPre_def CpuX64EmuThunkPre_eq [OF U] CpuAArch64EmuThunkPre_eq [OF U] REG_WRITE_ok [OF U] push)
  show "hooks (call_EmuThunkPost f E c A w) = hooks w"
    using X64_post [OF U refl, where w = w and c = c and A = A] AArch64_post [OF U refl, where w = w and c = c and A = A]
    by (cases f) (auto simp: call_EmuThunkPost_def)
qed

lemma CpuRunCtxInternal_flag:
  fixes w :: "('u, 'c, 'z) world_scheme"
  assumes g: "good R run" and q: "calm R run" and U: "uc_ok (UC (Env R))" and st: "stops_ok (UC (Env R))"
    and I: "run_inv R (p # C) w" and L: "p # C = K @ L" and a: "assert_state R L w" and b: "flag w = b"
  shows "flags b (CpuRunCtxInternal R run n p w)"
proof -
  let ?E = "Env R" and ?c = "Cpu_of p w"
  let ?A = "Args (contexts w p)" and ?pc = "ProgramCounter (contexts w p)"
  have r: "uc_regs_ok (UC ?E)" using U by (simp add: uc_ok_def)
  have loop: "flags b (emulation_loop R run n p ?c ?pc (call_EmuThunkPre f ?E ?c ?A w))" if "EmuThunkPre (cpus w ?c) = Some f" for f
  proof (rule emulation_loop_flag [OF g q U st L])
    let ?w = "call_EmuThunkPre f ?E ?c ?A w"
    have s: "step R ({?c} \<times> UNIV) (p # C) [] w [] ?w"
      using near_step [OF EmuThunk_near(1) [OF r, of ?c w f ?A], of R "[]" "p # C"] I by simp
    then show "run_inv R (p # C) ?w" using step_inv [OF s] by simp
    have k: "keep (p # C) w ?w" by (rule step_keep [OF s])
    then show "?c = Cpu_of p ?w" by (simp add: keep_def)
    show "assert_state R L ?w" using k a unfolding L keep_append by (blast intro: assert_state_keep)
    show "EmuThunkPre (cpus ?w ?c) \<noteq> None" using k that cpu_fixed_fields unfolding keep_def by (metis option.distinct(1))
    show "flag ?w = b" using b by (simp add: EmuThunk_hooks [OF r])
  qed
  have post: "flag (snd (REG_READ (UC ?E) ?c x (call_EmuThunkPost f ?E ?c ?A w))) = flag w" for x f and w :: "('u, 'c, 'z) world_scheme"
    by (simp add: REG_READ_ok [OF r] EmuThunk_hooks [OF r])
  show ?thesis
    unfolding CpuRunCtxInternal_def Let_def
    by (auto split: option.split intro!: inside_pair [OF loop] simp: case_prod_beta post)
qed

lemma start_state_hooks:
  assumes "uc_ok (UC E)"
  shows "hooks (start_state E p w) = hooks w"
  using assms unfolding uc_ok_def
  by (auto simp: start_state_def save_uc_context_def CpuStackPushRedZone_def reg_simps uc_context_ok_def case_prod_beta Let_def)

lemma finish_state_hooks:
  assumes "uc_context_ok (UC E)" "Flags (contexts w p) \<noteq> 0 \<Longrightarrow> PrevUcContext (contexts w p) \<noteq> None"
  shows "hooks (finish_state E p v w) = hooks w" "mTopContext (finish_state E p v w) = mTopContext w"
  using assms by (cases "Flags (contexts w p) = 0"; auto simp: finish_state_def restore_uc_context_def uc_context_ok_def case_prod_beta Let_def split: option.split)+

lemma leave_hooks:
  assumes "CpuLeaveCritical p w = Done w'" "mTopContext w = Some p" "quiet (hooks w)" "Contexts (cpus w' (Cpu_of p w')) \<ge> 0"
  shows "hooks (hooks_update CriticalEnd w') = hooks w"
proof -
  have "w' = ASSERT_w (Contexts (cpus w' (Cpu_of p w')) \<ge> 0) w'"
    using assms(4) by simp
  with assms show ?thesis by (auto simp: CpuLeaveCritical_def Let_def ASSERT_w_def ASSERT_def split: if_splits)
qed

lemma CpuRunCtx_flag:
  fixes w :: "('u, 'c, 'z) world_scheme"
  assumes g: "good R run" and q: "calm R run" and e: "assert_env R" and r: "ready R p C w"
    and L: "p # C = K @ L" and a: "assert_state R L (start_state (Env R) p (hooks_update CriticalEnd (CpuEnterCritical p w)))" and b: "flag w = b"
  shows "flags b (CpuRunCtx R run n fp p w)"
proof -
  let ?E = "Env R" and ?w = "start_state (Env R) p (hooks_update CriticalEnd (CpuEnterCritical p w))"
  have U: "uc_ok (UC ?E)" and m: "\<not> MAU_ON_PRIVATE_STACK (options ?E)" "\<not> MAU_CHECK_ORPHAN_CONTEXTS (options ?E)"
    and st: "stops_ok (UC ?E)"
    using e by (simp_all add: assert_env_def env_ok_def)
  have x: "uc_context_ok (UC ?E)" using U by (simp add: uc_ok_def)
  have s: "step R {} C [] w [p] ?w" by (rule start_step [OF U r])
  have I: "run_inv R (p # C) ?w" using step_inv [OF s] by simp
  have "hooks ?w = hooks w" using r by (simp add: start_state_hooks [OF U] CpuEnterCritical_def Let_def ready_def)
  then have f: "flag ?w = b" using b by simp
  show ?thesis unfolding CpuRunCtx_eq [OF m]
  proof (rule inside_obindI [OF CpuRunCtxInternal_flag [OF g q U st I L a f]])
    fix y assume y: "CpuRunCtxInternal R run n p ?w = Some (Done y)" "case y of (v, w) \<Rightarrow> flag w = b"
    obtain v w1 where yy: "y = (v, w1)" by (cases y)
    have "step R ({Cpu_of p ?w} \<times> UNIV) (p # C) [] ?w [] w1"
      by (rule CpuRunCtxInternal_step(1) [OF g U I refl y(1) [unfolded yy]])
    then have I1: "run_inv R (p # C) w1" using step_inv by fastforce
    have fin: "hooks (finish_state ?E p v w1) = hooks w1" "mTopContext (finish_state ?E p v w1) = mTopContext w1"
      using I1 by (intro finish_state_hooks [OF x]; auto simp: run_inv_def saved_ok_def)+
    from finish_step [OF x I1, of v] obtain w2 where
      l: "(CpuLeaveCritical p (finish_state ?E p v w1) :: (jump \<times> ('u, 'c, 'z) world_scheme, ('u, 'c, 'z) world_scheme) outcome) = Done w2"
      and rd: "ready R p C (hooks_update CriticalEnd w2)" by blast
    have "Contexts (cpus w2 c) \<ge> 0" for c using rd by (simp add: ready_def ctxs_ok_def)
    moreover have "mTopContext w1 = Some p" "quiet (hooks w1)" using I1 by (simp_all add: run_inv_def ctxs_ok_def)
    ultimately have "hooks (hooks_update CriticalEnd w2) = hooks w1"
      using leave_hooks [OF l] fin by simp
    then show "flags b (case y of (v, w) \<Rightarrow> obind (Some (CpuLeaveCritical p (finish_state ?E p v w)) ::
          (jump \<times> ('u, 'c, 'z) world_scheme, ('u, 'c, 'z) world_scheme) outcome option)
        (\<lambda>w. Some (Done (Ret (contexts w p), hooks_update CriticalEnd w))))"
      using y(2) by (simp add: yy l)
  qed
qed

lemma start_state_image:
  "ctx_ImageRecord (contexts (start_state E p (hooks_update CriticalEnd (CpuEnterCritical p w))) q) = ctx_ImageRecord (contexts w q)"
  by (simp add: start_state_def save_uc_context_def CpuStackPushRedZone_def REG_READ_def REG_WRITE_def CpuEnterCritical_def
      ASSERT_w_def ctx_update_def Let_def split: prod.split)

lemma call_flag:
  fixes w :: "('u, 'c, 'z) world_scheme"
  assumes g: "good R run" and q: "calm R run" and e: "assert_env R" and r: "ready R p C w"
    and L: "p # C = K @ L" and a: "assert_state R L w" and b: "flag w = b"
  shows "flags b (obind (CpuRunCtx R run n fp p w) (\<lambda>(v, w). obind (Some (CpuFreeContext p w)) (\<lambda>w. Some (Done (v, w)))))"
proof -
  let ?w = "start_state (Env R) p (hooks_update CriticalEnd (CpuEnterCritical p w))"
  have ee: "env_ok R" using e by (simp add: assert_env_def)
  then have s: "step R {} C [] w [p] ?w" using start_step [OF _ r] by (simp add: env_ok_def)
  then have "\<forall>c. cpu_fixed (cpus ?w c) = cpu_fixed (cpus w c)" using step_keep [OF s] by (simp add: keep_def)
  then have "cpus_ready ?w"
    using a cpu_fixed_fields unfolding assert_state_def cpus_ready_def by metis
  then have a': "assert_state R L ?w"
    using a by (simp add: assert_state_def exit_ok_def start_state_image)
  note run = CpuRunCtx_flag [OF g q e r L a' b]
  show ?thesis
  proof (rule inside_obindI [OF run])
    fix y assume y: "CpuRunCtx R run n fp p w = Some (Done y)" "case y of (v, w) \<Rightarrow> flag w = b"
    obtain v w1 where yy: "y = (v, w1)" by (cases y)
    from CpuRunCtx_step(1) [OF g ee r y(1) [unfolded yy]] have "ready R p C w1" by simp
    from free_ready(1) [OF this] y(2) show "flags b (case y of (v, w) \<Rightarrow>
        obind (Some (CpuFreeContext p w) :: (jump \<times> ('u, 'c, 'z) world_scheme, ('u, 'c, 'z) world_scheme) outcome option) (\<lambda>w. Some (Done (v, w))))"
      by (simp add: yy)
  qed
qed

lemma CpuRunFunc_flag:
  fixes w :: "('u, 'c, 'z) world_scheme"
  assumes g: "good R run" and q: "calm R run" and e: "assert_env R" and I: "run_inv R (K @ L) w" and a: "assert_state R L w" and b: "flag w = b"
  shows "flags b (CpuRunFunc R run n fp c pc A w)"
proof (cases "FreeList (RunContextAlloc w c)")
  case Nil
  with b show ?thesis by (simp add: CpuRunFunc_def CpuAllocContext_empty)
next
  case (Cons p rest)
  note al = alloc_ready [OF I Cons]
  let ?w = "ctx_update p (\<lambda>x. x\<lparr>ProgramCounter := pc, Args := A\<rparr>) (alloc_state c p w)"
  have r: "ready R p (K @ L) ?w" "below_same R (K @ L) (alloc_state c p w) ?w"
    by (rule ready_ctx_update [OF al(2)]; simp)+
  have "below_same R (K @ L) w ?w" using al(3) r(2) by (rule below_same_trans)
  then have "assert_state R L ?w"
    using a unfolding below_same_def keep_append by (blast intro: assert_state_keep)
  moreover have "p # K @ L = (p # K) @ L" by simp
  ultimately show ?thesis
    using call_flag [OF g q e r(1), of "p # K" L b] b by (simp add: CpuRunFunc_def al(1))
qed

lemma CpuRunImage_flag:
  fixes w :: "('u, 'c, 'z) world_scheme"
  assumes g: "good R run" and q: "calm R run" and e: "assert_env R" and I: "run_inv R C w" and a: "cpus_ready w" and b: "flag w = b"
  shows "flags b (CpuRunImage R run n fp Handle w)"
proof -
  have ee: "env_ok R" and x: "uc_context_ok (UC (Env R))" and nx: "gBS_Exit_fails R H = None" for H
    using e by (simp_all add: assert_env_def env_ok_def uc_ok_def)
  have run: "flags b (case CpuRunCtx R run n fp p w1 of
      None \<Rightarrow> None
    | Some (Done (v, w)) \<Rightarrow> obind (Some (CpuFreeContext p w)) (\<lambda>w. Some (Done (v, w)))
    | Some (Crashed c) \<Rightarrow> Some (Crashed c)
    | Some (Jumped (j, w)) \<Rightarrow>
        if j \<noteq> ToFrame frame then Some (Jumped (j, w))
        else obind (CpuCompressLeakedContexts (Env R) p True w)
          (\<lambda>w. let H = ImageHandle (Records w Record) in
               case gBS_Exit_fails R H of
                 None \<Rightarrow> Some (Jumped (ToStartImage H (ImageExitStatus (Records w Record)), w))
               | Some Status \<Rightarrow> Some (Done (Status, ASSERT_w (\<not> EFI_ERROR Status) w))))"
    if r: "ready R p C w1" and a1: "assert_state R (p # C) w1" and b1: "flag w1 = b" for p w1 frame Record
  proof (cases "\<exists>j w2. CpuRunCtx R run n fp p w1 = Some (Jumped (j, w2))")
    case False
    with call_flag [OF g q e r _ a1 b1, of "[]" n fp] show ?thesis
      by (cases "CpuRunCtx R run n fp p w1") (auto split: outcome.split)
  next
    case True
    then obtain j w2 where j: "CpuRunCtx R run n fp p w1 = Some (Jumped (j, w2))" by blast
    with call_flag [OF g q e r _ a1 b1, of "[]" n fp] have f2: "flag w2 = b" by simp
    from CpuRunCtx_step(2) [OF g ee r j] obtain K1 where "step R {} C [] w1 (K1 @ [p]) w2" by blast
    then have I2: "run_inv R ((K1 @ [p]) @ C) w2" by (rule step_inv)
    then have "chain (contexts w2) (mTopContext w2) (K1 @ p # C)" by (simp add: run_inv_def ctxs_ok_def)
    then have "PrevContext (contexts w2 p) = head C" by (rule chain_head [OF chain_suffix])
    then have to: "(if True then PrevContext (contexts w2 p) else Some p) = head C" by simp
    have "hooks (compress_state (Env R) (K1 @ [p]) C w2) = hooks w2"
      using I2 by (intro compress_state_simps) (simp add: run_inv_def)
    with f2 show ?thesis
      by (simp add: j compress_leaked(1) [OF x I2 to, simplified] nx Let_def)
  qed
  show ?thesis
  proof (cases "EFI_ERROR (fst (LoadedImageBase R Handle))")
    case True
    with b show ?thesis by (auto simp: CpuRunImage_def case_prod_beta Let_def)
  next
    case ok: False
    show ?thesis
    proof (cases "ImageFindByAddress (snd (LoadedImageBase R Handle)) w")
      case None
      with ok show ?thesis by (simp add: CpuRunImage_def case_prod_beta Let_def)
    next
      case image: (Some Record)
      show ?thesis
      proof (cases "rec_Cpu (Records w Record)")
        case None
        with ok image show ?thesis by (simp add: CpuRunImage_def case_prod_beta Let_def)
      next
        case cpu: (Some c)
        show ?thesis
        proof (cases "FreeList (RunContextAlloc w c)")
          case Nil
          with ok image cpu b show ?thesis
            by (auto simp: CpuRunImage_def case_prod_beta Let_def CpuAllocContext_empty)
        next
          case (Cons p rest)
          note al = alloc_ready [OF I Cons]
          define w1 where "w1 = rec_update Record (\<lambda>r. r\<lparr>ImageHandle := Handle, ImageExitJumpBuffer := next_frame (alloc_state c p w)\<rparr>)
            (alloc_state c p w)"
          define w2 where "w2 = ctx_update p (\<lambda>x. x\<lparr>ctx_ImageRecord := Some Record, ProgramCounter := ImageEntry (Records w1 Record),
            Args := (\<lambda>i. if i = 0 then Handle else if i = 1 then SystemTable R else 0)\<rparr>) w1"
          define w3 where "w3 = w2\<lparr>next_frame := next_frame (alloc_state c p w) + 1\<rparr>"
          have r1: "ready R p C w1" "below_same R C (alloc_state c p w) w1"
            unfolding w1_def by (rule ready_near [OF al(2)]; simp)+
          have r2: "ready R p C w2" "below_same R C w1 w2"
            unfolding w2_def by (rule ready_ctx_update [OF r1(1)]; simp)+
          have r3: "ready R p C w3" "below_same R C w2 w3"
            unfolding w3_def by (rule ready_near [OF r2(1)]; simp add: near_def)+
          have "below_same R C w w3"
            using below_same_trans [OF below_same_trans [OF below_same_trans [OF al(3) r1(2)] r2(2)] r3(2)] .
          then have "\<forall>d. cpu_fixed (cpus w3 d) = cpu_fixed (cpus w d)" by (simp add: below_same_def keep_def)
          then have "cpus_ready w3" using a cpu_fixed_fields unfolding cpus_ready_def by metis
          moreover have "ctx_ImageRecord (contexts w3 p) \<noteq> None" by (simp add: w3_def w2_def)
          ultimately have "assert_state R (p # C) w3" by (simp add: assert_state_def exit_ok_def)
          moreover have "flag w3 = b" using b by (simp add: w3_def w2_def w1_def rec_update_def)
          ultimately show ?thesis
            using run [OF r3(1), of "next_frame (alloc_state c p w)" Record] ok image cpu
            unfolding w3_def w2_def w1_def
            by (simp add: CpuRunImage_def case_prod_beta Let_def al(1))
        qed
      qed
    qed
  qed
qed

section \<open>Native code\<close>

lemma run_native_calm:
  fixes R :: "('u, 'c) run_env"
  assumes e: "assert_env R"
  shows "calm R (run_native R n :: native \<Rightarrow> ('u, 'c, 'z) world_scheme \<Rightarrow> (u64, ('u, 'c, 'z) world_scheme) run)"
proof (induction n)
  case 0
  show ?case by (simp add: calm_def)
next
  case (Suc n)
  note q = this
  have ee: "env_ok R" and U: "uc_context_ok (UC (Env R))" and fw: "fw_cpu_ok (firmware_cpu R)"
    using e by (simp_all add: assert_env_def env_ok_def uc_ok_def)
  note g = run_native_good [OF ee, of n]
  show ?case unfolding calm_def
  proof (intro allI impI)
    fix t and w :: "('u, 'c, 'z) world_scheme" and K L
    assume I: "run_inv R (K @ L) w" and a: "assert_state R L w"
    have on: "flags (flag w) (run_native R n t w1)" if "step R {} L K w K1 w1" "flag w1 = flag w" for t K1 w1
      using step_inv [OF that(1)] assert_state_keep [OF step_keep [OF that(1)] a] that(2) by (rule calmD [OF q])
    have near: "flags (flag w) (run_native R n t w1)" if "near {} w w1" "flag w1 = flag w" for t w1
      using near_step [OF that(1) I] that(2) by (intro on) simp_all
    have call: "flags (flag w) (obind x (\<lambda>(v, w). run_native R n (k v) w))"
      if "flags (flag w) x" "outcome_ok R L K True w x" for x :: "(u64, ('u, 'c, 'z) world_scheme) run" and k
    proof (rule inside_obindI [OF that(1)])
      fix y assume y: "x = Some (Done y)" "case y of (v, w') \<Rightarrow> flag w' = flag w"
      obtain v w1 where yy: "y = (v, w1)" by (cases y)
      from that(2) y(1) yy obtain K1 where "step R {} L K w K1 w1" by (auto simp: outcome_ok_def)
      from on [OF this] y(2) show "flags (flag w) (case y of (v, w) \<Rightarrow> run_native R n (k v) w)" by (simp add: yy)
    qed
    have func: "flags (flag w) (obind (CpuRunFunc R (run_native R n) m fp c pc A w) (\<lambda>(v, w). run_native R n (k v) w))" for m fp c pc A k
      using CpuRunFunc_step [OF g ee I]
      by (intro call CpuRunFunc_flag [OF g q e I a] outcome_call [OF U I]) simp_all
    show "flags (flag w) (run_native R (Suc n) t w)"
    proof (cases t)
      case (NInterrupts b k)
      have "near {} w (hooks_update (request (firmware_cpu R) b) w)"
        using I by (intro request_near [OF fw]) (simp_all add: run_inv_def)
      moreover have "flag (hooks_update (request (firmware_cpu R) b) w) = flag w"
        using I by (simp add: run_inv_def request_hooked [OF fw])
      ultimately show ?thesis by (simp add: NInterrupts near)
    next
      case (NEmulated fp pc A k)
      then show ?thesis by (auto simp: EmulatorVmEntry_def func split: option.split)
    next
      case (NStartImage fp H k)
      have f: "flags (flag w) (CpuRunImage R (run_native R n) n fp H w)"
        using a by (intro CpuRunImage_flag [OF g q e I]) (simp_all add: assert_state_def)
      have o: "outcome_ok R L K True w (CpuRunImage R (run_native R n) n fp H w)"
        using CpuRunImage_step [OF g ee I] by (intro outcome_call [OF U I]) blast+
      show ?thesis
      proof (cases "CpuRunImage R (run_native R n) n fp H w")
        case (Some y)
        then show ?thesis
          using f o on by (cases y) (fastforce simp: NStartImage outcome_ok_def split: jump.split)+
      qed (simp add: NStartImage)
    next
      case (NNotify fp ev r k)
      then show ?thesis by (simp add: EfiWrappersEventNotify_def Let_def func)
    next
      case (NSetJump j body handler k)
      have f: "flags (flag w) (run_native R n body w)" by (rule calmD [OF q I a refl])
      have o: "outcome_ok R L K (notify_safe body) w (run_native R n body w)"
        using g I unfolding good_outcome by blast
      show ?thesis
      proof (cases "run_native R n body w")
        case (Some y)
        then show ?thesis
          using f o on by (cases y) (fastforce simp: NSetJump outcome_ok_def split: if_splits)+
      qed (simp add: NSetJump)
    qed (simp_all add: near)
  qed
qed

section \<open>The property\<close>


definition example_leaf_start :: "(uc_reg \<Rightarrow> u64, uc_reg \<Rightarrow> u64) world" where
  "example_leaf_start = (let w = example_run_world [0x10000] in
     w\<lparr>Records := (\<lambda>_. example_record\<lparr>ImageEntry := 0x20300\<rparr>),
       cpus := (\<lambda>c. if c = CpuX64 then cpus w c else (cpus w c)\<lparr>EmuThunkPre := None\<rparr>)\<rparr>)"

lemma example_leaf_start_inv: "run_inv example_run_env [0x10000] example_leaf_start"
  using example_run_inv by (auto simp: run_inv_def ctxs_ok_def example_leaf_start_def Let_def saved_ok_def)

lemma example_assert_env: "assert_env example_run_env"
  using example_env_ok
  by (auto simp: assert_env_def stops_ok_def example_run_env_def example_env_def function_ops_def split: prod.splits if_splits)


end
