(* ===== verification/Arch_Ports.thy ===== *)
theory Arch_Ports
  imports Image Thunk
begin

text \<open>
  The three host ports, AARCH64/Emulator.c, RISCV64/Emulator.c and
  LOONGARCH64/Emulator.c: the exception callback that turns a jump of native
  code into an emulated image into a call of EmulatorThunk, the recovery of the
  target from the call instruction that RISC-V needs, the thunks that collect
  the arguments for EmulatorVmEntry, and the registration of the callback.
\<close>

section \<open>The exception callbacks\<close>

text \<open>
  What happens to the interrupted code: it goes on with the changed registers,
  or the exception is reported (DefaultExceptionHandler, or DumpCpuContext and
  CpuBreakpoint on RISC-V).
\<close>

datatype 's exception_result = Resume 's | Fatal

record aarch64_context =
  A_X16 :: u64
  A_X17 :: u64
  A_ELR :: u64
  A_ESR :: u64

text \<open>Instruction permission faults and PC alignment faults, by the class and the fault status in ESR.\<close>

definition AArch64_SyncExceptionCallback ::
  "u64 \<Rightarrow> aarch64_context \<Rightarrow> ('u, 'c, 'z) image_world_scheme \<Rightarrow> aarch64_context exception_result" where
  "AArch64_SyncExceptionCallback EmulatorThunk ctx w =
     (let Ec = drop_bit 26 (A_ESR ctx)
      in if (Ec = 0x21 \<and> A_ESR ctx AND 0x3c = 0xc) \<or> Ec = 0x22 then
           (case ImageFindByAddress (A_ELR ctx) w of
              Some Record \<Rightarrow> Resume (ctx\<lparr>A_X16 := A_ELR ctx, A_X17 := Record, A_ELR := EmulatorThunk\<rparr>)
            | None \<Rightarrow> Fatal)
         else Fatal)"

record loongarch64_context =
  L_R12 :: u64
  L_R13 :: u64
  L_ERA :: u64

definition LoongArch64_SyncExceptionCallback ::
  "u64 \<Rightarrow> loongarch64_context \<Rightarrow> ('u, 'c, 'z) image_world_scheme \<Rightarrow> loongarch64_context exception_result" where
  "LoongArch64_SyncExceptionCallback EmulatorThunk ctx w =
     (case ImageFindByAddress (L_ERA ctx) w of
        Some Record \<Rightarrow> Resume (ctx\<lparr>L_R12 := L_ERA ctx, L_R13 := Record, L_ERA := EmulatorThunk\<rparr>)
      | None \<Rightarrow> Fatal)"

text \<open>The registers X0 to X31 and SEPC of RISC-V.\<close>

record riscv64_context =
  R_X :: "nat \<Rightarrow> u64"
  R_SEPC :: u64

definition INSN_C_ADDR_MASK :: u64 where "INSN_C_ADDR_MASK = - 1 - 1"
definition INSN_ADDR_MASK :: u64 where "INSN_ADDR_MASK = - 1 - 3"

text \<open>
  The target of the call before RA, from its instruction; the second component
  is the value written through ProgramCounter, None when nothing was written.
\<close>

definition RecoverPcFromCall :: "memory \<Rightarrow> riscv64_context \<Rightarrow> efi_status \<times> u64 option" where
  "RecoverPcFromCall m ctx =
     (let Ra = R_X ctx 1;
          Insn = load32 m (Ra - 4)
      in if Insn AND 0x3 = 0x3 then
           (if Insn AND 0x7f = 0x67 \<and> Insn AND 0xf80 = 0x80 \<and> Insn AND 0x3000 = 0 then
              let Rs = unat (drop_bit 15 Insn AND 0x1F);
                  imm12 = (ucast (drop_bit 20 Insn) :: 12 word);
                  ProgramCounter = R_X ctx Rs + scast imm12
              in if ProgramCounter AND INSN_C_ADDR_MASK \<noteq> R_SEPC ctx \<and> ProgramCounter AND INSN_ADDR_MASK \<noteq> R_SEPC ctx
                 then (EFI_NOT_FOUND, Some ProgramCounter) else (EFI_SUCCESS, Some ProgramCounter)
            else (EFI_NOT_FOUND, None))
         else
           let Insn = (ucast (load16 m (Ra - 2)) :: u32)
           in if Insn AND 0x3 \<noteq> 0x3 then
                (if Insn AND 0x3 = 2 \<and> Insn AND 0xf000 = 0x9000 \<and> Insn AND 0xf80 \<noteq> 0 \<and> Insn AND 0x7c = 0 then
                   let Rs = unat (drop_bit 7 Insn AND 0x1F);
                       ProgramCounter = R_X ctx Rs
                   in if ProgramCounter AND INSN_C_ADDR_MASK \<noteq> R_SEPC ctx
                      then (EFI_NOT_FOUND, Some ProgramCounter) else (EFI_SUCCESS, Some ProgramCounter)
                 else (EFI_NOT_FOUND, None))
              else (EFI_NOT_FOUND, None))"

datatype exception_type =
    EXCEPT_AARCH64_SYNCHRONOUS_EXCEPTIONS
  | EXCEPT_RISCV_STORE_ACCESS_PAGE_FAULT | EXCEPT_RISCV_LOAD_ACCESS_PAGE_FAULT
  | EXCEPT_RISCV_INST_ACCESS_PAGE_FAULT | EXCEPT_RISCV_ILLEGAL_INST | EXCEPT_RISCV_LOAD_ACCESS_FAULT
  | EXCEPT_LOONGARCH_PNX | EXCEPT_LOONGARCH_ADE
  | EXCEPT_other nat

definition SupportedException :: "build \<Rightarrow> exception_type \<Rightarrow> bool" where
  "SupportedException opts ExceptionType =
     (if ExceptionType = EXCEPT_RISCV_INST_ACCESS_PAGE_FAULT then True
      else if MAU_TRY_WITHOUT_MMU opts \<and> ExceptionType = EXCEPT_RISCV_ILLEGAL_INST then True
      else False)"

text \<open>The target is recovered into X5 itself.\<close>

definition RiscV64_SyncExceptionCallback ::
  "build \<Rightarrow> u64 \<Rightarrow> exception_type \<Rightarrow> riscv64_context \<Rightarrow> ('u, 'c, 'z) image_world_scheme \<Rightarrow>
   riscv64_context exception_result" where
  "RiscV64_SyncExceptionCallback opts EmulatorThunk ExceptionType ctx w =
     (case ImageFindByAddress (R_SEPC ctx) w of
        None \<Rightarrow> Fatal
      | Some Record \<Rightarrow>
          if SupportedException opts ExceptionType then
            (let (Status, pc) = RecoverPcFromCall (mem w) ctx;
                 ctx = (case pc of None \<Rightarrow> ctx | Some v \<Rightarrow> ctx\<lparr>R_X := (R_X ctx)(5 := v)\<rparr>)
             in if \<not> EFI_ERROR Status
                then Resume (ctx\<lparr>R_X := (R_X ctx)(6 := Record), R_SEPC := EmulatorThunk\<rparr>)
                else Fatal)
          else Fatal)"

section \<open>Registration\<close>

text \<open>
  The exceptions whose handler is the callback, and whether an ASSERT failed.
  \<open>fw\<close> is RegisterInterruptHandler of the firmware: its status for an
  exception and for setting or clearing the handler.
\<close>

type_synonym handlers = "exception_type set \<times> bool"

definition RegisterInterruptHandler ::
  "(exception_type \<Rightarrow> bool \<Rightarrow> efi_status) \<Rightarrow> exception_type \<Rightarrow> bool \<Rightarrow> handlers \<Rightarrow> efi_status \<times> handlers" where
  "RegisterInterruptHandler fw t set_it s =
     (let (H, a) = s; Status = fw t set_it
      in (Status, if EFI_ERROR Status then H else if set_it then insert t H else H - {t}, a))"

text \<open>Clearing a handler, with the assertion that it succeeds.\<close>

definition clear_handler :: "(exception_type \<Rightarrow> bool \<Rightarrow> efi_status) \<Rightarrow> exception_type \<Rightarrow> handlers \<Rightarrow> handlers" where
  "clear_handler fw t s =
     (let (Status, H, a) = RegisterInterruptHandler fw t False s in (H, a \<or> EFI_ERROR Status))"

definition AArch64_ArchInit :: "(exception_type \<Rightarrow> bool \<Rightarrow> efi_status) \<Rightarrow> handlers \<Rightarrow> efi_status \<times> handlers" where
  "AArch64_ArchInit fw s = RegisterInterruptHandler fw EXCEPT_AARCH64_SYNCHRONOUS_EXCEPTIONS True s"

definition AArch64_ArchCleanup :: "(exception_type \<Rightarrow> bool \<Rightarrow> efi_status) \<Rightarrow> handlers \<Rightarrow> handlers" where
  "AArch64_ArchCleanup fw s = clear_handler fw EXCEPT_AARCH64_SYNCHRONOUS_EXCEPTIONS s"

text \<open>The status of the first registration is overwritten by that of the second.\<close>

definition LoongArch64_ArchInit :: "(exception_type \<Rightarrow> bool \<Rightarrow> efi_status) \<Rightarrow> handlers \<Rightarrow> efi_status \<times> handlers" where
  "LoongArch64_ArchInit fw s =
     (let (Status, s) = RegisterInterruptHandler fw EXCEPT_LOONGARCH_PNX True s
      in RegisterInterruptHandler fw EXCEPT_LOONGARCH_ADE True s)"

definition LoongArch64_ArchCleanup :: "(exception_type \<Rightarrow> bool \<Rightarrow> efi_status) \<Rightarrow> handlers \<Rightarrow> handlers" where
  "LoongArch64_ArchCleanup fw s = clear_handler fw EXCEPT_LOONGARCH_ADE (clear_handler fw EXCEPT_LOONGARCH_PNX s)"

definition mExceptions :: "build \<Rightarrow> exception_type list" where
  "mExceptions opts =
     [EXCEPT_RISCV_STORE_ACCESS_PAGE_FAULT, EXCEPT_RISCV_LOAD_ACCESS_PAGE_FAULT, EXCEPT_RISCV_INST_ACCESS_PAGE_FAULT,
      EXCEPT_RISCV_ILLEGAL_INST] @ (if NDEBUG opts then [] else [EXCEPT_RISCV_LOAD_ACCESS_FAULT])"

text \<open>The for loop of ArchInit: it stops at the first failure; \<open>did\<close> are the exceptions before Index, latest first.\<close>

fun register_loop ::
  "(exception_type \<Rightarrow> bool \<Rightarrow> efi_status) \<Rightarrow> exception_type list \<Rightarrow> exception_type list \<Rightarrow> efi_status \<Rightarrow> handlers \<Rightarrow>
   efi_status \<times> exception_type list \<times> handlers" where
  "register_loop fw [] did Status s = (Status, did, s)"
| "register_loop fw (t # ts) did Status s =
     (let (Status, s) = RegisterInterruptHandler fw t True s
      in if EFI_ERROR Status then (Status, did, s) else register_loop fw ts (t # did) Status s)"

definition RiscV64_ArchInit ::
  "(exception_type \<Rightarrow> bool \<Rightarrow> efi_status) \<Rightarrow> build \<Rightarrow> efi_status \<Rightarrow> handlers \<Rightarrow> efi_status \<times> handlers" where
  "RiscV64_ArchInit fw opts uninitialised s =
     (let (Status, did, s) = register_loop fw (mExceptions opts) [] uninitialised s
      in (Status, if EFI_ERROR Status then fold (clear_handler fw) did s else s))"

definition RiscV64_ArchCleanup :: "(exception_type \<Rightarrow> bool \<Rightarrow> efi_status) \<Rightarrow> build \<Rightarrow> handlers \<Rightarrow> handlers" where
  "RiscV64_ArchCleanup fw opts s = fold (clear_handler fw) (mExceptions opts) s"

text \<open>ArchInit and ArchCleanup of the host the driver was built for.\<close>

definition ArchInit ::
  "host_arch \<Rightarrow> (exception_type \<Rightarrow> bool \<Rightarrow> efi_status) \<Rightarrow> build \<Rightarrow> efi_status \<Rightarrow> handlers \<Rightarrow> efi_status \<times> handlers" where
  "ArchInit a fw opts uninitialised s =
     (case a of
        MDE_CPU_AARCH64 \<Rightarrow> AArch64_ArchInit fw s
      | MDE_CPU_RISCV64 \<Rightarrow> RiscV64_ArchInit fw opts uninitialised s
      | MDE_CPU_LOONGARCH64 \<Rightarrow> LoongArch64_ArchInit fw s)"

definition ArchCleanup :: "host_arch \<Rightarrow> (exception_type \<Rightarrow> bool \<Rightarrow> efi_status) \<Rightarrow> build \<Rightarrow> handlers \<Rightarrow> handlers" where
  "ArchCleanup a fw opts s =
     (case a of
        MDE_CPU_AARCH64 \<Rightarrow> AArch64_ArchCleanup fw s
      | MDE_CPU_RISCV64 \<Rightarrow> RiscV64_ArchCleanup fw opts s
      | MDE_CPU_LOONGARCH64 \<Rightarrow> LoongArch64_ArchCleanup fw s)"

section \<open>The thunks\<close>

text \<open>
  EmulatorThunk of the three EmulatorThunk.S: it makes a frame of 80 bytes, saves
  the return address and (on AArch64 and RISC-V) the frame pointer below the
  eight argument registers, which so come right before the arguments the caller
  pushed, and calls EmulatorVmEntry with the two scratch registers of the
  callback, a pointer to the arguments, and the return address.
\<close>

record thunk_call =
  vm_ProgramCounter :: u64
  vm_Args :: u64
  vm_Record :: u64
  vm_Lr :: u64

definition store_regs :: "u64 \<Rightarrow> u64 list \<Rightarrow> memory \<Rightarrow> memory" where
  "store_regs a vs m = fold (\<lambda>(i, v). store64 (cell a i) v) (enumerate 0 vs) m"

definition EmulatorThunk_AArch64 ::
  "(nat \<Rightarrow> u64) \<Rightarrow> u64 \<Rightarrow> memory \<Rightarrow> thunk_call \<times> memory" where
  "EmulatorThunk_AArch64 X sp m =
     (let sp = sp - 80;
          m = store_regs sp [X 29, X 30, X 0, X 1, X 2, X 3, X 4, X 5, X 6, X 7] m
      in (\<lparr>vm_ProgramCounter = X 16, vm_Args = sp + 16, vm_Record = X 17, vm_Lr = X 30\<rparr>, m))"

definition EmulatorThunk_RISCV64 ::
  "(nat \<Rightarrow> u64) \<Rightarrow> memory \<Rightarrow> thunk_call \<times> memory" where
  "EmulatorThunk_RISCV64 X m =
     (let sp = X 2 - 80;
          m = store_regs sp [X 1, X 8, X 10, X 11, X 12, X 13, X 14, X 15, X 16, X 17] m
      in (\<lparr>vm_ProgramCounter = X 5, vm_Args = sp + 16, vm_Record = X 6, vm_Lr = X 1\<rparr>, m))"

definition EmulatorThunk_LOONGARCH64 ::
  "(nat \<Rightarrow> u64) \<Rightarrow> memory \<Rightarrow> thunk_call \<times> memory" where
  "EmulatorThunk_LOONGARCH64 R m =
     (let sp = R 3 - 80;
          m = store_regs sp [R 3, R 1, R 4, R 5, R 6, R 7, R 8, R 9, R 10, R 11] m
      in (\<lparr>vm_ProgramCounter = R 12, vm_Args = sp + 16, vm_Record = R 13, vm_Lr = R 1\<rparr>, m))"

section \<open>Instruction encodings\<close>

text \<open>jalr x1, imm(rs) and c.jalr rs, as the RISC-V manual encodes them.\<close>

definition enc_jalr :: "5 word \<Rightarrow> 12 word \<Rightarrow> u32" where
  "enc_jalr rs imm = of_nat (unat imm * 2 ^ 20 + unat rs * 2 ^ 15 + 0xE7)"

definition enc_c_jalr :: "5 word \<Rightarrow> u16" where
  "enc_c_jalr rs = of_nat (0x9002 + unat rs * 2 ^ 7)"

text \<open>A field of \<open>k\<close> bits from bit \<open>n\<close>, and the masks of the code as fields.\<close>

definition field :: "nat \<Rightarrow> nat \<Rightarrow> 'a::len word \<Rightarrow> 'a word" where
  "field n k x = take_bit k (drop_bit n x)"

lemma unat_field: "unat (field n k x) = unat x div 2 ^ n mod 2 ^ k"
  unfolding field_def unsigned_take_bit_eq unat_drop_bit_eq
  by (simp only: take_bit_eq_mod [where 'a = nat] drop_bit_eq_div [where 'a = nat])

lemma and_field: "(x :: 'a::len word) AND push_bit n (mask k) = push_bit n (field n k x)"
  unfolding field_def by (rule bit_word_eqI) (auto simp: bit_simps)

lemma masks32:
  fixes x :: u32
  shows "x AND 0x3 = field 0 2 x" "x AND 0x7f = field 0 7 x" "x AND 0x1F = field 0 5 x"
    "x AND 0xf80 = push_bit 7 (field 7 5 x)" "x AND 0x3000 = push_bit 12 (field 12 2 x)"
    "x AND 0xf000 = push_bit 12 (field 12 4 x)" "x AND 0x7c = push_bit 2 (field 2 5 x)"
proof -
  show "x AND 0x3 = field 0 2 x" "x AND 0x7f = field 0 7 x" "x AND 0x1F = field 0 5 x"
    by (simp_all add: field_def take_bit_eq_mask mask_eq_exp_minus_1)
  have "(0xf80 :: u32) = push_bit 7 (mask 5)" "(0x3000 :: u32) = push_bit 12 (mask 2)"
    "(0xf000 :: u32) = push_bit 12 (mask 4)" "(0x7c :: u32) = push_bit 2 (mask 5)"
    by (simp_all add: mask_eq_exp_minus_1 push_bit_eq_mult)
  then show "x AND 0xf80 = push_bit 7 (field 7 5 x)" "x AND 0x3000 = push_bit 12 (field 12 2 x)"
    "x AND 0xf000 = push_bit 12 (field 12 4 x)" "x AND 0x7c = push_bit 2 (field 2 5 x)"
    by (simp_all only: and_field)
qed

lemma field_bounds: "unat (rs :: 5 word) < 32" "unat (imm :: 12 word) < 4096"
  using unsigned_less [of rs] unsigned_less [of imm] by simp_all

lemma unat_enc:
  "unat (enc_jalr rs imm) = unat imm * 2 ^ 20 + unat rs * 2 ^ 15 + 0xE7" "unat (enc_c_jalr rs) = 0x9002 + unat rs * 2 ^ 7"
  unfolding enc_jalr_def enc_c_jalr_def unat_of_nat using field_bounds(1) [of rs] field_bounds(2) [of imm] by simp_all

lemma quotient_remainder: "c < b \<Longrightarrow> (q * b + c) div b = (q :: nat)" "c < b \<Longrightarrow> (q * b + c) mod b = c"
  by simp_all

lemma jalr_arith:
  fixes i r :: nat
  defines "x \<equiv> i * 2 ^ 20 + r * 2 ^ 15 + 0xE7"
  assumes r: "r < 32"
  shows "x mod 4 = 3" "x mod 128 = 0x67" "x div 128 mod 32 = 1" "x div 4096 mod 4 = 0"
    "x div 2 ^ 15 mod 32 = r" "x div 2 ^ 20 = i"
proof -
  have x: "x = (i * 2 ^ 18 + r * 2 ^ 13 + 57) * 4 + 3" "x = (i * 2 ^ 13 + r * 2 ^ 8 + 1) * 128 + 0x67"
    "x = (i * 2 ^ 8 + r * 2 ^ 3) * 4096 + 0xE7" "x = (i * 2 ^ 5 + r) * 2 ^ 15 + 0xE7" "x = i * 2 ^ 20 + (r * 2 ^ 15 + 0xE7)"
    by (simp_all add: x_def algebra_simps)
  show "x mod 4 = 3" unfolding x(1) by (rule quotient_remainder) simp
  show "x mod 128 = 0x67" unfolding x(2) by (rule quotient_remainder) simp
  have "x div 128 = i * 2 ^ 13 + r * 2 ^ 8 + 1" unfolding x(2) by (rule quotient_remainder) simp
  also have "\<dots> = (i * 2 ^ 8 + r * 2 ^ 3) * 32 + 1" by (simp add: algebra_simps)
  finally show "x div 128 mod 32 = 1" by (simp only:) (rule quotient_remainder, simp)
  have "x div 4096 = i * 2 ^ 8 + r * 2 ^ 3" unfolding x(3) by (rule quotient_remainder) simp
  also have "\<dots> = (i * 2 ^ 6 + r * 2) * 4 + 0" by (simp add: algebra_simps)
  finally show "x div 4096 mod 4 = 0" by (simp only:) (rule quotient_remainder, simp)
  have "x div 2 ^ 15 = i * 2 ^ 5 + r" unfolding x(4) by (rule quotient_remainder) simp
  then show "x div 2 ^ 15 mod 32 = r" using r quotient_remainder(2) [of r 32 i] by simp
  show "x div 2 ^ 20 = i" unfolding x(5) by (rule quotient_remainder) (use r in simp)
qed

lemma jalr_fields:
  "enc_jalr rs imm AND 0x3 = 0x3" "enc_jalr rs imm AND 0x7f = 0x67" "enc_jalr rs imm AND 0xf80 = 0x80"
  "enc_jalr rs imm AND 0x3000 = 0" "unat (drop_bit 15 (enc_jalr rs imm) AND 0x1F) = unat rs"
  "(ucast (drop_bit 20 (enc_jalr rs imm)) :: 12 word) = imm"
proof -
  let ?x = "enc_jalr rs imm" and ?i = "unat imm" and ?r = "unat rs"
  note arith = jalr_arith [OF field_bounds(1) [of rs], of ?i, folded unat_enc(1)]
  have d: "unat (drop_bit n ?x) = unat ?x div 2 ^ n" for n by (simp only: unat_drop_bit_eq drop_bit_eq_div [where 'a = nat])
  have f: "unat (field 0 2 ?x) = 3" "unat (field 0 7 ?x) = 0x67" "unat (field 7 5 ?x) = 1" "unat (field 12 2 ?x) = 0"
    "unat (field 0 5 (drop_bit 15 ?x)) = ?r" "unat (drop_bit 20 ?x) = ?i"
    unfolding unat_field d using arith by simp_all
  then have e: "field 0 2 ?x = 3" "field 0 7 ?x = 0x67" "field 7 5 ?x = 1" "field 12 2 ?x = 0"
    by (simp_all add: word_unat_eq_iff)
  show "?x AND 0x3 = 0x3" "?x AND 0x7f = 0x67" "?x AND 0xf80 = 0x80" "?x AND 0x3000 = 0"
    unfolding masks32 e by (simp_all add: push_bit_eq_mult)
  show "unat (drop_bit 15 ?x AND 0x1F) = ?r" unfolding masks32 f ..
  show "(ucast (drop_bit 20 ?x) :: 12 word) = imm"
    unfolding word_unat_eq_iff unsigned_ucast_eq using f(6) field_bounds(2) [of imm] by (simp add: take_bit_eq_mod)
qed

lemma c_jalr_arith:
  fixes r :: nat
  defines "x \<equiv> 0x9002 + r * 2 ^ 7"
  assumes r: "r < 32"
  shows "x mod 4 = 2" "x div 4096 mod 16 = 9" "x div 128 mod 32 = r" "x div 4 mod 32 = 0"
proof -
  have x: "x = (9216 + r * 32) * 4 + 2" "x = 9 * 4096 + (r * 128 + 2)" "x = (288 + r) * 128 + 2"
    by (simp_all add: x_def algebra_simps)
  show "x mod 4 = 2" unfolding x(1) by (rule quotient_remainder) simp
  have "x div 4096 = 9" unfolding x(2) by (rule quotient_remainder) (use r in simp)
  then show "x div 4096 mod 16 = 9" by simp
  have "x div 128 = 288 + r" unfolding x(3) by (rule quotient_remainder) simp
  then show "x div 128 mod 32 = r" using r quotient_remainder(2) [of r 32 9] by simp
  have "x div 4 = 9216 + r * 32" unfolding x(1) by (rule quotient_remainder) simp
  then show "x div 4 mod 32 = 0" using quotient_remainder(2) [of 0 32 "288 + r"] by (simp add: algebra_simps)
qed

lemma c_jalr_fields:
  fixes rs :: "5 word"
  defines "x \<equiv> (ucast (enc_c_jalr rs) :: u32)"
  shows "x AND 0x3 = 2" "x AND 0xf000 = 0x9000" "unat (drop_bit 7 x AND 0x1F) = unat rs"
    "x AND 0xf80 \<noteq> 0 \<longleftrightarrow> rs \<noteq> 0" "x AND 0x7c = 0"
proof -
  have "unat x = unat (enc_c_jalr rs)"
    unfolding x_def unsigned_ucast_eq using field_bounds(1) [of rs] by (simp add: unat_enc take_bit_eq_mod)
  then have ux: "unat x = 0x9002 + unat rs * 2 ^ 7" by (simp only: unat_enc)
  note arith = c_jalr_arith [OF field_bounds(1) [of rs], folded ux]
  have d: "unat (drop_bit n x) = unat x div 2 ^ n" for n by (simp only: unat_drop_bit_eq drop_bit_eq_div [where 'a = nat])
  have f: "unat (field 0 2 x) = 2" "unat (field 12 4 x) = 9" "unat (field 7 5 x) = unat rs"
    "unat (field 0 5 (drop_bit 7 x)) = unat rs" "unat (field 2 5 x) = 0"
    unfolding unat_field d using arith by simp_all
  then have e: "field 0 2 x = 2" "field 12 4 x = 9" "field 2 5 x = 0" by (simp_all add: word_unat_eq_iff)
  show "x AND 0x3 = 2" "x AND 0xf000 = 0x9000" "x AND 0x7c = 0" unfolding masks32 e by (simp_all add: push_bit_eq_mult)
  show "unat (drop_bit 7 x AND 0x1F) = unat rs" unfolding masks32 f ..
  have "unat (push_bit 7 (field 7 5 x)) = unat rs * 128"
    using f(3) field_bounds(1) [of rs] by (simp add: push_bit_eq_mult unat_word_ariths)
  then have "push_bit 7 (field 7 5 x) = 0 \<longleftrightarrow> unat rs = 0" by (metis mult_eq_0_iff unat_eq_0 zero_neq_numeral)
  then show "x AND 0xf80 \<noteq> 0 \<longleftrightarrow> rs \<noteq> 0" unfolding masks32 by (simp add: unat_eq_0)
qed

section \<open>Calls of native code\<close>

text \<open>
  The RISC-V processor at an indirect call: the registers after it, and the SEPC
  of the fault on its target t, which has bit 0 cleared by the call and, without
  the C extension, bit 1 too.
\<close>

definition sepc_of :: "u64 \<Rightarrow> u64 \<Rightarrow> bool" where
  "sepc_of t s \<longleftrightarrow> s = t AND NOT 1 \<or> s = t AND NOT 3"

lemma addr_masks: "INSN_C_ADDR_MASK = NOT 1" "INSN_ADDR_MASK = NOT 3"
  by (simp_all add: INSN_C_ADDR_MASK_def INSN_ADDR_MASK_def)

lemma RecoverPcFromCall_jalr:
  assumes "load32 m (R_X ctx 1 - 4) = enc_jalr rs imm" "t = R_X ctx (unat rs) + scast imm" "sepc_of t (R_SEPC ctx)"
  shows "RecoverPcFromCall m ctx = (EFI_SUCCESS, Some t)"
  using assms by (auto simp: RecoverPcFromCall_def Let_def jalr_fields addr_masks sepc_of_def)

lemma load32_low: "load32 m a AND 0x3 = (ucast (load16 m a) AND 0x3 :: u32)"
  unfolding masks32 field_def load32_def by (rule bit_word_eqI) (auto simp: bit_simps)

lemma RecoverPcFromCall_c_jalr:
  assumes "load16 m (R_X ctx 1 - 2) = enc_c_jalr rs" "rs \<noteq> 0" "load16 m (R_X ctx 1 - 4) AND 0x3 \<noteq> 0x3"
    and "R_SEPC ctx = R_X ctx (unat rs) AND NOT 1"
  shows "RecoverPcFromCall m ctx = (EFI_SUCCESS, Some (R_X ctx (unat rs)))"
proof -
  have "(ucast (load16 m (R_X ctx 1 - 4)) AND 0x3 :: u32) = ucast (load16 m (R_X ctx 1 - 4) AND 0x3)"
    by (rule bit_word_eqI) (auto simp: bit_simps dest: bit_imp_le_length)
  moreover have "ucast y = (3 :: u32) \<longleftrightarrow> y = 3" for y :: u16
  proof -
    have "unat y < 65536" by (rule order_less_le_trans [OF unsigned_less]) simp
    then show ?thesis by (simp add: word_unat_eq_iff unsigned_ucast_eq take_bit_eq_mod)
  qed
  ultimately have "load32 m (R_X ctx 1 - 4) AND 0x3 \<noteq> 0x3" unfolding load32_low using assms(3) by simp
  then show ?thesis
    using assms by (simp add: RecoverPcFromCall_def Let_def c_jalr_fields addr_masks)
qed

text \<open>
  The call before RA, by either instruction, through a register other than RA,
  which the call has overwritten, goes to t.  A c.jalr must follow a halfword
  that does not look like the start of a longer instruction.
\<close>

definition riscv_call :: "memory \<Rightarrow> (nat \<Rightarrow> u64) \<Rightarrow> u64 \<Rightarrow> u64 \<Rightarrow> bool" where
  "riscv_call m X t sepc \<longleftrightarrow>
     (\<exists>rs imm. rs \<noteq> 1 \<and> load32 m (X 1 - 4) = enc_jalr rs imm \<and> t = X (unat rs) + scast imm \<and> sepc_of t sepc) \<or>
     (\<exists>rs. rs \<noteq> 0 \<and> rs \<noteq> 1 \<and> load16 m (X 1 - 2) = enc_c_jalr rs \<and> load16 m (X 1 - 4) AND 0x3 \<noteq> 0x3 \<and>
        t = X (unat rs) \<and> sepc = t AND NOT 1)"

lemma RecoverPcFromCall_ok: "riscv_call m X t sepc \<Longrightarrow> RecoverPcFromCall m \<lparr>R_X = X, R_SEPC = sepc\<rparr> = (EFI_SUCCESS, Some t)"
  unfolding riscv_call_def using RecoverPcFromCall_jalr RecoverPcFromCall_c_jalr by fastforce

lemma store_regs_load:
  assumes "length vs < 2 ^ 59" "i < 2 ^ 59"
  shows "load64 (store_regs a vs m) (cell a i) = (if i < length vs then vs ! i else load64 m (cell a i))"
proof -
  have "load64 (fold (\<lambda>(i, v). store64 (cell a i) v) (enumerate k vs) m) (cell a i) =
      (if k \<le> i \<and> i < k + length vs then vs ! (i - k) else load64 m (cell a i))"
    if "k + length vs < 2 ^ 60" for k
    using that
  proof (induction vs arbitrary: k m)
    case (Cons v vs)
    have "i < 2 ^ 60" "k < 2 ^ 60" using Cons.prems assms(2) by simp_all
    with Cons show ?case
      by (cases "i = k") (auto simp: load64_store64_cell nth_Cons' Suc_diff_le)
  qed auto
  from this [of 0] assms(1) show ?thesis by (simp add: store_regs_def)
qed

text \<open>The frame of a thunk: the arguments start two cells above the saved registers.\<close>

lemma frame_args:
  assumes "i < 16"
  shows "load64 (store_regs (sp - 80) (x # y # map f [0..<8]) m) (cell (sp - 64) i) =
    (if i < 8 then f i else load64 m (cell sp (i - 8)))"
proof -
  have c: "cell (sp - 64) i = cell (sp - 80) (Suc (Suc i))" by (simp add: cell_def algebra_simps)
  have "cell (sp - 80) (Suc (Suc i)) = cell sp (i - 8)" if ge: "\<not> i < 8"
  proof -
    obtain k where "i = 8 + k" using ge le_Suc_ex [of 8 i] by auto
    then show ?thesis by (simp add: cell_def)
  qed
  moreover have "Suc (Suc i) < length (x # y # map f [0..<8]) \<longleftrightarrow> i < 8" by simp
  moreover have "(x # y # map f [0..<8]) ! Suc (Suc i) = f i" if "i < 8" using that by (simp del: upt_rec_numeral)
  moreover have "load64 (store_regs (sp - 80) (x # y # map f [0..<8]) m) (cell (sp - 80) (Suc (Suc i))) =
      (if Suc (Suc i) < length (x # y # map f [0..<8]) then (x # y # map f [0..<8]) ! Suc (Suc i)
       else load64 m (cell (sp - 80) (Suc (Suc i))))"
    by (rule store_regs_load) (use assms in simp_all)
  ultimately show ?thesis unfolding c by presburger
qed

section \<open>Registration and its undoing\<close>

definition archs_exceptions :: "host_arch \<Rightarrow> build \<Rightarrow> exception_type list" where
  "archs_exceptions a opts =
     (case a of
        MDE_CPU_AARCH64 \<Rightarrow> [EXCEPT_AARCH64_SYNCHRONOUS_EXCEPTIONS]
      | MDE_CPU_RISCV64 \<Rightarrow> mExceptions opts
      | MDE_CPU_LOONGARCH64 \<Rightarrow> [EXCEPT_LOONGARCH_PNX, EXCEPT_LOONGARCH_ADE])"

text \<open>Clearing a handler that was set succeeds.\<close>

definition clears :: "(exception_type \<Rightarrow> bool \<Rightarrow> efi_status) \<Rightarrow> bool" where
  "clears fw \<longleftrightarrow> (\<forall>t. \<not> EFI_ERROR (fw t False))"

lemma clear_handlers: "clears fw \<Longrightarrow> fold (clear_handler fw) ts (H, a) = (H - set ts, a)"
  by (induction ts arbitrary: H) (auto simp: clear_handler_def RegisterInterruptHandler_def clears_def)

lemma register_loop_result:
  "register_loop fw ts did st (H, a) = (st', did', s') \<Longrightarrow>
   \<exists>us. did' = us @ did \<and> s' = (H \<union> set us, a) \<and> set us \<subseteq> set ts \<and>
     (\<not> EFI_ERROR st' \<longrightarrow> set us = set ts) \<and> (ts \<noteq> [] \<longrightarrow> \<not> EFI_ERROR st' \<or> (\<exists>t \<in> set ts. st' = fw t True))"
proof (induction ts arbitrary: did st H)
  case (Cons t ts)
  show ?case
  proof (cases "EFI_ERROR (fw t True)")
    case True
    with Cons.prems show ?thesis by (simp add: RegisterInterruptHandler_def)
  next
    case False
    with Cons.prems have "register_loop fw ts (t # did) (fw t True) (insert t H, a) = (st', did', s')"
      by (simp add: RegisterInterruptHandler_def)
    from Cons.IH [OF this] obtain us where us: "did' = us @ t # did" "s' = (insert t H \<union> set us, a)" "set us \<subseteq> set ts"
      "\<not> EFI_ERROR st' \<longrightarrow> set us = set ts" "ts \<noteq> [] \<longrightarrow> \<not> EFI_ERROR st' \<or> (\<exists>t \<in> set ts. st' = fw t True)" by blast
    moreover have "ts = [] \<Longrightarrow> st' = fw t True" using False Cons.prems by (simp add: RegisterInterruptHandler_def)
    ultimately show ?thesis using False by (intro exI [of _ "us @ [t]"]) auto
  qed
qed simp

lemma ArchInit_undo:
  assumes "clears fw" "H \<inter> set (archs_exceptions a opts) = {}" "ArchInit a fw opts u (H, False) = (st, s)"
  shows "(\<not> EFI_ERROR st \<longrightarrow> ArchCleanup a fw opts s = (H, False)) \<and>
    (a \<noteq> MDE_CPU_LOONGARCH64 \<longrightarrow> s = (if EFI_ERROR st then (H, False) else (H \<union> set (archs_exceptions a opts), False)))"
proof (cases a)
  case MDE_CPU_RISCV64
  obtain st1 did s1 where l: "register_loop fw (mExceptions opts) [] u (H, False) = (st1, did, s1)" by (metis prod_cases3)
  from register_loop_result [OF this] obtain us where us: "did = us" "s1 = (H \<union> set us, False)" "set us \<subseteq> set (mExceptions opts)"
    "\<not> EFI_ERROR st1 \<longrightarrow> set us = set (mExceptions opts)" by auto
  have d: "H \<inter> set (mExceptions opts) = {}" using assms(2) MDE_CPU_RISCV64 by (simp add: archs_exceptions_def)
  have "H \<union> set us - set us = H" using d us(3) by auto
  then have st: "st = st1" "s = (if EFI_ERROR st1 then (H, False) else s1)"
    using assms(3) l us(1,2) MDE_CPU_RISCV64 clear_handlers [OF assms(1)]
    by (auto simp: ArchInit_def RiscV64_ArchInit_def Let_def)
  show ?thesis
    using us(2,4) d st MDE_CPU_RISCV64 clear_handlers [OF assms(1)]
    by (auto simp: ArchCleanup_def RiscV64_ArchCleanup_def archs_exceptions_def)
next
  case MDE_CPU_AARCH64
  then show ?thesis
    using assms by (auto simp: ArchInit_def ArchCleanup_def AArch64_ArchInit_def AArch64_ArchCleanup_def clear_handler_def
        RegisterInterruptHandler_def archs_exceptions_def clears_def Let_def)
next
  case MDE_CPU_LOONGARCH64
  then show ?thesis
    using assms by (auto simp: ArchInit_def ArchCleanup_def LoongArch64_ArchInit_def LoongArch64_ArchCleanup_def clear_handler_def
        RegisterInterruptHandler_def archs_exceptions_def clears_def Let_def split: if_splits)
qed

section \<open>Properties\<close>


text \<open>
  C28: on AArch64, an instruction permission fault (an indirect call into an
  image, whose memory is not executable) or a PC alignment fault of native code
  at an address of an emulated image gets into EmulatorVmEntry with that address,
  the record, the return address and a pointer to the sixteen arguments.
\<close>

theorem aarch64_call_reaches_EmulatorVmEntry:
  fixes w :: "('u, 'c, 'z) image_world_scheme"
  assumes "drop_bit 26 (A_ESR ctx) = 0x22 \<or> (drop_bit 26 (A_ESR ctx) = 0x21 \<and> A_ESR ctx AND 0x3c = 0xc)"
    and "ImageFindByAddress (A_ELR ctx) w = Some Record"
  shows "\<exists>ctx'. AArch64_SyncExceptionCallback EmulatorThunk ctx w = Resume ctx' \<and> A_ELR ctx' = EmulatorThunk \<and>
    (let (call, m) = EmulatorThunk_AArch64 (X(16 := A_X16 ctx', 17 := A_X17 ctx')) sp (mem w) in
      vm_ProgramCounter call = A_ELR ctx \<and> vm_Record call = Record \<and> vm_Lr call = X 30 \<and>
      (\<forall>i < 16. load64 m (cell (vm_Args call) i) = (if i < 8 then X i else load64 (mem w) (cell sp (i - 8)))))"
proof (intro exI conjI)
  let ?ctx = "ctx\<lparr>A_X16 := A_ELR ctx, A_X17 := Record, A_ELR := EmulatorThunk\<rparr>"
  show "AArch64_SyncExceptionCallback EmulatorThunk ctx w = Resume ?ctx" "A_ELR ?ctx = EmulatorThunk"
    using assms by (auto simp: AArch64_SyncExceptionCallback_def Let_def)
  show "let (call, m) = EmulatorThunk_AArch64 (X(16 := A_X16 ?ctx, 17 := A_X17 ?ctx)) sp (mem w) in
      vm_ProgramCounter call = A_ELR ctx \<and> vm_Record call = Record \<and> vm_Lr call = X 30 \<and>
      (\<forall>i < 16. load64 m (cell (vm_Args call) i) = (if i < 8 then X i else load64 (mem w) (cell sp (i - 8))))"
    using frame_args [where f = X and sp = sp and m = "mem w", unfolded map_upt_8]
    by (simp add: EmulatorThunk_AArch64_def Let_def)
qed

text \<open>
  C29: on RISC-V, a c.jalr that follows a halfword whose two low bits are set (the
  end of a longer instruction, say) is taken for the second half of a 32-bit
  instruction: the call is not recognised, and the exception is fatal.
\<close>

theorem riscv64_c_jalr_after_longer_instruction_fails:
  fixes w :: "('u, 'c, 'z) image_world_scheme"
  assumes "load16 (mem w) (X 1 - 2) = enc_c_jalr rs" "load16 (mem w) (X 1 - 4) AND 0x3 = 0x3"
    and "load16 (mem w) (X 1 - 4) AND 0x7f \<noteq> 0x67"
  shows "RecoverPcFromCall (mem w) \<lparr>R_X = X, R_SEPC = sepc\<rparr> = (EFI_NOT_FOUND, None) \<and>
    RiscV64_SyncExceptionCallback opts EmulatorThunk e \<lparr>R_X = X, R_SEPC = sepc\<rparr> w = Fatal"
proof -
  have low: "load32 (mem w) (X 1 - 4) AND mask k = ucast (load16 (mem w) (X 1 - 4) AND mask k)" if "k \<le> 16" for k
    unfolding load32_def using that by (intro bit_word_eqI) (auto simp: bit_simps dest: bit_imp_le_length)
  have u: "ucast y = (of_nat n :: u32) \<longleftrightarrow> y = of_nat n" if "n < 65536" for y :: u16 and n
  proof -
    have "unat y < 65536" by (rule order_less_le_trans [OF unsigned_less]) simp
    with that show ?thesis by (simp add: word_unat_eq_iff unsigned_ucast_eq take_bit_eq_mod unat_of_nat)
  qed
  have "load32 (mem w) (X 1 - 4) AND 0x3 = 0x3" "load32 (mem w) (X 1 - 4) AND 0x7f \<noteq> 0x67"
    using low [of 2] low [of 7] u [of 3] u [of "0x67"] assms(2,3) by (simp_all add: mask_eq_exp_minus_1)
  then have "RecoverPcFromCall (mem w) \<lparr>R_X = X, R_SEPC = sepc\<rparr> = (EFI_NOT_FOUND, None)"
    by (simp add: RecoverPcFromCall_def Let_def)
  then show ?thesis by (simp add: RiscV64_SyncExceptionCallback_def split: option.split)
qed

text \<open>
  ArchInit of LoongArch forgets the status of the first of its two
  registrations: it reports success although the page-non-executable exception,
  through which calls of emulated code arrive, has no handler.
\<close>

lemma loongarch_ArchInit_forgets_failure:
  assumes "EFI_ERROR (fw EXCEPT_LOONGARCH_PNX True)" "fw EXCEPT_LOONGARCH_ADE True = EFI_SUCCESS"
    and "EXCEPT_LOONGARCH_PNX \<notin> H"
  shows "\<exists>H'. ArchInit MDE_CPU_LOONGARCH64 fw opts u (H, b) = (EFI_SUCCESS, H', b) \<and> EXCEPT_LOONGARCH_PNX \<notin> H'"
  using assms by (simp add: ArchInit_def LoongArch64_ArchInit_def RegisterInterruptHandler_def)

section \<open>Witnesses\<close>

text \<open>jalr x1, 0x11(x10) at 0x8000 calls the odd address 0x20111 of the example image.\<close>

definition example_riscv_world :: "u64 \<Rightarrow> (uc_reg \<Rightarrow> u64, uc_reg \<Rightarrow> u64) image_world" where
  "example_riscv_world code = example_images\<lparr>mem := store64 0x8000 code (\<lambda>_. 0)\<rparr>"

definition example_riscv_regs :: "nat \<Rightarrow> u64" where
  "example_riscv_regs i = (if i = 1 then 0x8004 else if i = 2 then 0x700000 else if i = 10 then 0x20100 else of_nat i)"

lemma example_riscv_image: "ImageFindByAddress 0x20110 (example_riscv_world code) = Some 0x100"
  by (simp add: example_riscv_world_def example_images_def ImageFindByAddress_def covers_def example_record_def)


theorem aarch64_call_reaches_EmulatorVmEntry_witness:
  "\<exists>ctx'. AArch64_SyncExceptionCallback 0x3200 \<lparr>A_X16 = 0, A_X17 = 0, A_ELR = 0x20110, A_ESR = 0x88000000\<rparr> (example_riscv_world 0) =
      Resume ctx' \<and>
    vm_ProgramCounter (fst (EmulatorThunk_AArch64 ((\<lambda>_. 0)(16 := A_X16 ctx', 17 := A_X17 ctx')) 0x700000 (mem (example_riscv_world 0)))) = 0x20110"
proof -
  let ?ctx = "\<lparr>A_X16 = 0, A_X17 = 0, A_ELR = 0x20110, A_ESR = 0x88000000\<rparr>"
  have i: "ImageFindByAddress (A_ELR ?ctx) (example_riscv_world 0) = Some 0x100" by (simp add: example_riscv_image)
  have "drop_bit 26 (A_ESR ?ctx) = 0x22 \<or> (drop_bit 26 (A_ESR ?ctx) = 0x21 \<and> A_ESR ?ctx AND 0x3c = 0xc)" by simp
  from aarch64_call_reaches_EmulatorVmEntry [OF this i, of "0x3200" "\<lambda>_. 0" "0x700000"]
  show ?thesis by (auto simp: case_prod_unfold Let_def)
qed

theorem riscv64_c_jalr_after_longer_instruction_fails_witness:
  "RiscV64_SyncExceptionCallback default_build 0x3200 EXCEPT_RISCV_INST_ACCESS_PAGE_FAULT
     \<lparr>R_X = example_riscv_regs, R_SEPC = 0x20100\<rparr> (example_riscv_world 0x95020003) = Fatal"
proof -
  have "load16 (mem (example_riscv_world 0x95020003)) (example_riscv_regs 1 - 2) = enc_c_jalr 10"
    "load16 (mem (example_riscv_world 0x95020003)) (example_riscv_regs 1 - 4) AND 0x3 = 0x3"
    "load16 (mem (example_riscv_world 0x95020003)) (example_riscv_regs 1 - 4) AND 0x7f \<noteq> 0x67"
    by (simp_all add: example_riscv_world_def example_riscv_regs_def load16_def store64_def enc_c_jalr_def)
  from riscv64_c_jalr_after_longer_instruction_fails [where X = example_riscv_regs, OF this] show ?thesis by blast
qed

end
