(* ===== verification/Cpu_Init.thy ===== *)
theory Cpu_Init
  imports Run_Props
begin

text \<open>
  The initialisation of the emulated processors, CpuInitEx, CpuInit,
  CpuPrivateStackInit, CpuCleanup and CpuCleanupEx of Cpu.c, and the callbacks it
  installs for port accesses and NULL pointers.  It establishes the invariant the
  theorems on running code start from.
\<close>

section \<open>Unicorn and the firmware during initialisation\<close>

datatype uc_arch = UC_ARCH_X86 | UC_ARCH_ARM64
datatype uc_mode = UC_MODE_0 | UC_MODE_64 | UC_MODE_ARM
datatype uc_hook_type = UC_HOOK_BLOCK | UC_HOOK_TB_FIND_FAILURE | UC_HOOK_INSN_IN | UC_HOOK_INSN_OUT

text \<open>The callbacks of Cpu.c, by name.\<close>

datatype uc_callback =
  Cb_CpuTimeout | Cb_CpuIsNative | Cb_CpuIoRead | Cb_CpuIoWrite

text \<open>
  The setup calls of Unicorn on an engine: error code and the engine after the
  call.  \<open>uc_context_alloc\<close> also gets the address of the object the new
  context is for.
\<close>

record ('u, 'c) uc_setup =
  uc_open :: "uc_arch \<Rightarrow> uc_mode \<Rightarrow> uc_err \<times> 'u"
  uc_hook_add :: "uc_hook_type \<Rightarrow> uc_callback \<Rightarrow> 'u \<Rightarrow> uc_err \<times> 'u"
  uc_mmio_map :: "u64 \<Rightarrow> u64 \<Rightarrow> 'u \<Rightarrow> uc_err \<times> 'u"
  uc_mem_map_ptr :: "u64 \<Rightarrow> u64 \<Rightarrow> uc_prot \<Rightarrow> u64 \<Rightarrow> 'u \<Rightarrow> uc_err \<times> 'u"
  uc_ctl_exits_enable :: "'u \<Rightarrow> uc_err \<times> 'u"
  uc_get_code_gen_buf :: "'u \<Rightarrow> uc_err \<times> u64 \<times> u64"
  uc_context_alloc :: "'u \<Rightarrow> ptr \<Rightarrow> uc_err \<times> 'c"
  uc_context_free :: uc_err
  uc_close :: uc_err

datatype allocate_type = AllocateAnyPages | AllocateMaxAddress

text \<open>
  What the firmware answers while a processor is set up: AllocatePages (status
  and address, from the kind, the number of pages and the address passed in), the
  memory for the pool of contexts, the status of SetMemoryAttributes, and the
  frequency of the performance counter.  \<open>uninit\<close> is the uninitialised
  Status of ObjectAllocCreate.
\<close>

record boot_services =
  AllocatePages :: "allocate_type \<Rightarrow> u64 \<Rightarrow> u64 \<Rightarrow> efi_status \<times> u64"
  pool_memory :: mem_services
  cpu_SetMemoryAttributes :: "u64 \<Rightarrow> u64 \<Rightarrow> u64 \<Rightarrow> efi_status"
  GetPerformanceCounterProperties :: u64
  uninit :: efi_status

text \<open>
  The state that only initialisation and cleanup change: the memory the driver
  holds, for which processors the pointer UE is set, which engines are open and which processors have a pool of contexts,
  what was installed on the engines, and the bounds of the private stack.
\<close>

record ('u, 'c) init_world = "('u, 'c) world" +
  ledger :: mem_ledger
  UE_set :: "cpu_id \<Rightarrow> bool"
  engine_open :: "cpu_id \<Rightarrow> bool"
  has_pool :: "cpu_id \<Rightarrow> bool"
  uc_hooks :: "cpu_id \<Rightarrow> (uc_hook_type \<times> uc_callback) list"
  uc_maps :: "cpu_id \<Rightarrow> (u64 \<times> u64) list"
  private_stack :: "(u64 \<times> u64) option"

section \<open>Early returns\<close>

text \<open>A step returns a status; an error ends the function.\<close>

definition and_then :: "efi_status \<times> 'w \<Rightarrow> ('w \<Rightarrow> efi_status \<times> 'w) \<Rightarrow> efi_status \<times> 'w" where
  "and_then r f = (case r of (Status, w) \<Rightarrow> if EFI_ERROR Status then (Status, w) else f w)"

lemma and_then_ok:
  "and_then r f = (st, w') \<Longrightarrow> \<not> EFI_ERROR st \<Longrightarrow> \<exists>st1 w1. r = (st1, w1) \<and> \<not> EFI_ERROR st1 \<and> f w1 = (st, w')"
  by (auto simp: and_then_def split: prod.splits if_splits)

lemma and_then_split: "and_then r f = (st, w') \<longleftrightarrow>
    (\<exists>st1 w1. r = (st1, w1) \<and> (if EFI_ERROR st1 then st = st1 \<and> w' = w1 else f w1 = (st, w')))"
  by (auto simp: and_then_def split: prod.splits)

text \<open>A Unicorn call on the engine of a processor; an error makes the function return EFI\_UNSUPPORTED.\<close>

definition uc_step ::
  "cpu_id \<Rightarrow> ('u \<Rightarrow> uc_err \<times> 'u) \<Rightarrow> ('u, 'c, 'z) init_world_scheme \<Rightarrow> efi_status \<times> ('u, 'c, 'z) init_world_scheme" where
  "uc_step c call w =
     (let (UcErr, u) = call (UE w c)
      in (if UcErr \<noteq> UC_ERR_OK then EFI_UNSUPPORTED else EFI_SUCCESS, set_UE c u w))"

definition hook_add ::
  "('u, 'c) uc_setup \<Rightarrow> cpu_id \<Rightarrow> uc_hook_type \<Rightarrow> uc_callback \<Rightarrow> ('u, 'c, 'z) init_world_scheme \<Rightarrow>
   efi_status \<times> ('u, 'c, 'z) init_world_scheme" where
  "hook_add S c t cb w =
     and_then (uc_step c (uc_hook_add S t cb) w)
       (\<lambda>w. (EFI_SUCCESS, w\<lparr>uc_hooks := (uc_hooks w)(c := uc_hooks w c @ [(t, cb)])\<rparr>))"

section \<open>CpuInitEx\<close>

abbreviation SIZE_4GB :: u64 where "SIZE_4GB \<equiv> 0x100000000"
abbreviation EMU_STACK_SIZE :: u64 where "EMU_STACK_SIZE \<equiv> 1024 * 1024"
abbreviation NATIVE_STACK_SIZE :: u64 where "NATIVE_STACK_SIZE \<equiv> 1024 * 1024"
abbreviation MAX_CPU_RUN_CONTEXTS :: u64 where "MAX_CPU_RUN_CONTEXTS \<equiv> 32"
abbreviation UC_EMU_EXIT_PERIOD_TB_INITIAL :: u64 where "UC_EMU_EXIT_PERIOD_TB_INITIAL \<equiv> 0x1000"
abbreviation UC_EMU_EXIT_PERIOD_MS :: u64 where "UC_EMU_EXIT_PERIOD_MS \<equiv> 10"

text \<open>The instruction set: register numbers and functions, and the mode for uc\_open.\<close>

definition select_isa ::
  "build \<Rightarrow> uc_arch \<Rightarrow> 'c CpuContext \<Rightarrow> efi_status \<times> uc_mode \<times> 'c CpuContext" where
  "select_isa opts Arch x =
     (if MAU_SUPPORTS_X64_BINS opts \<and> Arch = UC_ARCH_X86 then
        (EFI_SUCCESS, UC_MODE_64,
         x\<lparr>EmuMachineType := EFI_IMAGE_MACHINE_X64, StackReg := UC_X86_REG_RSP, ProgramCounterReg := UC_X86_REG_RIP,
           ReturnValueReg := UC_X86_REG_RAX, EmuThunkPre := Some X64Functions, EmuThunkPost := Some X64Functions,
           NativeThunk := Some X64Functions\<rparr>)
      else if MAU_SUPPORTS_AARCH64_BINS opts \<and> Arch = UC_ARCH_ARM64 then
        (EFI_SUCCESS, UC_MODE_ARM,
         x\<lparr>EmuMachineType := EFI_IMAGE_MACHINE_AARCH64, StackReg := UC_ARM64_REG_SP, ProgramCounterReg := UC_ARM64_REG_PC,
           ReturnValueReg := UC_ARM64_REG_X0, EmuThunkPre := Some AArch64Functions, EmuThunkPost := Some AArch64Functions,
           NativeThunk := Some AArch64Functions\<rparr>)
      else (EFI_UNSUPPORTED, UC_MODE_0, x))"

definition emu_stack_alloc ::
  "boot_services \<Rightarrow> cpu_id \<Rightarrow> ('u, 'c, 'z) init_world_scheme \<Rightarrow> efi_status \<times> ('u, 'c, 'z) init_world_scheme" where
  "emu_stack_alloc B c w =
     (let Pages = EFI_SIZE_TO_PAGES EMU_STACK_SIZE;
          (Status, start) = AllocatePages B AllocateMaxAddress Pages (SIZE_4GB - 1);
          (Status, start) = (if EFI_ERROR Status then AllocatePages B AllocateAnyPages Pages start else (Status, start));
          w = cpu_update c (\<lambda>x. x\<lparr>EmuStackStart := start\<rparr>) w
      in if EFI_ERROR Status then (Status, w)
         else (EFI_SUCCESS, cpu_update c (\<lambda>x. x\<lparr>EmuStackTop := EmuStackStart x + EMU_STACK_SIZE\<rparr>)
                              (w\<lparr>ledger := (ledger w)\<lparr>page_runs := (start, Pages) # page_runs (ledger w)\<rparr>\<rparr>)))"

text \<open>sizeof (CpuRunContext): twelve pointer-sized members, or eleven without LeakCookie.\<close>

definition sizeof_CpuRunContext :: "build \<Rightarrow> u64" where
  "sizeof_CpuRunContext opts = (if MAU_CHECK_ORPHAN_CONTEXTS opts then 96 else 88)"

definition context_pool_config ::
  "('u, 'c) uc_setup \<Rightarrow> build \<Rightarrow> 'u \<Rightarrow> u16 \<Rightarrow> cpu_id \<Rightarrow> 'c ctx_heap ObjectAllocConfig" where
  "context_pool_config S opts u machine c =
     \<lparr>ObjectSize = sizeof_CpuRunContext opts, ObjectAlignment = 8, ObjectCount = MAX_CPU_RUN_CONTEXTS,
      cfg_Signature = ucast machine, OnCreate = Some (CpuRunContextOnCreate (uc_context_alloc S u) c),
      OnAlloc = Some CpuRunContextOnAlloc, OnFree = None, OnDestroy = Some (CpuRunContextOnDestroy (uc_context_free S))\<rparr>"

definition context_pool_create ::
  "('u, 'c) uc_setup \<Rightarrow> boot_services \<Rightarrow> build \<Rightarrow> cpu_id \<Rightarrow> ('u, 'c, 'z) init_world_scheme \<Rightarrow>
   efi_status \<times> ('u, 'c, 'z) init_world_scheme" where
  "context_pool_create S B opts c w =
     (let cfg = context_pool_config S opts (UE w c) (EmuMachineType (cpus w c)) c;
          (Status, pool, l, (h, failed)) = ObjectAllocCreate (pool_memory B) (uninit B) cfg (ledger w) (contexts w, False);
          w = ASSERT_w (\<not> failed) (w\<lparr>ledger := l, contexts := h\<rparr>)
      in case pool of
           None \<Rightarrow> (Status, w)
         | Some P \<Rightarrow> (Status, w\<lparr>RunContextAlloc := (RunContextAlloc w)(c := P), has_pool := (has_pool w)(c := True)\<rparr>))"

text \<open>The hooks and the memory map.\<close>

definition install_hooks ::
  "('u, 'c) uc_setup \<Rightarrow> build \<Rightarrow> uc_arch \<Rightarrow> cpu_id \<Rightarrow> ('u, 'c, 'z) init_world_scheme \<Rightarrow>
   efi_status \<times> ('u, 'c, 'z) init_world_scheme" where
  "install_hooks S opts Arch c w =
     and_then (if MAU_EMU_TIMEOUT_NONE opts then (EFI_SUCCESS, w) else hook_add S c UC_HOOK_BLOCK Cb_CpuTimeout w)
       (\<lambda>w. and_then (hook_add S c UC_HOOK_TB_FIND_FAILURE Cb_CpuIsNative w)
       (\<lambda>w. if Arch = UC_ARCH_X86 then
               and_then (hook_add S c UC_HOOK_INSN_IN Cb_CpuIoRead w) (hook_add S c UC_HOOK_INSN_OUT Cb_CpuIoWrite)
             else (EFI_SUCCESS, w)))"

definition map_memory ::
  "('u, 'c) uc_setup \<Rightarrow> cpu_id \<Rightarrow> ('u, 'c, 'z) init_world_scheme \<Rightarrow> efi_status \<times> ('u, 'c, 'z) init_world_scheme" where
  "map_memory S c w =
     and_then (uc_step c (uc_mmio_map S 0 EFI_PAGE_SIZE) w)
       (\<lambda>w. let w = w\<lparr>uc_maps := (uc_maps w)(c := uc_maps w c @ [(0, EFI_PAGE_SIZE)])\<rparr>
             in and_then (uc_step c (uc_mem_map_ptr S EFI_PAGE_SIZE (2 ^ 48 - EFI_PAGE_SIZE) UC_PROT_READ_WRITE EFI_PAGE_SIZE) w)
       (\<lambda>w. (EFI_SUCCESS, w\<lparr>uc_maps := (uc_maps w)(c := uc_maps w c @ [(EFI_PAGE_SIZE, 2 ^ 48 - EFI_PAGE_SIZE)])\<rparr>)))"

text \<open>The initial registers, their copy, and the timeout counters.\<close>

definition initial_state ::
  "('u, 'c) uc_ops \<Rightarrow> ('u, 'c) uc_setup \<Rightarrow> boot_services \<Rightarrow> build \<Rightarrow> cpu_id \<Rightarrow> ('u, 'c, 'z) init_world_scheme \<Rightarrow>
   efi_status \<times> ('u, 'c, 'z) init_world_scheme" where
  "initial_state U S B opts c w =
     (let (UcErr, u) = uc_ctl_exits_enable S (UE w c);
          w = ASSERT_w (UcErr = UC_ERR_OK) (set_UE c u w);
          w = REG_WRITE U c (StackReg (cpus w c)) (EmuStackTop (cpus w c)) w;
          (UcErr, buf, sz) = uc_get_code_gen_buf S (UE w c);
          w = cpu_update c (\<lambda>x. x\<lparr>UnicornCodeGenBuf := buf\<rparr>) w
      in if UcErr \<noteq> UC_ERR_OK then (EFI_UNSUPPORTED, w)
         else
           let w = cpu_update c (\<lambda>x. x\<lparr>UnicornCodeGenBufEnd := buf + sz\<rparr>) w;
               (UcErr, state) = uc_context_alloc S (UE w c) 0
           in if UcErr \<noteq> UC_ERR_OK then (EFI_UNSUPPORTED, w)
              else
                let (UcErr, state) = uc_context_save U (UE w c);
                    w = ASSERT_w (UcErr = UC_ERR_OK) (cpu_update c (\<lambda>x. x\<lparr>InitialState := state\<rparr>) w);
                    w = w\<lparr>mTopContext := None\<rparr>
                in (EFI_SUCCESS,
                    if MAU_EMU_TIMEOUT_NONE opts then w
                    else cpu_update c (\<lambda>x. x\<lparr>TbCount := 0, ExitPeriodTbs := UC_EMU_EXIT_PERIOD_TB_INITIAL,
                           ExitPeriodTicks := UC_EMU_EXIT_PERIOD_MS * GetPerformanceCounterProperties B div 1000\<rparr>) w))"

definition CpuInitEx ::
  "('u, 'c) uc_ops \<Rightarrow> ('u, 'c) uc_setup \<Rightarrow> boot_services \<Rightarrow> build \<Rightarrow> uc_arch \<Rightarrow> cpu_id \<Rightarrow>
   ('u, 'c, 'z) init_world_scheme \<Rightarrow> efi_status \<times> ('u, 'c, 'z) init_world_scheme" where
  "CpuInitEx U S B opts Arch c w =
     (let (Status, UcMode, x) = select_isa opts Arch (cpus w c);
          w = cpu_update c (\<lambda>_. x) w
      in if EFI_ERROR Status then (Status, w)
         else
           and_then (emu_stack_alloc B c w)
             (\<lambda>w. let (UcErr, u) = uc_open S Arch UcMode
                   in if UcErr \<noteq> UC_ERR_OK then (EFI_UNSUPPORTED, w)
                      else and_then (context_pool_create S B opts c ((set_UE c u w)\<lparr>UE_set := (UE_set w)(c := True),
                             engine_open := (engine_open w)(c := True)\<rparr>))
             (\<lambda>w. and_then (install_hooks S opts Arch c w)
             (\<lambda>w. and_then (map_memory S c w) (initial_state U S B opts c)))))"

section \<open>CpuInit and CpuCleanup\<close>

definition EFI_MEMORY_RO :: u64 where "EFI_MEMORY_RO = 0x20000"

definition CpuPrivateStackInit ::
  "boot_services \<Rightarrow> build \<Rightarrow> ('u, 'c, 'z) init_world_scheme \<Rightarrow> efi_status \<times> ('u, 'c, 'z) init_world_scheme" where
  "CpuPrivateStackInit B opts w =
     (if \<not> MAU_ON_PRIVATE_STACK opts then (EFI_SUCCESS, w)
      else
        let Pages = EFI_SIZE_TO_PAGES NATIVE_STACK_SIZE;
            (Status, start) = AllocatePages B AllocateAnyPages Pages 0
        in if EFI_ERROR Status then (Status, w)
           else
             let top = start + NATIVE_STACK_SIZE - EFI_PAGE_SIZE;
                 w = w\<lparr>ledger := (ledger w)\<lparr>page_runs := (start, Pages) # page_runs (ledger w)\<rparr>,
                       private_stack := Some (start, top)\<rparr>;
                 protect = (\<lambda>a n attr w. (cpu_SetMemoryAttributes B a n attr, w\<lparr>attr_calls := (a, n, attr) # attr_calls w\<rparr>))
             in and_then (protect start NATIVE_STACK_SIZE EFI_MEMORY_XP w)
                  (\<lambda>w. and_then (protect top EFI_PAGE_SIZE (EFI_MEMORY_RO OR EFI_MEMORY_XP) w)
                  (\<lambda>w. and_then (protect start EFI_PAGE_SIZE (EFI_MEMORY_RO OR EFI_MEMORY_XP) w)
                  (\<lambda>w. (EFI_SUCCESS, w)))))"

definition CpuInit ::
  "('u, 'c) uc_ops \<Rightarrow> ('u, 'c) uc_setup \<Rightarrow> (cpu_id \<Rightarrow> boot_services) \<Rightarrow> boot_services \<Rightarrow> build \<Rightarrow>
   ('u, 'c, 'z) init_world_scheme \<Rightarrow> efi_status \<times> ('u, 'c, 'z) init_world_scheme" where
  "CpuInit U S B Bp opts w =
     and_then (CpuPrivateStackInit Bp opts w)
       (\<lambda>w. and_then (if MAU_SUPPORTS_X64_BINS opts then CpuInitEx U S (B CpuX64) opts UC_ARCH_X86 CpuX64 w else (EFI_SUCCESS, w))
       (\<lambda>w. and_then (if MAU_SUPPORTS_AARCH64_BINS opts then CpuInitEx U S (B CpuAArch64) opts UC_ARCH_ARM64 CpuAArch64 w
                       else (EFI_SUCCESS, w))
       (\<lambda>w. (EFI_SUCCESS, w))))"

definition CpuCleanupEx ::
  "('u, 'c) uc_setup \<Rightarrow> cpu_id \<Rightarrow> ('u, 'c, 'z) init_world_scheme \<Rightarrow> ('j, ('u, 'c, 'z) init_world_scheme) outcome" where
  "CpuCleanupEx S c w =
     (let w = ASSERT_w (UE_set w c) w;
          close = (\<lambda>w. ASSERT_w (uc_close S = UC_ERR_OK) (w\<lparr>engine_open := (engine_open w)(c := False)\<rparr>))
      in if has_pool w c then
           (case ObjectAllocDestroy (RunContextAlloc w c) (ledger w) (contexts w, False) of
              Done (l, (h, failed)) \<Rightarrow> Done (close (ASSERT_w (\<not> failed) (w\<lparr>ledger := l, contexts := h\<rparr>)))
            | Jumped j \<Rightarrow> Jumped j
            | Crashed x \<Rightarrow> Crashed x)
         else Done (close w))"

definition CpuCleanup ::
  "('u, 'c) uc_setup \<Rightarrow> build \<Rightarrow> ('u, 'c, 'z) init_world_scheme \<Rightarrow> ('j, ('u, 'c, 'z) init_world_scheme) outcome option" where
  "CpuCleanup S opts w =
     obind (Some (if MAU_SUPPORTS_X64_BINS opts then CpuCleanupEx S CpuX64 w else Done w))
       (\<lambda>w. Some (if MAU_SUPPORTS_AARCH64_BINS opts then CpuCleanupEx S CpuAArch64 w else Done w))"

section \<open>Port and NULL accesses\<close>

text \<open>
  gCpuIo2, when the platform has it: a transfer of the given width at a port,
  which for a read fills the low bytes of the result.
\<close>

datatype io_width = EfiCpuIoWidthUint8 | EfiCpuIoWidthUint16 | EfiCpuIoWidthUint32

definition io_width_of :: "u32 \<Rightarrow> io_width" where
  "io_width_of Size = (if Size = 1 then EfiCpuIoWidthUint8 else if Size = 2 then EfiCpuIoWidthUint16 else EfiCpuIoWidthUint32)"

definition CpuIoReadCb :: "(io_width \<Rightarrow> u32 \<Rightarrow> u32 \<Rightarrow> u32) option \<Rightarrow> u32 \<Rightarrow> u32 \<Rightarrow> hook_state \<Rightarrow> u32 \<times> hook_state" where
  "CpuIoReadCb gCpuIo2 Port Size s =
     (case gCpuIo2 of
        None \<Rightarrow> (0, s)
      | Some Io_Read \<Rightarrow> (Io_Read (io_width_of Size) Port 0, ASSERT (Size = 1 \<or> Size = 2 \<or> Size = 4) s))"

text \<open>The transfers a write makes.\<close>

definition CpuIoWriteCb :: "bool \<Rightarrow> u32 \<Rightarrow> u32 \<Rightarrow> u32 \<Rightarrow> hook_state \<Rightarrow> (io_width \<times> u32 \<times> u32) list \<times> hook_state" where
  "CpuIoWriteCb have_CpuIo2 Port Size Value s =
     (if \<not> have_CpuIo2 then ([], s)
      else ([(io_width_of Size, Port, Value)], ASSERT (Size = 1 \<or> Size = 2 \<or> Size = 4) s))"

definition CpuNullReadCb :: "u64 \<Rightarrow> u32 \<Rightarrow> u64" where
  "CpuNullReadCb Offset Size = 0xAFAFAFAFAFAFAFAF"

definition CpuNullWriteCb :: "u64 \<Rightarrow> u32 \<Rightarrow> u64 \<Rightarrow> 'w \<Rightarrow> 'w" where
  "CpuNullWriteCb Offset Size Value w = w"

section \<open>A pool of contexts\<close>

text \<open>What OnCreate does to the heap, for the objects of the arena.\<close>

lemma create_loop_contexts:
  assumes "OnCreate cfg = Some (CpuRunContextOnCreate f c)"
    and "create_loop cfg z n a i st h l (k, b) = (st', i', a', h', l', (k', b'))" "0 < n \<Longrightarrow> \<not> EFI_ERROR st'"
    and "distinct (addrs a z n)"
  shows "l' = l @ addrs a z n \<and> b' = b \<and>
    (\<forall>x. x \<in> set (addrs a z n) \<longrightarrow> ctx_Cpu (k' x) = c \<and> PrevUcContext (k' x) \<noteq> None \<and>
       h' x = \<lparr>Signature = cfg_Signature cfg, Link = OnList\<rparr>) \<and>
    (\<forall>x. x \<notin> set (addrs a z n) \<longrightarrow> k' x = k x \<and> h' x = h x)"
  using assms(2-4)
proof (induction n arbitrary: a i st h l k)
  case (Suc n)
  obtain e u where f: "f a = (e, u)" by (cases "f a")
  let ?k = "k(a := (k a)\<lparr>ctx_Cpu := c, PrevUcContext := Some u\<rparr>)"
  let ?h = "h(a := (h a)\<lparr>Signature := cfg_Signature cfg, Link := OnList\<rparr>)"
  have e: "e = UC_ERR_OK"
    using Suc.prems(1,2) by (auto simp: assms(1) CpuRunContextOnCreate_def f Let_def split: if_splits)
  with Suc.prems(1) have l: "create_loop cfg z n (a + z) (Suc i) EFI_SUCCESS ?h (l @ [a]) (?k, b) = (st', i', a', h', l', (k', b'))"
    by (simp add: assms(1) CpuRunContextOnCreate_def f Let_def)
  from Suc.prems(3) have d: "distinct (addrs (a + z) z n)" "a \<notin> set (addrs (a + z) z n)" by auto
  from Suc.IH [OF l _ d(1)] Suc.prems(2) have
    ih: "l' = (l @ [a]) @ addrs (a + z) z n \<and> b' = b \<and>
      (\<forall>x. x \<in> set (addrs (a + z) z n) \<longrightarrow> ctx_Cpu (k' x) = c \<and> PrevUcContext (k' x) \<noteq> None \<and>
         h' x = \<lparr>Signature = cfg_Signature cfg, Link = OnList\<rparr>) \<and>
      (\<forall>x. x \<notin> set (addrs (a + z) z n) \<longrightarrow> k' x = ?k x \<and> h' x = ?h x)" by blast
  show ?case
  proof (intro conjI allI impI)
    show "l' = l @ addrs a z (Suc n)" "b' = b" using ih by simp_all
    fix x
    show "ctx_Cpu (k' x) = c" "PrevUcContext (k' x) \<noteq> None" "h' x = \<lparr>Signature = cfg_Signature cfg, Link = OnList\<rparr>"
      if "x \<in> set (addrs a z (Suc n))"
      using that ih d(2) by (cases "x = a"; simp)+
    show "k' x = k x" "h' x = h x" if "x \<notin> set (addrs a z (Suc n))"
      using that ih by auto
  qed
qed simp

lemma sizeof_cases: "sizeof_CpuRunContext opts = 88 \<or> sizeof_CpuRunContext opts = 96"
  by (simp add: sizeof_CpuRunContext_def)

text \<open>Either size gives one page.\<close>

lemma pool_size:
  "ROUND_UP (sizeof_CpuRunContext opts) 8 = sizeof_CpuRunContext opts"
  "EFI_SIZE_TO_PAGES (sizeof_CpuRunContext opts * MAX_CPU_RUN_CONTEXTS) = 1"
  "EFI_PAGES_TO_SIZE 1 = 4096"
  by (simp_all add: sizeof_CpuRunContext_def ROUND_UP_def EFI_SIZE_TO_PAGES_def EFI_PAGES_TO_SIZE_def
      push_bit_eq_mult drop_bit_eq_div)

definition pool_count :: "build \<Rightarrow> u64" where
  "pool_count opts = 4096 div sizeof_CpuRunContext opts"

lemma pool_count: "unat (pool_count opts) * unat (sizeof_CpuRunContext opts) \<le> 4096"
    "MAX_CPU_RUN_CONTEXTS \<le> pool_count opts"
  using sizeof_cases [of opts] by (auto simp: pool_count_def)

text \<open>A creation that reports success went through its loop.\<close>

lemma ObjectAllocCreate_success:
  assumes "ObjectAllocCreate ms u cfg l s = (st, pool, l', s')" "\<not> EFI_ERROR st"
    and z: "ROUND_UP (ObjectSize cfg) (ObjectAlignment cfg) = z"
  shows "\<exists>a st' i a' h fl. pages_at ms (EFI_SIZE_TO_PAGES (z * ObjectCount cfg)) = Some a \<and>
    (let size = EFI_PAGES_TO_SIZE (EFI_SIZE_TO_PAGES (z * ObjectCount cfg)); n = size div z in
      create_loop (cfg\<lparr>ObjectCount := n\<rparr>) z (unat n) a 0 u (\<lambda>_. \<lparr>Signature = 0, Link = Zeroed\<rparr>) [] s = (st', i, a', h, fl, s') \<and>
      \<not> EFI_ERROR st' \<and>
      pool = Some \<lparr>Arena = a, ArenaSize = size, FreeList = fl, Config = cfg\<lparr>ObjectCount := n\<rparr>, headers = h\<rparr>)"
proof -
  let ?size = "EFI_PAGES_TO_SIZE (EFI_SIZE_TO_PAGES (z * ObjectCount cfg))"
  have av: "pool_available ms" "\<not> z < sizeof_ObjectHeader"
    using assms by (auto simp: ObjectAllocCreate_def Let_def split: if_splits)
  moreover obtain a where a: "pages_at ms (EFI_SIZE_TO_PAGES (z * ObjectCount cfg)) = Some a"
    using assms av by (cases "pages_at ms (EFI_SIZE_TO_PAGES (z * ObjectCount cfg))") (auto simp: ObjectAllocCreate_def Let_def)
  moreover obtain st' i a' h fl s1 where
    "create_loop (cfg\<lparr>ObjectCount := ?size div z\<rparr>) z (unat (?size div z)) a 0 u (\<lambda>_. \<lparr>Signature = 0, Link = Zeroed\<rparr>) [] s =
      (st', i, a', h, fl, s1)"
    by (metis prod_cases3)
  ultimately show ?thesis
    using assms by (auto simp: ObjectAllocCreate_def Let_def split: if_splits)
qed

lemma context_pool_create_ok:
  fixes w :: "('u, 'c, 'z) init_world_scheme"
  assumes "context_pool_create S B opts c w = (st, w')" "\<not> EFI_ERROR st"
  shows "\<exists>a P k l. pages_at (pool_memory B) 1 = Some a \<and>
    w' = w\<lparr>ledger := l, contexts := k, RunContextAlloc := (RunContextAlloc w)(c := P), has_pool := (has_pool w)(c := True)\<rparr> \<and>
    pool_inv P \<and> FreeList P = objs P \<and> objs P = addrs a (sizeof_CpuRunContext opts) (unat (pool_count opts)) \<and>
    OnAlloc (Config P) = Some CpuRunContextOnAlloc \<and> OnFree (Config P) = None \<and>
    (\<forall>x \<in> set (objs P). ctx_Cpu (k x) = c \<and> PrevUcContext (k x) \<noteq> None) \<and>
    (\<forall>x. x \<notin> set (objs P) \<longrightarrow> k x = contexts w x)"
proof -
  define cfg where "cfg = context_pool_config S opts (UE w c) (EmuMachineType (cpus w c)) c"
  let ?z = "sizeof_CpuRunContext opts" and ?n = "pool_count opts"
  obtain st1 pool l k b where o: "ObjectAllocCreate (pool_memory B) (uninit B) cfg (ledger w) (contexts w, False) = (st1, pool, l, (k, b))"
    by (metis prod_cases3)
  have c: "ObjectSize cfg = ?z" "ObjectAlignment cfg = 8" "ObjectCount cfg = 32"
    "OnCreate cfg = Some (CpuRunContextOnCreate (uc_context_alloc S (UE w c)) c)"
    "OnAlloc cfg = Some CpuRunContextOnAlloc" "OnFree cfg = None"
    by (simp_all add: cfg_def context_pool_config_def)
  have st: "st1 = st" and w1: "w' = (let w = ASSERT_w (\<not> b) (w\<lparr>ledger := l, contexts := k\<rparr>) in
      case pool of None \<Rightarrow> w | Some P \<Rightarrow> w\<lparr>RunContextAlloc := (RunContextAlloc w)(c := P), has_pool := (has_pool w)(c := True)\<rparr>)"
    using assms(1) o by (auto simp: context_pool_create_def cfg_def [symmetric] Let_def split: option.splits)
  from ObjectAllocCreate_success [OF o _ pool_size(1) [of opts, folded c(1,2)]] assms(2) st obtain a st' i a' h fl where
    a: "pages_at (pool_memory B) 1 = Some a"
    and L: "create_loop (cfg\<lparr>ObjectCount := ?n\<rparr>) ?z (unat ?n) a 0 (uninit B) (\<lambda>_. \<lparr>Signature = 0, Link = Zeroed\<rparr>) [] (contexts w, False) =
      (st', i, a', h, fl, (k, b))" "\<not> EFI_ERROR st'"
    and pool: "pool = Some \<lparr>Arena = a, ArenaSize = 4096, FreeList = fl, Config = cfg\<lparr>ObjectCount := ?n\<rparr>, headers = h\<rparr>"
    by (auto simp: c Let_def pool_size pool_count_def [symmetric])
  let ?P = "\<lparr>Arena = a, ArenaSize = 4096, FreeList = fl, Config = cfg\<lparr>ObjectCount := ?n\<rparr>, headers = h\<rparr>"
  have d: "distinct (addrs a ?z (unat ?n))"
    by (rule distinct_addrs) (use pool_count(1) [of opts] sizeof_cases [of opts] in \<open>auto simp: mult.commute\<close>)
  have "OnCreate (cfg\<lparr>ObjectCount := ?n\<rparr>) = Some (CpuRunContextOnCreate (uc_context_alloc S (UE w c)) c)"
    by (simp add: c)
  note loop = create_loop_contexts [OF this L(1) _ d, OF L(2)]
  have ob: "objs ?P = addrs a ?z (unat ?n)"
    by (simp add: objs_def osize_def c pool_size)
  have w': "w' = w\<lparr>ledger := l, contexts := k, RunContextAlloc := (RunContextAlloc w)(c := ?P), has_pool := (has_pool w)(c := True)\<rparr>"
    unfolding w1 pool using loop by simp
  have "pool_inv ?P"
    unfolding pool_inv_def ob using d loop by auto
  moreover have "OnAlloc (Config ?P) = Some CpuRunContextOnAlloc" "OnFree (Config ?P) = None" "FreeList ?P = objs ?P"
    using loop ob by (simp_all add: c)
  ultimately show ?thesis
    using a w' ob loop by (intro exI [of _ a] exI [of _ ?P] exI [of _ k] exI [of _ l]) auto
qed

section \<open>What the steps leave unchanged\<close>

definition init_same :: "cpu_id \<Rightarrow> ('u, 'c, 'z) init_world_scheme \<Rightarrow> ('u, 'c, 'z) init_world_scheme \<Rightarrow> bool" where
  "init_same c w w' \<longleftrightarrow>
     contexts w' = contexts w \<and> RunContextAlloc w' = RunContextAlloc w \<and> pending w' = pending w \<and>
     (\<forall>d. Contexts (cpus w' d) = Contexts (cpus w d)) \<and> (\<forall>d. d \<noteq> c \<longrightarrow> cpus w' d = cpus w d \<and> UE w' d = UE w d) \<and>
     (quiet (hooks w) \<longrightarrow> quiet (hooks w')) \<and> (hooked (hooks w) \<longrightarrow> hooked (hooks w')) \<and>
     (mTopContext w = None \<longrightarrow> mTopContext w' = None)"

lemma init_same_refl [simp]: "init_same c w w"
  by (simp add: init_same_def)

lemma init_same_trans: "init_same c w w' \<Longrightarrow> init_same c w' w'' \<Longrightarrow> init_same c w w''"
  by (simp add: init_same_def)

lemma init_same_steps [simp]:
  "init_same c w (set_UE c u w)" "init_same c w (ASSERT_w b w)" "init_same c w (w\<lparr>uc_hooks := h\<rparr>)" "init_same c w (w\<lparr>uc_maps := m\<rparr>)"
  "init_same c w (w\<lparr>ledger := l\<rparr>)" "init_same c w (w\<lparr>UE_set := b1, engine_open := b2\<rparr>)" "init_same c w (w\<lparr>mTopContext := None\<rparr>)"
  by (auto simp: init_same_def ASSERT_w_def ASSERT_def quiet_def hooked_def set_UE_def)

lemma init_same_cpu_update: "(\<And>x. Contexts (f x) = Contexts x) \<Longrightarrow> init_same c w (cpu_update c f w)"
  by (simp add: init_same_def cpu_update_def)

lemma init_same_ctxs_ok: "init_same c w w' \<Longrightarrow> ctxs_ok [] [] w \<Longrightarrow> ctxs_ok [] [] w'"
  by (simp add: init_same_def ctxs_ok_def)

text \<open>A step that also leaves the CpuContext.\<close>

definition same :: "cpu_id \<Rightarrow> ('u, 'c, 'z) init_world_scheme \<Rightarrow> ('u, 'c, 'z) init_world_scheme \<Rightarrow> bool" where
  "same c w w' \<longleftrightarrow> init_same c w w' \<and> cpus w' = cpus w"

lemma same_refl [simp]: "same c w w"
  by (simp add: same_def)

lemma same_trans: "same c w w' \<Longrightarrow> same c w' w'' \<Longrightarrow> same c w w''"
  by (auto simp: same_def intro: init_same_trans)

lemma same_steps [intro]:
  "same c w w1 \<Longrightarrow> same c w (set_UE c u w1)" "same c w w1 \<Longrightarrow> same c w (w1\<lparr>uc_hooks := h\<rparr>)"
  "same c w w1 \<Longrightarrow> same c w (w1\<lparr>uc_maps := m\<rparr>)"
  by (erule same_trans; simp add: same_def)+

definition keeps :: "cpu_id \<Rightarrow> ('u, 'c, 'z) init_world_scheme \<Rightarrow> efi_status \<times> ('u, 'c, 'z) init_world_scheme \<Rightarrow> bool" where
  "keeps c w r \<longleftrightarrow> same c w (snd r)"

lemma keeps_and_then: "keeps c w r \<Longrightarrow> (\<And>w1. same c w w1 \<Longrightarrow> keeps c w (f w1)) \<Longrightarrow> keeps c w (and_then r f)"
  by (cases r) (simp add: keeps_def and_then_def)

lemma keeps_uc_step: "same c w w1 \<Longrightarrow> keeps c w (uc_step c f w1)"
  by (auto simp: keeps_def uc_step_def split: prod.split)

lemma keeps_hook_add: "same c w w1 \<Longrightarrow> keeps c w (hook_add S c t cb w1)"
  unfolding hook_add_def by (rule keeps_and_then [OF keeps_uc_step]) (auto simp: keeps_def)

lemma keeps_install_hooks: "keeps c w (install_hooks S opts A c w)"
  unfolding install_hooks_def
  by (auto intro!: keeps_and_then keeps_hook_add simp: keeps_def [of _ _ "(_, _)"])

lemma keeps_map_memory: "same c w w1 \<Longrightarrow> keeps c w (map_memory S c w1)"
  unfolding map_memory_def Let_def
  by (intro keeps_and_then keeps_uc_step) (auto simp: keeps_def [of _ _ "(_, _)"])

lemma cpus_set [simp]: "cpus (ASSERT_w b w) = cpus w" "cpus (cpu_update c f w) = (cpus w)(c := f (cpus w c))"
  by (simp_all add: ASSERT_w_def cpu_update_def)

section \<open>A processor that was initialised\<close>

definition isa_cpu :: "cpu_id \<Rightarrow> 'c CpuContext \<Rightarrow> bool" where
  "isa_cpu c x \<longleftrightarrow>
     (case c of
        CpuX64 \<Rightarrow> EmuMachineType x = EFI_IMAGE_MACHINE_X64 \<and> X64_cpu x \<and> NativeThunk x = Some X64Functions
      | CpuAArch64 \<Rightarrow> EmuMachineType x = EFI_IMAGE_MACHINE_AARCH64 \<and> StackReg x = UC_ARM64_REG_SP \<and>
          ProgramCounterReg x = UC_ARM64_REG_PC \<and> ReturnValueReg x = UC_ARM64_REG_X0 \<and>
          EmuThunkPre x = Some AArch64Functions \<and> EmuThunkPost x = Some AArch64Functions \<and> NativeThunk x = Some AArch64Functions)"

text \<open>Its functions, its stack, the registers every outermost call starts from, and its timeout counters.\<close>

definition initialised :: "('u, 'c) uc_ops \<Rightarrow> build \<Rightarrow> cpu_id \<Rightarrow> 'c CpuContext \<Rightarrow> bool" where
  "initialised U opts c x \<longleftrightarrow>
     isa_cpu c x \<and> EmuStackTop x = EmuStackStart x + EMU_STACK_SIZE \<and>
     (\<forall>u. rd U (snd (uc_context_restore U u (InitialState x))) (StackReg x) = EmuStackTop x) \<and>
     (MAU_EMU_TIMEOUT_NONE opts \<or> (TbCount x = 0 \<and> power_of_two_period (ExitPeriodTbs x)))"

definition arch_of :: "cpu_id \<Rightarrow> uc_arch" where
  "arch_of c = (case c of CpuX64 \<Rightarrow> UC_ARCH_X86 | CpuAArch64 \<Rightarrow> UC_ARCH_ARM64)"

lemma initial_state_ok:
  fixes w :: "('u, 'c, 'z) init_world_scheme"
  assumes "initial_state U S B opts c w = (st, w')" "\<not> EFI_ERROR st" "uc_ok U"
    and "isa_cpu c (cpus w c)" "EmuStackTop (cpus w c) = EmuStackStart (cpus w c) + EMU_STACK_SIZE"
  shows "init_same c w w' \<and> initialised U opts c (cpus w' c) \<and> mTopContext w' = None"
proof -
  have rg: "uc_regs_ok U" and cx: "uc_context_ok U" using assms(3) by (simp_all add: uc_ok_def)
  obtain e1 u1 where 1: "uc_ctl_exits_enable S (UE w c) = (e1, u1)" by (metis surj_pair)
  define u2 where "u2 = wr U (StackReg (cpus w c)) (EmuStackTop (cpus w c)) u1"
  obtain e2 buf sz where 2: "uc_get_code_gen_buf S u2 = (e2, buf, sz)" by (metis prod_cases3)
  obtain e3 st3 where 3: "uc_context_alloc S u2 0 = (e3, st3)" by (metis surj_pair)
  obtain e4 state where 4: "uc_context_save U u2 = (e4, state)" by (metis surj_pair)
  have "e4 = UC_ERR_OK" using cx 4 by (auto simp: uc_context_ok_def dest: spec [of _ u2])
  let ?x = "(cpus w c)\<lparr>UnicornCodeGenBuf := buf, UnicornCodeGenBufEnd := buf + sz, InitialState := state\<rparr>"
  let ?y = "if MAU_EMU_TIMEOUT_NONE opts then ?x else ?x\<lparr>TbCount := 0, ExitPeriodTbs := UC_EMU_EXIT_PERIOD_TB_INITIAL,
      ExitPeriodTicks := UC_EMU_EXIT_PERIOD_MS * GetPerformanceCounterProperties B div 1000\<rparr>"
  have u2: "rd U u2 (StackReg (cpus w c)) = EmuStackTop (cpus w c)" by (simp add: u2_def rd_wr [OF rg])
  have "w' = (cpu_update c (\<lambda>_. ?y) (set_UE c u2 (ASSERT_w (e1 = UC_ERR_OK) w)))\<lparr>mTopContext := None\<rparr>"
    using assms(1,2) \<open>e4 = UC_ERR_OK\<close>
    by (auto simp: initial_state_def Let_def 1 2 3 4 REG_WRITE_ok [OF rg] u2_def [symmetric] cpu_update_def set_UE_def ASSERT_w_def
        split: if_splits)
  moreover have "rd U (snd (uc_context_restore U u state)) (StackReg (cpus w c)) = EmuStackTop (cpus w c)" for u
    using cx 4 u2 unfolding uc_context_ok_def by (metis snd_conv)
  moreover have "power_of_two_period UC_EMU_EXIT_PERIOD_TB_INITIAL" by (simp add: power_of_two_period_iff)
  ultimately show ?thesis
    using assms(4,5)
    by (auto simp: init_same_def initialised_def isa_cpu_def X64_cpu_def ASSERT_def quiet_def hooked_def ASSERT_w_def
        set_UE_def cpu_update_def split: cpu_id.splits)
qed

lemma emu_stack_alloc_ok:
  fixes w :: "('u, 'c, 'z) init_world_scheme"
  assumes "emu_stack_alloc B c w = (st, w')" "\<not> EFI_ERROR st"
  shows "init_same c w w' \<and> (\<exists>a. cpus w' = (cpus w)(c := (cpus w c)\<lparr>EmuStackStart := a, EmuStackTop := a + EMU_STACK_SIZE\<rparr>))"
  using assms
  by (auto simp: emu_stack_alloc_def Let_def init_same_def cpu_update_def split: prod.splits if_splits)

lemma select_isa_ok:
  assumes "select_isa opts (arch_of c) x = (st, mode, y)" "\<not> EFI_ERROR st"
  shows "isa_cpu c y \<and> Contexts y = Contexts x"
  using assms by (cases c) (auto simp: select_isa_def arch_of_def isa_cpu_def X64_cpu_def split: if_splits)

lemma isa_cpu_stack [simp]:
  "isa_cpu c (x\<lparr>EmuStackStart := a, EmuStackTop := b\<rparr>) = isa_cpu c x"
  by (cases c) (simp_all add: isa_cpu_def X64_cpu_def)

section \<open>CpuInitEx\<close>

text \<open>The page the firmware gives for a pool holds no context of the other processors.\<close>

definition fresh_page :: "u64 \<Rightarrow> cpu_id \<Rightarrow> ('u, 'c, 'z) cpu_world_scheme \<Rightarrow> bool" where
  "fresh_page a c w \<longleftrightarrow> (\<forall>d x. d \<noteq> c \<longrightarrow> x \<in> set (objs (RunContextAlloc w d)) \<longrightarrow> 4096 \<le> x - a)"

lemma pool_in_page:
  assumes "x \<in> set (addrs a (sizeof_CpuRunContext opts) (unat (pool_count opts)))"
  shows "x - a < 4096"
proof -
  from assms obtain i where i: "i < unat (pool_count opts)" "x = a + of_nat i * sizeof_CpuRunContext opts"
    by (auto simp: in_set_conv_nth nth_addrs)
  have "i * unat (sizeof_CpuRunContext opts) < unat (pool_count opts) * unat (sizeof_CpuRunContext opts)"
    using i(1) sizeof_cases [of opts] by auto
  also have "\<dots> \<le> 4096" by (rule pool_count(1))
  finally have lt: "i * unat (sizeof_CpuRunContext opts) < 4096" .
  have "x - a = of_nat (i * unat (sizeof_CpuRunContext opts))" using i(2) by simp
  moreover have "i * unat (sizeof_CpuRunContext opts) < 2 ^ 64" using lt by simp
  ultimately have "unat (x - a) = i * unat (sizeof_CpuRunContext opts)" by (simp only: unat_of_nat64)
  with lt show ?thesis by (simp add: word_less_nat_alt)
qed

lemma pool_ctxs_ok:
  fixes w :: "('u, 'c, 'z) init_world_scheme"
  assumes C: "ctxs_ok [] [] w" and r: "context_pool_create S B opts c w = (st, w')" "\<not> EFI_ERROR st"
    and f: "\<And>a. pages_at (pool_memory B) 1 = Some a \<Longrightarrow> fresh_page a c w"
  shows "ctxs_ok [] [] w' \<and> cpus w' = cpus w \<and> UE w' = UE w \<and> pending w' = pending w \<and> hooks w' = hooks w \<and>
    (\<forall>d. d \<noteq> c \<longrightarrow> RunContextAlloc w' d = RunContextAlloc w d) \<and>
    (\<exists>a. pages_at (pool_memory B) 1 = Some a \<and>
      objs (RunContextAlloc w' c) = addrs a (sizeof_CpuRunContext opts) (unat (pool_count opts)))"
proof -
  from context_pool_create_ok [OF r] obtain a P k l where
    a: "pages_at (pool_memory B) 1 = Some a"
    and w': "w' = w\<lparr>ledger := l, contexts := k, RunContextAlloc := (RunContextAlloc w)(c := P), has_pool := (has_pool w)(c := True)\<rparr>"
    and P: "pool_inv P" "FreeList P = objs P" "objs P = addrs a (sizeof_CpuRunContext opts) (unat (pool_count opts))"
      "OnAlloc (Config P) = Some CpuRunContextOnAlloc" "OnFree (Config P) = None"
    and k: "\<And>x. x \<in> set (objs P) \<Longrightarrow> ctx_Cpu (k x) = c \<and> PrevUcContext (k x) \<noteq> None"
      "\<And>x. x \<notin> set (objs P) \<Longrightarrow> k x = contexts w x"
    by blast
  have apart: "x \<notin> set (objs P)" if "x \<in> set (objs (RunContextAlloc w d))" "d \<noteq> c" for x d
  proof
    assume "x \<in> set (objs P)"
    then have "x - a < 4096" using pool_in_page P(3) by simp
    moreover have "4096 \<le> x - a" using f [OF a] that by (simp add: fresh_page_def)
    ultimately show False by simp
  qed
  have old: "pools_ok (RunContextAlloc w) (contexts w)" "allocated (RunContextAlloc w) = {}"
    using C by (simp_all add: ctxs_ok_def)
  have "pools_ok (RunContextAlloc w') (contexts w')"
    unfolding pools_ok_def
  proof (intro allI conjI ballI)
    fix d
    show "pool_inv (RunContextAlloc w' d)" "OnAlloc (Config (RunContextAlloc w' d)) = Some CpuRunContextOnAlloc"
      "OnFree (Config (RunContextAlloc w' d)) = None"
      using old(1) P w' by (simp_all add: pools_ok_def)
    fix x assume x: "x \<in> set (objs (RunContextAlloc w' d))"
    show "ctx_Cpu (contexts w' x) = d" "PrevUcContext (contexts w' x) \<noteq> None"
      using x old(1) k apart [of x d] by (cases "d = c"; auto simp: w' pools_ok_def)+
  qed
  moreover have "allocated (RunContextAlloc w') = {}"
    using old(2) P(2) by (auto simp: allocated_def w')
  ultimately have "ctxs_ok [] [] w'"
    using C by (simp add: ctxs_ok_def w')
  with a P(3) show ?thesis by (simp add: w')
qed

lemma CpuInitEx_ok:
  fixes w :: "('u, 'c, 'z) init_world_scheme"
  assumes r: "CpuInitEx U S B opts (arch_of c) c w = (st, w')" "\<not> EFI_ERROR st"
    and U: "uc_ok U" and C: "ctxs_ok [] [] w"
    and f: "\<And>a. pages_at (pool_memory B) 1 = Some a \<Longrightarrow> fresh_page a c w"
  shows "ctxs_ok [] [] w' \<and> initialised U opts c (cpus w' c) \<and> pending w' = pending w \<and>
    (\<forall>d. d \<noteq> c \<longrightarrow> cpus w' d = cpus w d \<and> RunContextAlloc w' d = RunContextAlloc w d) \<and>
    (quiet (hooks w) \<longrightarrow> quiet (hooks w')) \<and> (hooked (hooks w) \<longrightarrow> hooked (hooks w')) \<and>
    (\<exists>a. pages_at (pool_memory B) 1 = Some a \<and>
      objs (RunContextAlloc w' c) = addrs a (sizeof_CpuRunContext opts) (unat (pool_count opts)))"
proof -
  obtain st0 mode x where sel: "select_isa opts (arch_of c) (cpus w c) = (st0, mode, x)" by (metis prod_cases3)
  define w0 where "w0 = cpu_update c (\<lambda>_. x) w"
  have st0: "\<not> EFI_ERROR st0" using r sel by (auto simp: CpuInitEx_def Let_def split: if_splits)
  from select_isa_ok [OF sel this] have isa: "isa_cpu c x" "Contexts x = Contexts (cpus w c)" by simp_all
  have same0: "init_same c w w0" by (simp add: w0_def init_same_def cpu_update_def isa(2))
  from r sel st0 obtain st1 w1 where
    s1: "emu_stack_alloc B c w0 = (st1, w1)" "\<not> EFI_ERROR st1" and r1:
    "(let (UcErr, u) = uc_open S (arch_of c) mode
      in if UcErr \<noteq> UC_ERR_OK then (EFI_UNSUPPORTED, w1)
         else and_then (context_pool_create S B opts c ((set_UE c u w1)\<lparr>UE_set := (UE_set w1)(c := True),
                engine_open := (engine_open w1)(c := True)\<rparr>))
           (\<lambda>w. and_then (install_hooks S opts (arch_of c) c w)
           (\<lambda>w. and_then (map_memory S c w) (initial_state U S B opts c)))) = (st, w')"
    by (auto simp: CpuInitEx_def Let_def w0_def dest!: and_then_ok)
  obtain e u where o: "uc_open S (arch_of c) mode = (e, u)" by (metis surj_pair)
  have e: "e = UC_ERR_OK" using r1 r(2) by (auto simp: o split: if_splits)
  define w2 where "w2 = (set_UE c u w1)\<lparr>UE_set := (UE_set w1)(c := True), engine_open := (engine_open w1)(c := True)\<rparr>"
  from r1 have r2: "and_then (context_pool_create S B opts c w2)
      (\<lambda>w. and_then (install_hooks S opts (arch_of c) c w) (\<lambda>w. and_then (map_memory S c w) (initial_state U S B opts c))) = (st, w')"
    by (simp add: o e w2_def)
  from emu_stack_alloc_ok [OF s1] obtain a1 where
    st1: "init_same c w0 w1" "cpus w1 = (cpus w0)(c := (cpus w0 c)\<lparr>EmuStackStart := a1, EmuStackTop := a1 + EMU_STACK_SIZE\<rparr>)" by blast
  have same2: "init_same c w w2"
    using init_same_trans [OF same0 st1(1)] init_same_trans [OF _ init_same_steps(1)] init_same_trans [OF _ init_same_steps(6)]
    unfolding w2_def by metis
  have cpu2: "isa_cpu c (cpus w2 c)" "EmuStackTop (cpus w2 c) = EmuStackStart (cpus w2 c) + EMU_STACK_SIZE"
    by (simp_all add: w2_def st1(2) w0_def isa(1))
  from and_then_ok [OF r2 r(2)] obtain st3 w3 where
    p: "context_pool_create S B opts c w2 = (st3, w3)" "\<not> EFI_ERROR st3"
    and r3: "and_then (install_hooks S opts (arch_of c) c w3) (\<lambda>w. and_then (map_memory S c w) (initial_state U S B opts c)) = (st, w')"
    by blast
  have "ctxs_ok [] [] w2" by (rule init_same_ctxs_ok [OF same2 C])
  moreover have "fresh_page a c w2" if "pages_at (pool_memory B) 1 = Some a" for a
    using f [OF that] same2 by (simp add: fresh_page_def init_same_def)
  ultimately have w3: "ctxs_ok [] [] w3" "cpus w3 = cpus w2" "UE w3 = UE w2" "pending w3 = pending w2" "hooks w3 = hooks w2"
    "\<forall>d. d \<noteq> c \<longrightarrow> RunContextAlloc w3 d = RunContextAlloc w2 d"
    "\<exists>a. pages_at (pool_memory B) 1 = Some a \<and> objs (RunContextAlloc w3 c) = addrs a (sizeof_CpuRunContext opts) (unat (pool_count opts))"
    using pool_ctxs_ok [OF _ p] by blast+
  from and_then_ok [OF r3 r(2)] obtain st4 w4 where
    h: "install_hooks S opts (arch_of c) c w3 = (st4, w4)" and r4: "and_then (map_memory S c w4) (initial_state U S B opts c) = (st, w')" by blast
  from and_then_ok [OF r4 r(2)] obtain st5 w5 where
    m: "map_memory S c w4 = (st5, w5)" and r5: "initial_state U S B opts c w5 = (st, w')" by blast
  have "same c w3 w4" using keeps_install_hooks [of c w3 S opts "arch_of c"] by (simp add: keeps_def h)
  then have "same c w3 w5" using keeps_map_memory [of c w3 w4 S] by (simp add: keeps_def m)
  then have w5: "init_same c w3 w5" "cpus w5 = cpus w2" by (simp_all add: same_def w3(2))
  from initial_state_ok [OF r5 r(2) U] cpu2 w5(2) have fin: "init_same c w5 w'" "initialised U opts c (cpus w' c)" by simp_all
  note rest = init_same_trans [OF w5(1) fin(1)]
  from init_same_ctxs_ok [OF rest w3(1)] fin(2) rest w3 same2 show ?thesis by (simp add: init_same_def)
qed

section \<open>CpuInit\<close>

text \<open>
  What the firmware promises: the pages it gives for the two pools are apart.
  Before the first start the driver has no pool, which is an empty one here.
\<close>

definition pages_apart :: "(cpu_id \<Rightarrow> boot_services) \<Rightarrow> bool" where
  "pages_apart B \<longleftrightarrow>
     (\<forall>a b. pages_at (pool_memory (B CpuX64)) 1 = Some a \<longrightarrow> pages_at (pool_memory (B CpuAArch64)) 1 = Some b \<longrightarrow>
        4096 \<le> a - b \<and> 4096 \<le> b - a)"

definition no_pools :: "('u, 'c, 'z) cpu_world_scheme \<Rightarrow> bool" where
  "no_pools w \<longleftrightarrow> ctxs_ok [] [] w \<and> (\<forall>c. objs (RunContextAlloc w c) = [])"

lemma apart_pages:
  assumes "4096 \<le> a - b" "4096 \<le> b - (a :: u64)" "x - a < 4096"
  shows "4096 \<le> x - b"
proof -
  have "unat (b - a) = 2 ^ 64 - unat (a - b)"
    using unat_uminus64 [of "a - b"] assms(1) by (cases "a - b = 0") auto
  moreover have "4096 \<le> unat (a - b)" "4096 \<le> unat (b - a)" "unat (x - a) < 4096"
    using assms by (simp_all add: word_le_nat_alt word_less_nat_alt)
  ultimately have "unat (x - a) + unat (a - b) < 2 ^ 64" by linarith
  then have "unat (x - a + (a - b)) = unat (x - a) + unat (a - b)" by (intro unat_add_lt) simp
  then have "unat (x - b) = unat (x - a) + unat (a - b)" by simp
  with \<open>4096 \<le> unat (a - b)\<close> show ?thesis by (simp add: word_le_nat_alt)
qed

lemma CpuInit_ok:
  fixes w :: "('u, 'c, 'z) init_world_scheme"
  assumes r: "CpuInit U S B Bp opts w = (st, w')" "\<not> EFI_ERROR st"
    and U: "uc_ok U" and n: "no_pools w" and m: "\<not> MAU_ON_PRIVATE_STACK opts" and ap: "pages_apart B"
  shows "ctxs_ok [] [] w' \<and> pending w' = pending w \<and>
    (quiet (hooks w) \<longrightarrow> quiet (hooks w')) \<and> (hooked (hooks w) \<longrightarrow> hooked (hooks w')) \<and>
    (MAU_SUPPORTS_X64_BINS opts \<longrightarrow> initialised U opts CpuX64 (cpus w' CpuX64)) \<and>
    (MAU_SUPPORTS_AARCH64_BINS opts \<longrightarrow> initialised U opts CpuAArch64 (cpus w' CpuAArch64))"
proof -
  let ?X = "if MAU_SUPPORTS_X64_BINS opts then CpuInitEx U S (B CpuX64) opts UC_ARCH_X86 CpuX64 w else (EFI_SUCCESS, w)"
  have C: "ctxs_ok [] [] w" and empty: "\<And>c. objs (RunContextAlloc w c) = []" using n by (simp_all add: no_pools_def)
  from r m obtain s1 w1 s2 where x: "?X = (s1, w1)" "\<not> EFI_ERROR s1"
    and a: "(if MAU_SUPPORTS_AARCH64_BINS opts then CpuInitEx U S (B CpuAArch64) opts UC_ARCH_ARM64 CpuAArch64 w1
      else (EFI_SUCCESS, w1)) = (s2, w')" "\<not> EFI_ERROR s2"
    by (auto simp: CpuInit_def CpuPrivateStackInit_def and_then_split split: if_splits)
  have arch: "arch_of CpuX64 = UC_ARCH_X86" "arch_of CpuAArch64 = UC_ARCH_ARM64" by (simp_all add: arch_of_def)
  have f1: "fresh_page a CpuX64 w" for a by (simp add: fresh_page_def empty)
  have w1: "ctxs_ok [] [] w1" "pending w1 = pending w" "quiet (hooks w) \<longrightarrow> quiet (hooks w1)"
    "hooked (hooks w) \<longrightarrow> hooked (hooks w1)" "objs (RunContextAlloc w1 CpuAArch64) = []"
    "MAU_SUPPORTS_X64_BINS opts \<longrightarrow> initialised U opts CpuX64 (cpus w1 CpuX64)"
    "objs (RunContextAlloc w1 CpuX64) = [] \<or> (\<exists>a. pages_at (pool_memory (B CpuX64)) 1 = Some a \<and>
      objs (RunContextAlloc w1 CpuX64) = addrs a (sizeof_CpuRunContext opts) (unat (pool_count opts)))"
    using x CpuInitEx_ok [where c = CpuX64 and w = w and w' = w1 and B = "B CpuX64" and S = S and st = s1 and opts = opts, unfolded arch, OF _ _ U C f1] C empty
    by (auto split: if_splits)
  show ?thesis
  proof (cases "MAU_SUPPORTS_AARCH64_BINS opts")
    case False
    with a w1 show ?thesis by simp
  next
    case True
    have f2: "fresh_page b CpuAArch64 w1" if b: "pages_at (pool_memory (B CpuAArch64)) 1 = Some b" for b
      unfolding fresh_page_def
    proof (intro allI impI)
      fix d x assume "d \<noteq> CpuAArch64" and x: "x \<in> set (objs (RunContextAlloc w1 d))"
      then have "d = CpuX64" by (cases d) auto
      with x w1(7) obtain a where "pages_at (pool_memory (B CpuX64)) 1 = Some a" "x - a < 4096"
        using pool_in_page by force
      with ap b show "4096 \<le> x - b" by (auto simp: pages_apart_def intro: apart_pages)
    qed
    from a True have "CpuInitEx U S (B CpuAArch64) opts (arch_of CpuAArch64) CpuAArch64 w1 = (s2, w')" by (simp add: arch)
    from CpuInitEx_ok [OF this a(2) U w1(1) f2] w1 show ?thesis by auto
  qed
qed

end
