(* ===== verification/Driver_Start.thy ===== *)
theory Driver_Start
  imports Cpu_Init Arch_Ports
begin

text \<open>
  Starting the driver: EmulatorStart and EmulatorStop of Emulator.c, the driver
  binding of DriverBinding.c and the entry point of Entry.c.  A successful start
  establishes the invariant of the running emulator; a start that fails after
  CpuInit takes back what it did, one that fails in CpuInit does not.
\<close>

section \<open>State and environment\<close>

text \<open>The protocol instances the driver installs, and how the firmware sees its binding.\<close>

datatype emu_protocol = mEmulatorProtocolX64 | mEmulatorProtocolAArch64 | mEmuTestProtocol

record ('u, 'c) start_world = "('u, 'c) init_world" +
  handlers :: handlers
  installed :: "emu_protocol list"
  opened_by_driver :: bool

record ('u, 'c) start_env =
  run_env_of :: "('u, 'c) run_env"
  uc_setup_of :: "('u, 'c) uc_setup"
  memory_for :: "cpu_id \<Rightarrow> boot_services"
  memory_for_stack :: boot_services
  fw_RegisterInterruptHandler :: "exception_type \<Rightarrow> bool \<Rightarrow> efi_status"
  fw_InstallProtocolInterface :: "emu_protocol \<Rightarrow> efi_status"
  fw_OpenProtocol :: efi_status
  uninit_Status :: efi_status

abbreviation build_of :: "('u, 'c) start_env \<Rightarrow> build" where "build_of E \<equiv> options (Env (run_env_of E))"

definition EFI_ALREADY_STARTED :: efi_status where "EFI_ALREADY_STARTED = 0x8000000000000014"

section \<open>EmulatorStart\<close>

definition InstallProtocolInterface ::
  "('u, 'c) start_env \<Rightarrow> emu_protocol \<Rightarrow> ('u, 'c, 'z) start_world_scheme \<Rightarrow> efi_status \<times> ('u, 'c, 'z) start_world_scheme" where
  "InstallProtocolInterface E P w =
     (let Status = fw_InstallProtocolInterface E P
      in (Status, if EFI_ERROR Status then w else w\<lparr>installed := P # installed w\<rparr>))"

definition UninstallProtocolInterface :: "emu_protocol \<Rightarrow> ('u, 'c, 'z) start_world_scheme \<Rightarrow> ('u, 'c, 'z) start_world_scheme" where
  "UninstallProtocolInterface P w = w\<lparr>installed := remove1 P (installed w)\<rparr>"

definition TestProtocolInit ::
  "('u, 'c) start_env \<Rightarrow> ('u, 'c, 'z) start_world_scheme \<Rightarrow> efi_status \<times> ('u, 'c, 'z) start_world_scheme" where
  "TestProtocolInit E w = InstallProtocolInterface E mEmuTestProtocol w"

definition TestProtocolCleanup :: "('u, 'c, 'z) start_world_scheme \<Rightarrow> ('u, 'c, 'z) start_world_scheme" where
  "TestProtocolCleanup w = UninstallProtocolInterface mEmuTestProtocol w"

text \<open>
  From the first InstallProtocolInterface to the label done: the status, the two
  handles (whether they are not NULL) and the state.
\<close>

definition install_protocols ::
  "('u, 'c) start_env \<Rightarrow> efi_status \<Rightarrow> ('u, 'c, 'z) start_world_scheme \<Rightarrow>
   efi_status \<times> bool \<times> bool \<times> ('u, 'c, 'z) start_world_scheme" where
  "install_protocols E Status w =
     (let opts = build_of E;
          (Status, w1) = (if MAU_SUPPORTS_X64_BINS opts then InstallProtocolInterface E mEmulatorProtocolX64 w else (Status, w));
          EmuHandleX64 = (MAU_SUPPORTS_X64_BINS opts \<and> \<not> EFI_ERROR Status)
      in if EFI_ERROR Status then (Status, False, False, w1)
         else
           let (Status, w2) = (if MAU_SUPPORTS_AARCH64_BINS opts then InstallProtocolInterface E mEmulatorProtocolAArch64 w1
                               else (Status, w1));
               EmuHandleAArch64 = (MAU_SUPPORTS_AARCH64_BINS opts \<and> \<not> EFI_ERROR Status)
           in if EFI_ERROR Status then (Status, EmuHandleX64, False, w2)
              else
                let (Status, w3) = (if NDEBUG opts then (Status, w2) else TestProtocolInit E w2)
                in (Status, EmuHandleX64, EmuHandleAArch64, w3))"

definition undo_start ::
  "('u, 'c) start_env \<Rightarrow> ('u, 'c, 'z) start_world_scheme \<Rightarrow> ('j, ('u, 'c, 'z) start_world_scheme) outcome option" where
  "undo_start E w = obind (CpuCleanup (uc_setup_of E) (build_of E) w) (\<lambda>w. Some (Done (hooks_update EfiHooksCleanup w)))"

text \<open>
  EfiHooksInit is run with fuel for two calls through the slot: the hook and the
  firmware's function it calls.
\<close>

definition EmulatorStart ::
  "('u, 'c) start_env \<Rightarrow> ('u, 'c, 'z) start_world_scheme \<Rightarrow>
   ('j, efi_status \<times> ('u, 'c, 'z) start_world_scheme) outcome option" where
  "EmulatorStart E w =
     (let opts = build_of E; R = run_env_of E; a = host (Env R)
      in case EfiHooksInit (firmware_cpu R) 2 (hooks w) of
           None \<Rightarrow> None
         | Some (Status, h) \<Rightarrow>
             let w = w\<lparr>hooks := h\<rparr>
             in if EFI_ERROR Status then Some (Done (Status, w))
                else
                  let w = EfiWrappersInit opts w;
                      (Status, w) = CpuInit (UC (Env R)) (uc_setup_of E) (memory_for E) (memory_for_stack E) opts w
                  in if EFI_ERROR Status then Some (Done (Status, w))
                     else
                       let (Status, hs) = ArchInit a (fw_RegisterInterruptHandler E) opts (uninit_Status E) (handlers w);
                           w = w\<lparr>handlers := hs\<rparr>
                       in if EFI_ERROR Status then obind (undo_start E w) (\<lambda>w. Some (Done (Status, w)))
                          else
                            let (Status, EmuHandleX64, EmuHandleAArch64, w) = install_protocols E Status w
                            in if \<not> EFI_ERROR Status then Some (Done (Status, w))
                               else
                                 let w = (if EmuHandleX64 then UninstallProtocolInterface mEmulatorProtocolX64 w else w);
                                     w = (if EmuHandleAArch64 then UninstallProtocolInterface mEmulatorProtocolAArch64 w else w);
                                     w = w\<lparr>handlers := ArchCleanup a (fw_RegisterInterruptHandler E) opts (handlers w)\<rparr>
                                 in obind (undo_start E w) (\<lambda>w. Some (Done (Status, w))))"

definition EmulatorStop :: "efi_status" where "EmulatorStop = EFI_UNSUPPORTED"

section \<open>The driver binding\<close>

text \<open>OpenProtocol with BY\_DRIVER fails when the driver has the controller open already.\<close>

definition OpenProtocol :: "('u, 'c) start_env \<Rightarrow> ('u, 'c, 'z) start_world_scheme \<Rightarrow> efi_status \<times> ('u, 'c, 'z) start_world_scheme" where
  "OpenProtocol E w =
     (if opened_by_driver w then (EFI_ALREADY_STARTED, w)
      else if EFI_ERROR (fw_OpenProtocol E) then (fw_OpenProtocol E, w)
      else (fw_OpenProtocol E, w\<lparr>opened_by_driver := True\<rparr>))"

definition CloseProtocol :: "('u, 'c, 'z) start_world_scheme \<Rightarrow> ('u, 'c, 'z) start_world_scheme" where
  "CloseProtocol w = w\<lparr>opened_by_driver := False\<rparr>"

definition DriverSupported :: "('u, 'c) start_env \<Rightarrow> ('u, 'c, 'z) start_world_scheme \<Rightarrow> efi_status \<times> ('u, 'c, 'z) start_world_scheme" where
  "DriverSupported E w =
     (let (Status, w) = OpenProtocol E w
      in if EFI_ERROR Status then (Status, w) else (EFI_SUCCESS, CloseProtocol w))"

definition DriverStart ::
  "('u, 'c) start_env \<Rightarrow> ('u, 'c, 'z) start_world_scheme \<Rightarrow>
   ('j, efi_status \<times> ('u, 'c, 'z) start_world_scheme) outcome option" where
  "DriverStart E w =
     (let (Status, w) = OpenProtocol E w
      in if EFI_ERROR Status then Some (Done (Status, w))
         else obind (EmulatorStart E w)
                (\<lambda>(Status, w). Some (Done (Status, if EFI_ERROR Status then CloseProtocol w else w))))"

definition DriverStop :: "nat \<Rightarrow> ('u, 'c, 'z) start_world_scheme \<Rightarrow> efi_status \<times> ('u, 'c, 'z) start_world_scheme" where
  "DriverStop NumberOfChildren w =
     (let w = ASSERT_w (NumberOfChildren = 0) w; Status = EmulatorStop
      in if EFI_ERROR Status then (Status, w) else (EFI_SUCCESS, CloseProtocol w))"

section \<open>The entry point\<close>

text \<open>The answers of the firmware to the calls of DriverEntry, and what it leaves behind.\<close>

record entry_services =
  HandleProtocol_LoadedImage :: efi_status
  LocateProtocol_Cpu :: efi_status
  LocateProtocol_CpuIo2 :: efi_status
  InstallMultipleProtocolInterfaces :: efi_status
  EfiLibInstallDriverBindingComponentName2 :: efi_status

record entry_state =
  gCpuIo2_found :: bool
  device_installed :: bool
  binding_installed :: bool
  entry_assert_failed :: bool

definition DriverEntry :: "bool \<Rightarrow> entry_services \<Rightarrow> entry_state \<Rightarrow> efi_status \<times> entry_state" where
  "DriverEntry MAU_EMU_X64_RAZ_WI_PIO F s =
     (if EFI_ERROR (HandleProtocol_LoadedImage F) then (HandleProtocol_LoadedImage F, s)
      else if LocateProtocol_Cpu F \<noteq> EFI_SUCCESS then (LocateProtocol_Cpu F, s)
      else
        let s = (if MAU_EMU_X64_RAZ_WI_PIO then s
                 else s\<lparr>gCpuIo2_found := \<not> EFI_ERROR (LocateProtocol_CpuIo2 F),
                        entry_assert_failed := entry_assert_failed s \<or> LocateProtocol_CpuIo2 F \<noteq> EFI_SUCCESS\<rparr>)
        in if EFI_ERROR (InstallMultipleProtocolInterfaces F) then (InstallMultipleProtocolInterfaces F, s)
           else
             let s = s\<lparr>device_installed := True\<rparr>; Status = EfiLibInstallDriverBindingComponentName2 F
             in if EFI_ERROR Status then (Status, s\<lparr>device_installed := False\<rparr>)
                else (Status, s\<lparr>binding_installed := True\<rparr>))"

section \<open>What starting a processor does not touch\<close>

text \<open>
  The hooks but for a failed assertion, the handlers, the protocols, the images; a
  pool keeps its OnDestroy.
\<close>

definition destroyable :: "('u, 'c, 'z) start_world_scheme \<Rightarrow> bool" where
  "destroyable w \<longleftrightarrow> (\<forall>c. has_pool w c \<longrightarrow> OnDestroy (Config (RunContextAlloc w c)) \<noteq> None)"

definition inert :: "('u, 'c, 'z) start_world_scheme \<Rightarrow> ('u, 'c, 'z) start_world_scheme \<Rightarrow> bool" where
  "inert w w' \<longleftrightarrow>
     (hooks w' = hooks w \<or> hooks w' = (hooks w)\<lparr>assert_failed := True\<rparr>) \<and> handlers w' = handlers w \<and>
     installed w' = installed w \<and> opened_by_driver w' = opened_by_driver w \<and> (destroyable w \<longrightarrow> destroyable w') \<and>
     mImageList w' = mImageList w \<and> Records w' = Records w"

lemma inert_refl [simp]: "inert w w"
  by (simp add: inert_def)

lemma inert_trans: "inert w w' \<Longrightarrow> inert w' w'' \<Longrightarrow> inert w w''"
  by (auto simp: inert_def)

lemma inert_steps [intro!]:
  "inert w w1 \<Longrightarrow> inert w (ASSERT_w b w1)" "inert w w1 \<Longrightarrow> inert w (set_UE c u w1)" "inert w w1 \<Longrightarrow> inert w (cpu_update c f w1)"
  "inert w w1 \<Longrightarrow> inert w (w1\<lparr>ledger := l\<rparr>)" "inert w w1 \<Longrightarrow> inert w (w1\<lparr>UE_set := b1\<rparr>)"
  "inert w w1 \<Longrightarrow> inert w (w1\<lparr>uc_hooks := h\<rparr>)" "inert w w1 \<Longrightarrow> inert w (w1\<lparr>uc_maps := m\<rparr>)"
  "inert w w1 \<Longrightarrow> inert w (w1\<lparr>mTopContext := t\<rparr>)" "inert w w1 \<Longrightarrow> inert w (w1\<lparr>ledger := l, private_stack := s\<rparr>)"
  "inert w w1 \<Longrightarrow> inert w (w1\<lparr>attr_calls := a\<rparr>)" "inert w w1 \<Longrightarrow> inert w (w1\<lparr>ledger := l, contexts := k\<rparr>)"
  "inert w w1 \<Longrightarrow> inert w (w1\<lparr>engine_open := b2\<rparr>)" "inert w w1 \<Longrightarrow> inert w (w1\<lparr>mEventList := e\<rparr>)"
  by (auto simp: inert_def destroyable_def ASSERT_w_def ASSERT_def set_UE_def cpu_update_def)

definition inert_result :: "('u, 'c, 'z) start_world_scheme \<Rightarrow> efi_status \<times> ('u, 'c, 'z) start_world_scheme \<Rightarrow> bool" where
  "inert_result w r \<longleftrightarrow> inert w (snd r)"

lemma inert_result_Pair [simp]: "inert_result w (st, w1) = inert w w1"
  by (simp add: inert_result_def)

lemma inert_and_then:
  "inert_result w r \<Longrightarrow> (\<And>w1. inert w w1 \<Longrightarrow> inert_result w (f w1)) \<Longrightarrow> inert_result w (and_then r f)"
  by (cases r) (simp add: and_then_def)

lemma inert_uc_step: "inert w w1 \<Longrightarrow> inert_result w (uc_step c f w1)"
  by (auto simp: uc_step_def split: prod.split)

lemma inert_hook_add: "inert w w1 \<Longrightarrow> inert_result w (hook_add S c t cb w1)"
  unfolding hook_add_def by (rule inert_and_then [OF inert_uc_step]) auto

lemma inert_install_hooks: "inert w w1 \<Longrightarrow> inert_result w (install_hooks S opts A c w1)"
  unfolding install_hooks_def by (auto intro!: inert_and_then inert_hook_add)

lemma inert_map_memory: "inert w w1 \<Longrightarrow> inert_result w (map_memory S c w1)"
  unfolding map_memory_def Let_def by (intro inert_and_then inert_uc_step) auto

lemma inert_REG_WRITE: "inert w w1 \<Longrightarrow> inert w (REG_WRITE U c r v w1)"
  unfolding REG_WRITE_def set_UE_def [symmetric] by (auto split: prod.split)

lemma inert_initial_state: "inert w w1 \<Longrightarrow> inert_result w (initial_state U S B opts c w1)"
  unfolding initial_state_def Let_def
  by (auto intro!: inert_REG_WRITE split: prod.split)

lemma inert_emu_stack_alloc: "inert w w1 \<Longrightarrow> inert_result w (emu_stack_alloc B c w1)"
  unfolding emu_stack_alloc_def Let_def by (auto split: prod.split)

lemma ObjectAllocCreate_config:
  "ObjectAllocCreate ms u cfg l s = (st, Some P, l', s') \<Longrightarrow> OnDestroy (Config P) = OnDestroy cfg"
  by (auto simp: ObjectAllocCreate_def Let_def split: if_splits option.splits prod.splits)

lemma inert_context_pool_create:
  assumes "inert w w1"
  shows "inert_result w (context_pool_create S B opts c w1)"
proof -
  define cfg where "cfg = context_pool_config S opts (UE w1 c) (EmuMachineType (cpus w1 c)) c"
  obtain st pool l k b where o: "ObjectAllocCreate (pool_memory B) (uninit B) cfg (ledger w1) (contexts w1, False) = (st, pool, l, (k, b))"
    by (metis prod_cases3)
  let ?w = "ASSERT_w (\<not> b) (w1\<lparr>ledger := l, contexts := k\<rparr>)"
  have i: "inert w ?w" using assms by auto
  show ?thesis
  proof (cases pool)
    case None
    with o i show ?thesis by (simp add: context_pool_create_def cfg_def [symmetric] Let_def)
  next
    case (Some P)
    with o have "OnDestroy (Config P) \<noteq> None" by (auto dest: ObjectAllocCreate_config simp: cfg_def context_pool_config_def)
    with i have "inert w (?w\<lparr>RunContextAlloc := (RunContextAlloc ?w)(c := P), has_pool := (has_pool ?w)(c := True)\<rparr>)"
      by (auto simp: inert_def destroyable_def)
    with o Some show ?thesis by (simp add: context_pool_create_def cfg_def [symmetric] Let_def)
  qed
qed

lemma inert_CpuInitEx: "inert w w1 \<Longrightarrow> inert_result w (CpuInitEx U S B opts A c w1)"
  unfolding CpuInitEx_def Let_def
  by (auto intro!: inert_and_then inert_emu_stack_alloc inert_context_pool_create inert_install_hooks inert_map_memory
      inert_initial_state split: prod.split)

lemma inert_CpuPrivateStackInit: "inert w w1 \<Longrightarrow> inert_result w (CpuPrivateStackInit B opts w1)"
  unfolding CpuPrivateStackInit_def Let_def by (auto intro!: inert_and_then split: prod.split)

lemma inert_CpuInit: "inert w w1 \<Longrightarrow> inert_result w (CpuInit U S B Bp opts w1)"
  unfolding CpuInit_def by (auto intro!: inert_and_then inert_CpuPrivateStackInit inert_CpuInitEx)

section \<open>The course of a start\<close>

lemma EfiHooksInit_unhooked:
  assumes "fw_cpu_ok fw" "unhooked s" "gIgnoreInterruptManipulation s = 0"
  obtains s' where "EfiHooksInit fw 2 s = Some (EFI_SUCCESS, s')" "hooked s'" "quiet s'" "hw_interrupts s' = hw_interrupts s"
  using assms
  by (simp add: EfiHooksInit_def unhooked_def fw_cpu_ok_def hooked_def critical_defs numeral_2_eq_2)

text \<open>The state CpuInit is called in, and its result.\<close>

definition before_cpus :: "('u, 'c) start_env \<Rightarrow> hook_state \<Rightarrow> ('u, 'c, 'z) start_world_scheme \<Rightarrow> ('u, 'c, 'z) start_world_scheme" where
  "before_cpus E h w = EfiWrappersInit (build_of E) (w\<lparr>hooks := h\<rparr>)"

definition start_cpus :: "('u, 'c) start_env \<Rightarrow> ('u, 'c, 'z) start_world_scheme \<Rightarrow> efi_status \<times> ('u, 'c, 'z) start_world_scheme" where
  "start_cpus E w = CpuInit (UC (Env (run_env_of E))) (uc_setup_of E) (memory_for E) (memory_for_stack E) (build_of E) w"

definition uninstall ::
  "bool \<Rightarrow> bool \<Rightarrow> ('u, 'c, 'z) start_world_scheme \<Rightarrow> ('u, 'c, 'z) start_world_scheme" where
  "uninstall x a w =
     (let w = (if x then UninstallProtocolInterface mEmulatorProtocolX64 w else w)
      in if a then UninstallProtocolInterface mEmulatorProtocolAArch64 w else w)"

lemma EmulatorStart_eq:
  fixes w :: "('u, 'c, 'z) start_world_scheme"
  assumes "EfiHooksInit (firmware_cpu (run_env_of E)) 2 (hooks w) = Some (EFI_SUCCESS, h)"
    and "start_cpus E (before_cpus E h w) = (st1, w1)"
    and "ArchInit (host (Env (run_env_of E))) (fw_RegisterInterruptHandler E) (build_of E) (uninit_Status E) (handlers w1) = (st2, hs)"
    and "install_protocols E st2 (w1\<lparr>handlers := hs\<rparr>) = (st3, x, a, w3)"
  shows "(EmulatorStart E w :: ('j, efi_status \<times> ('u, 'c, 'z) start_world_scheme) outcome option) =
    (if EFI_ERROR st1 then Some (Done (st1, w1))
     else if EFI_ERROR st2 then obind (undo_start E (w1\<lparr>handlers := hs\<rparr>)) (\<lambda>w. Some (Done (st2, w)))
     else if \<not> EFI_ERROR st3 then Some (Done (st3, w3))
     else let w4 = uninstall x a w3 in obind (undo_start E (w4\<lparr>handlers :=
       ArchCleanup (host (Env (run_env_of E))) (fw_RegisterInterruptHandler E) (build_of E) (handlers w4)\<rparr>)) (\<lambda>w. Some (Done (st3, w))))"
  using assms
  by (simp add: EmulatorStart_def Let_def start_cpus_def before_cpus_def uninstall_def)

lemma installed_id [simp]: "w\<lparr>installed := installed w\<rparr> = w"
  by (cases w) simp

lemma install_protocols_result:
  assumes "install_protocols E st w = (st', x, a, w')"
  shows "w' = w\<lparr>installed := installed w'\<rparr>" "EFI_ERROR st' \<Longrightarrow> uninstall x a w' = w"
proof -
  let ?I = "\<lambda>P. EFI_ERROR (fw_InstallProtocolInterface E P)"
  show "w' = w\<lparr>installed := installed w'\<rparr>"
    using assms
    by (cases "MAU_SUPPORTS_X64_BINS (build_of E)"; cases "MAU_SUPPORTS_AARCH64_BINS (build_of E)"; cases "NDEBUG (build_of E)";
        cases "?I mEmulatorProtocolX64"; cases "?I mEmulatorProtocolAArch64"; cases "?I mEmuTestProtocol"; cases "EFI_ERROR st")
      (auto simp: install_protocols_def InstallProtocolInterface_def TestProtocolInit_def)
  show "uninstall x a w' = w" if "EFI_ERROR st'"
    using assms that
    by (cases "MAU_SUPPORTS_X64_BINS (build_of E)"; cases "MAU_SUPPORTS_AARCH64_BINS (build_of E)"; cases "NDEBUG (build_of E)";
        cases "?I mEmulatorProtocolX64"; cases "?I mEmulatorProtocolAArch64"; cases "?I mEmuTestProtocol"; cases "EFI_ERROR st")
      (auto simp: install_protocols_def InstallProtocolInterface_def TestProtocolInit_def uninstall_def
        UninstallProtocolInterface_def)
qed

lemma before_cpus_simps [simp]:
  "no_pools (before_cpus E h w) = no_pools w" "hooks (before_cpus E h w) = h" "pending (before_cpus E h w) = pending w"
  "handlers (before_cpus E h w) = handlers w" "installed (before_cpus E h w) = installed w"
  "opened_by_driver (before_cpus E h w) = opened_by_driver w" "has_pool (before_cpus E h w) = has_pool w"
  "destroyable (before_cpus E h w) = destroyable w" "ledger (before_cpus E h w) = ledger w"
  by (simp_all add: before_cpus_def EfiWrappersInit_def no_pools_def ctxs_ok_def destroyable_def)

lemma start_cpus_inert: "start_cpus E w = (st, w') \<Longrightarrow> inert w w'"
  using inert_CpuInit [of w w] unfolding start_cpus_def inert_result_def by (metis inert_refl snd_conv)

lemma inert_facts:
  assumes "inert w w'"
  shows "quiet (hooks w') = quiet (hooks w)" "hooked (hooks w') = hooked (hooks w)"
    "hw_interrupts (hooks w') = hw_interrupts (hooks w)" "handlers w' = handlers w" "installed w' = installed w"
    "opened_by_driver w' = opened_by_driver w"
  using assms by (auto simp: inert_def quiet_def hooked_def)

section \<open>Undoing a start\<close>

lemma CpuCleanupEx_done:
  fixes w :: "('u, 'c, 'z) start_world_scheme"
  assumes "destroyable w" "pool_inv (RunContextAlloc w c)" "set (FreeList (RunContextAlloc w c)) = set (objs (RunContextAlloc w c))"
  obtains w' where "(CpuCleanupEx S c w :: ('j, ('u, 'c, 'z) start_world_scheme) outcome) = Done w'"
    "inert w w'" "RunContextAlloc w' = RunContextAlloc w"
proof (cases "has_pool w c")
  case True
  then obtain d where "OnDestroy (Config (RunContextAlloc w c)) = Some d" using assms(1) by (auto simp: destroyable_def)
  from ObjectAllocDestroy_cases [OF assms(2) this] assms(3) obtain l k b where
    o: "\<And>l0 s. (ObjectAllocDestroy (RunContextAlloc w c) (ledger w) (contexts w, False) :: ('j, _) outcome) = Done (l, (k, b))"
    by (metis surj_pair)
  let ?w = "ASSERT_w (uc_close S = UC_ERR_OK) ((ASSERT_w (\<not> b) ((ASSERT_w (UE_set w c) w)\<lparr>ledger := l, contexts := k\<rparr>))
        \<lparr>engine_open := (engine_open w)(c := False)\<rparr>)"
  show ?thesis
  proof (rule that [of ?w])
    show "(CpuCleanupEx S c w :: ('j, ('u, 'c, 'z) start_world_scheme) outcome) = Done ?w" using True o by (simp add: CpuCleanupEx_def Let_def ASSERT_w_def)
  qed (auto, simp add: ASSERT_w_def)
next
  case False
  let ?w = "ASSERT_w (uc_close S = UC_ERR_OK) ((ASSERT_w (UE_set w c) w)\<lparr>engine_open := (engine_open w)(c := False)\<rparr>)"
  show ?thesis
  proof (rule that [of ?w])
    show "(CpuCleanupEx S c w :: ('j, ('u, 'c, 'z) start_world_scheme) outcome) = Done ?w" using False by (simp add: CpuCleanupEx_def Let_def ASSERT_w_def)
  qed (auto, simp add: ASSERT_w_def)
qed

lemma ctxs_ok_idle:
  assumes "ctxs_ok [] [] w"
  shows "pool_inv (RunContextAlloc w c)" "set (FreeList (RunContextAlloc w c)) = set (objs (RunContextAlloc w c))"
proof -
  show inv: "pool_inv (RunContextAlloc w c)" using assms by (simp add: ctxs_ok_def pools_ok_def)
  have "allocated (RunContextAlloc w) = {}" using assms by (simp add: ctxs_ok_def)
  with inv show "set (FreeList (RunContextAlloc w c)) = set (objs (RunContextAlloc w c))"
    by (auto simp: allocated_def pool_inv_def)
qed

lemma CpuCleanup_done:
  fixes w :: "('u, 'c, 'z) start_world_scheme"
  assumes C: "ctxs_ok [] [] w" and d: "destroyable w"
  obtains w' where "(CpuCleanup S opts w :: ('j, ('u, 'c, 'z) start_world_scheme) outcome option) = Some (Done w')" "inert w w'"
proof -
  have "\<exists>w1. (if MAU_SUPPORTS_X64_BINS opts then CpuCleanupEx S CpuX64 w else Done w :: ('j, ('u, 'c, 'z) start_world_scheme) outcome) = Done w1 \<and>
      inert w w1 \<and> RunContextAlloc w1 = RunContextAlloc w"
    by (cases "MAU_SUPPORTS_X64_BINS opts") (auto intro: CpuCleanupEx_done [OF d ctxs_ok_idle [OF C, of CpuX64]])
  then obtain w1 where w1: "(if MAU_SUPPORTS_X64_BINS opts then CpuCleanupEx S CpuX64 w else Done w :: ('j, ('u, 'c, 'z) start_world_scheme) outcome) = Done w1"
    "inert w w1" "RunContextAlloc w1 = RunContextAlloc w" by blast
  have d1: "destroyable w1" using d w1(2) by (simp add: inert_def)
  have "\<exists>w2. (if MAU_SUPPORTS_AARCH64_BINS opts then CpuCleanupEx S CpuAArch64 w1 else Done w1 :: ('j, ('u, 'c, 'z) start_world_scheme) outcome) =
      Done w2 \<and> inert w1 w2"
    by (cases "MAU_SUPPORTS_AARCH64_BINS opts")
      (auto intro: CpuCleanupEx_done [OF d1 ctxs_ok_idle [OF C, of CpuAArch64, folded w1(3)]])
  then obtain w2 where w2: "(if MAU_SUPPORTS_AARCH64_BINS opts then CpuCleanupEx S CpuAArch64 w1 else Done w1 ::
      ('j, ('u, 'c, 'z) start_world_scheme) outcome) = Done w2" "inert w1 w2" by blast
  show ?thesis
    by (rule that [of w2]) (use w1(1) w2 inert_trans [OF w1(2) w2(2)] in \<open>simp_all add: CpuCleanup_def\<close>)
qed

lemma EfiHooksCleanup_hooked:
  assumes "hooked s" "quiet s"
  shows "unhooked (EfiHooksCleanup s)" "quiet (EfiHooksCleanup s)" "hw_interrupts (EfiHooksCleanup s) = hw_interrupts s"
  using assms by (auto simp: EfiHooksCleanup_def unhooked_def hooked_def critical_defs)

lemma undo_start_done:
  fixes w :: "('u, 'c, 'z) start_world_scheme"
  assumes "ctxs_ok [] [] w" "destroyable w" "hooked (hooks w)" "quiet (hooks w)"
  obtains w' where "(undo_start E w :: ('j, ('u, 'c, 'z) start_world_scheme) outcome option) = Some (Done w')"
    "unhooked (hooks w')" "hw_interrupts (hooks w') = hw_interrupts (hooks w)" "quiet (hooks w')"
    "handlers w' = handlers w" "installed w' = installed w"
proof -
  obtain w1 where w1: "(CpuCleanup (uc_setup_of E) (build_of E) w :: ('j, ('u, 'c, 'z) start_world_scheme) outcome option) = Some (Done w1)"
    "inert w w1" using assms(1,2) by (rule CpuCleanup_done)
  have h: "hooked (hooks w1)" "quiet (hooks w1)" "hw_interrupts (hooks w1) = hw_interrupts (hooks w)"
    using assms(3,4) by (simp_all add: inert_facts [OF w1(2)])
  show ?thesis
    by (rule that [of "hooks_update EfiHooksCleanup w1"])
      (use w1(1) EfiHooksCleanup_hooked [OF h(1,2)] h(3) in \<open>simp_all add: undo_start_def inert_facts [OF w1(2)]\<close>)
qed

section \<open>A driver that was not started\<close>

definition fresh_driver :: "('u, 'c, 'z) start_world_scheme \<Rightarrow> bool" where
  "fresh_driver w \<longleftrightarrow>
     no_pools w \<and> (\<forall>c. \<not> has_pool w c) \<and> unhooked (hooks w) \<and> gIgnoreInterruptManipulation (hooks w) = 0 \<and>
     list_all notify_safe (pending w)"

text \<open>A start up to CpuInit.\<close>

lemma start_hooks:
  assumes "fresh_driver w" "env_ok (run_env_of E)"
  obtains h where "EfiHooksInit (firmware_cpu (run_env_of E)) 2 (hooks w) = Some (EFI_SUCCESS, h)" "hooked h" "quiet h"
    "hw_interrupts h = hw_interrupts (hooks w)" "no_pools (before_cpus E h w)" "destroyable (before_cpus E h w)"
proof -
  have a: "fw_cpu_ok (firmware_cpu (run_env_of E))" "unhooked (hooks w)" "gIgnoreInterruptManipulation (hooks w) = 0"
    using assms by (simp_all add: env_ok_def fresh_driver_def)
  show ?thesis
    by (rule EfiHooksInit_unhooked [OF a]) (rule that; (assumption | use assms(1) in \<open>simp add: fresh_driver_def destroyable_def\<close>))
qed

lemma start_cpus_ok:
  assumes "env_ok (run_env_of E)" "pages_apart (memory_for E)" "no_pools w" "start_cpus E w = (st, w')" "\<not> EFI_ERROR st"
  shows "ctxs_ok [] [] w' \<and> pending w' = pending w \<and>
    (MAU_SUPPORTS_X64_BINS (build_of E) \<longrightarrow> initialised (UC (Env (run_env_of E))) (build_of E) CpuX64 (cpus w' CpuX64)) \<and>
    (MAU_SUPPORTS_AARCH64_BINS (build_of E) \<longrightarrow> initialised (UC (Env (run_env_of E))) (build_of E) CpuAArch64 (cpus w' CpuAArch64))"
proof -
  have "uc_ok (UC (Env (run_env_of E)))" "\<not> MAU_ON_PRIVATE_STACK (build_of E)"
    using assms(1) by (simp_all add: env_ok_def)
  from CpuInit_ok [OF assms(4) [unfolded start_cpus_def] assms(5) this(1) assms(3) this(2) assms(2)] show ?thesis by blast
qed

section \<open>Properties of a start\<close>

text \<open>A successful start; it does not touch the images.\<close>

lemma EmulatorStart_running:
  fixes w w' :: "('u, 'c, 'z) start_world_scheme"
  assumes "fresh_driver w" "env_ok (run_env_of E)" "pages_apart (memory_for E)"
    and "(EmulatorStart E w :: ('j, efi_status \<times> ('u, 'c, 'z) start_world_scheme) outcome option) = Some (Done (st, w'))"
    and "\<not> EFI_ERROR st"
  shows "run_inv (run_env_of E) [] w' \<and>
    (MAU_SUPPORTS_X64_BINS (build_of E) \<longrightarrow> initialised (UC (Env (run_env_of E))) (build_of E) CpuX64 (cpus w' CpuX64)) \<and>
    (MAU_SUPPORTS_AARCH64_BINS (build_of E) \<longrightarrow> initialised (UC (Env (run_env_of E))) (build_of E) CpuAArch64 (cpus w' CpuAArch64)) \<and>
    mImageList w' = mImageList w \<and> Records w' = Records w"
proof -
  obtain h where h: "EfiHooksInit (firmware_cpu (run_env_of E)) 2 (hooks w) = Some (EFI_SUCCESS, h)" "hooked h" "quiet h"
    "no_pools (before_cpus E h w)" using assms(1,2) by (rule start_hooks)
  obtain st1 w1 where c: "start_cpus E (before_cpus E h w) = (st1, w1)" by (metis surj_pair)
  obtain st2 hs where a: "ArchInit (host (Env (run_env_of E))) (fw_RegisterInterruptHandler E) (build_of E) (uninit_Status E) (handlers w1) = (st2, hs)"
    by (metis surj_pair)
  obtain st3 x y w3 where p: "install_protocols E st2 (w1\<lparr>handlers := hs\<rparr>) = (st3, x, y, w3)" by (metis prod_cases4)
  have "\<not> EFI_ERROR st1" "w' = w3"
    using assms(4,5) unfolding EmulatorStart_eq [OF h(1) c a p] by (auto simp: Let_def obind_Done split: if_splits)
  from start_cpus_ok [OF assms(2,3) h(4) c this(1)] have
    w1: "ctxs_ok [] [] w1" "pending w1 = pending w"
    "MAU_SUPPORTS_X64_BINS (build_of E) \<longrightarrow> initialised (UC (Env (run_env_of E))) (build_of E) CpuX64 (cpus w1 CpuX64)"
    "MAU_SUPPORTS_AARCH64_BINS (build_of E) \<longrightarrow> initialised (UC (Env (run_env_of E))) (build_of E) CpuAArch64 (cpus w1 CpuAArch64)"
    by simp_all
  have w': "w' = w1\<lparr>handlers := hs, installed := installed w3\<rparr>"
    using install_protocols_result(1) [OF p] \<open>w' = w3\<close> by simp
  have i: "inert (before_cpus E h w) w1" by (rule start_cpus_inert [OF c])
  have "mImageList w' = mImageList w" "Records w' = Records w"
    using i by (simp_all add: w' inert_def before_cpus_def Let_def EfiWrappersInit_def)
  moreover have "quiet (hooks w1)" "hooked (hooks w1)"
    using h(2,3) by (simp_all add: inert_facts [OF i])
  moreover have "ctxs_ok [] [] w'" using w1(1) by (simp add: w' ctxs_ok_def)
  moreover have "list_all notify_safe (pending w)" using assms(1) by (simp add: fresh_driver_def)
  ultimately show ?thesis
    using w1(2-4) by (simp add: run_inv_def saved_ok_def w')
qed



section \<open>A start that fails in CpuInit\<close>

lemma inert_self_hooked: "inert w w' \<Longrightarrow> self_hooked (hooks w) \<Longrightarrow> self_hooked (hooks w')"
  by (auto simp: inert_def self_hooked_def)

text \<open>
  C31: when the firmware has no memory for the stack of the emulated X64
  processor, EmulatorStart fails and returns with its hooks still in place; if a
  later start then succeeds, the driver has taken its own hooks for the functions
  of the firmware, and EnableInterrupt and DisableInterrupt of the CPU protocol
  never return (with any fuel).
\<close>

theorem failed_start_breaks_the_next:
  fixes w :: "('u, 'c, 'z) start_world_scheme"
  assumes "fresh_driver w" "env_ok (run_env_of E)" "MAU_SUPPORTS_X64_BINS (build_of E)"
    and "\<And>k n a. EFI_ERROR (fst (AllocatePages (memory_for E CpuX64) k n a))"
  shows "\<exists>st w1. (EmulatorStart E w :: ('j, efi_status \<times> ('u, 'c, 'z) start_world_scheme) outcome option) = Some (Done (st, w1)) \<and>
    EFI_ERROR st \<and> hooked (hooks w1) \<and>
    (\<forall>E' st' w2 n. env_ok (run_env_of E') \<and> \<not> EFI_ERROR st' \<and>
       (EmulatorStart E' w1 :: ('j, efi_status \<times> ('u, 'c, 'z) start_world_scheme) outcome option) = Some (Done (st', w2)) \<longrightarrow>
       call_EnableInterrupt (firmware_cpu (run_env_of E')) n (gCpu_EnableInterrupt (hooks w2)) (hooks w2) = None \<and>
       call_DisableInterrupt (firmware_cpu (run_env_of E')) n (gCpu_DisableInterrupt (hooks w2)) (hooks w2) = None)"
proof -
  obtain h where h: "EfiHooksInit (firmware_cpu (run_env_of E)) 2 (hooks w) = Some (EFI_SUCCESS, h)" "hooked h" "quiet h"
    using assms(1,2) by (rule start_hooks)
  obtain st1 w1 where c: "start_cpus E (before_cpus E h w) = (st1, w1)" by (metis surj_pair)
  have "EFI_ERROR st1"
  proof -
    have m: "\<not> MAU_ON_PRIVATE_STACK (build_of E)" using assms(2) by (simp add: env_ok_def)
    have "EFI_ERROR (fst (emu_stack_alloc (memory_for E CpuX64) CpuX64 v))" for v :: "('u, 'c, 'z) start_world_scheme"
      using assms(4) by (auto simp: emu_stack_alloc_def Let_def split: prod.split) (metis fst_conv)+
    then have "EFI_ERROR (fst (CpuInitEx U S (memory_for E CpuX64) (build_of E) A CpuX64 v))"
      for U S A and v :: "('u, 'c, 'z) start_world_scheme"
      by (auto simp: CpuInitEx_def Let_def and_then_def split: prod.split) (metis fst_conv)+
    then show ?thesis
      using c m assms(3) by (auto simp: start_cpus_def CpuInit_def CpuPrivateStackInit_def and_then_def split: prod.splits if_splits)
        (metis fst_conv)+
  qed
  obtain st2 hs where a: "ArchInit (host (Env (run_env_of E))) (fw_RegisterInterruptHandler E) (build_of E) (uninit_Status E) (handlers w1) = (st2, hs)"
    by (metis surj_pair)
  obtain st3 x y w3 where p: "install_protocols E st2 (w1\<lparr>handlers := hs\<rparr>) = (st3, x, y, w3)" by (metis prod_cases4)
  have start: "(EmulatorStart E w :: ('j, efi_status \<times> ('u, 'c, 'z) start_world_scheme) outcome option) = Some (Done (st1, w1))"
    using \<open>EFI_ERROR st1\<close> by (simp add: EmulatorStart_eq [OF h(1) c a p])
  have w1: "hooked (hooks w1)" "quiet (hooks w1)" using h(2,3) by (simp_all add: inert_facts [OF start_cpus_inert [OF c]])
  have next_start: "self_hooked (hooks w2)"
    if E': "env_ok (run_env_of E')" and ok: "\<not> EFI_ERROR st'"
      and r: "(EmulatorStart E' w1 :: ('j, efi_status \<times> ('u, 'c, 'z) start_world_scheme) outcome option) = Some (Done (st', w2))"
    for E' :: "('u, 'c) start_env" and st' w2
  proof -
    have "fw_cpu_ok (firmware_cpu (run_env_of E'))" using E' by (simp add: env_ok_def)
    from EfiHooksInit_hooked [OF this w1] obtain h2 where
      h2: "EfiHooksInit (firmware_cpu (run_env_of E')) 2 (hooks w1) = Some (EFI_SUCCESS, h2)" "self_hooked h2" by blast
    obtain st1' v1 where c': "start_cpus E' (before_cpus E' h2 w1) = (st1', v1)" by (metis surj_pair)
    obtain st2' hs' where a': "ArchInit (host (Env (run_env_of E'))) (fw_RegisterInterruptHandler E') (build_of E') (uninit_Status E')
      (handlers v1) = (st2', hs')" by (metis surj_pair)
    obtain st3' x' y' v3 where p': "install_protocols E' st2' (v1\<lparr>handlers := hs'\<rparr>) = (st3', x', y', v3)" by (metis prod_cases4)
    have "w2 = v3"
      using r ok unfolding EmulatorStart_eq [OF h2(1) c' a' p'] by (auto simp: Let_def obind_Done split: if_splits)
    then have "hooks w2 = hooks v1" using arg_cong [OF install_protocols_result(1) [OF p'], of hooks] by simp
    with h2(2) inert_self_hooked [OF start_cpus_inert [OF c']] show ?thesis by simp
  qed
  show ?thesis
    using start \<open>EFI_ERROR st1\<close> w1(1) self_hooked_diverges [OF next_start] by blast
qed

section \<open>The driver binding as a state machine\<close>

text \<open>The firmware calls the three functions of the binding, in any order and with any answers of its own.\<close>

inductive driver_step :: "('u, 'c, 'z) start_world_scheme \<Rightarrow> ('u, 'c, 'z) start_world_scheme \<Rightarrow> bool" where
  Supported: "DriverSupported E w = (st, w') \<Longrightarrow> driver_step w w'"
| Start: "(DriverStart E w :: (unit, efi_status \<times> ('u, 'c, 'z) start_world_scheme) outcome option) = Some (Done (st, w')) \<Longrightarrow> driver_step w w'"
| Stop: "DriverStop n w = (st, w') \<Longrightarrow> driver_step w w'"

lemma opened_id [simp]: "\<not> opened_by_driver w \<Longrightarrow> w\<lparr>opened_by_driver := False\<rparr> = w"
  by (cases w) simp

lemma OpenProtocol_opened [simp]: "opened_by_driver w \<Longrightarrow> OpenProtocol E w = (EFI_ALREADY_STARTED, w)"
  by (simp add: OpenProtocol_def)

lemma EFI_ALREADY_STARTED_error [simp]: "EFI_ERROR EFI_ALREADY_STARTED"
  by (simp add: EFI_ERROR_def EFI_ALREADY_STARTED_def)

lemma DriverSupported_keeps: "DriverSupported E w = (st, w') \<Longrightarrow> w' = w"
  by (auto simp: DriverSupported_def OpenProtocol_def CloseProtocol_def split: if_splits)

lemma DriverStop_keeps: "DriverStop n w = (st, w') \<Longrightarrow> w' = ASSERT_w (n = 0) w \<and> st = EFI_UNSUPPORTED"
  by (simp add: DriverStop_def EmulatorStop_def Let_def)

lemma DriverStart_cases:
  assumes r: "(DriverStart E w :: ('j, efi_status \<times> ('u, 'c, 'z) start_world_scheme) outcome option) = Some (Done (st, w'))"
  shows "(w' = w \<and> EFI_ERROR st) \<or> \<not> opened_by_driver w \<and>
    (\<exists>w1. (EmulatorStart E (w\<lparr>opened_by_driver := True\<rparr>) :: ('j, efi_status \<times> ('u, 'c, 'z) start_world_scheme) outcome option) =
       Some (Done (st, w1)) \<and> w' = (if EFI_ERROR st then w1\<lparr>opened_by_driver := False\<rparr> else w1))"
proof (cases "opened_by_driver w \<or> EFI_ERROR (fw_OpenProtocol E)")
  case True
  with r show ?thesis by (auto simp: DriverStart_def OpenProtocol_def split: if_splits)
next
  case False
  then have "(DriverStart E w :: ('j, efi_status \<times> ('u, 'c, 'z) start_world_scheme) outcome option) =
      obind (EmulatorStart E (w\<lparr>opened_by_driver := True\<rparr>))
        (\<lambda>(Status, w). Some (Done (Status, if EFI_ERROR Status then CloseProtocol w else w)))"
    by (simp add: DriverStart_def OpenProtocol_def)
  with r obtain st1 w1 where
    "(EmulatorStart E (w\<lparr>opened_by_driver := True\<rparr>) :: ('j, efi_status \<times> ('u, 'c, 'z) start_world_scheme) outcome option) = Some (Done (st1, w1))"
    "(st1, if EFI_ERROR st1 then CloseProtocol w1 else w1) = (st, w')"
    by (auto simp: obind_Done)
  with False show ?thesis by (intro disjI2 conjI exI [of _ w1]) (auto simp: CloseProtocol_def)
qed

lemma step_opened:
  assumes "driver_step w w'" "opened_by_driver w"
  shows "\<exists>n. w' = ASSERT_w (n = (0 :: nat)) w"
  using assms(1)
proof (cases rule: driver_step.cases)
  case (Supported E st)
  then have "w' = ASSERT_w (0 = (0 :: nat)) w" by (simp add: DriverSupported_keeps ASSERT_w_def)
  then show ?thesis ..
next
  case (Start E st)
  from DriverStart_cases [OF this] assms(2) have "w' = ASSERT_w (0 = (0 :: nat)) w" by (auto simp: ASSERT_w_def)
  then show ?thesis ..
next
  case (Stop n st)
  then show ?thesis by (auto dest: DriverStop_keeps)
qed

lemma step_opens:
  fixes w w' :: "('u, 'c, 'z) start_world_scheme"
  assumes "driver_step w w'" "\<not> opened_by_driver w" "opened_by_driver w'"
  shows "\<exists>E st. (EmulatorStart E (w\<lparr>opened_by_driver := True\<rparr>) :: (unit, efi_status \<times> ('u, 'c, 'z) start_world_scheme) outcome option) =
      Some (Done (st, w')) \<and> \<not> EFI_ERROR st"
  using assms(1)
proof (cases rule: driver_step.cases)
  case (Start E st)
  from DriverStart_cases [OF this] assms(2,3) obtain w1 where
    r: "(EmulatorStart E (w\<lparr>opened_by_driver := True\<rparr>) :: (unit, efi_status \<times> ('u, 'c, 'z) start_world_scheme) outcome option) = Some (Done (st, w1))"
    and w': "w' = (if EFI_ERROR st then w1\<lparr>opened_by_driver := False\<rparr> else w1)" by blast
  have "\<not> EFI_ERROR st" using w' assms(3) by (cases "EFI_ERROR st") simp_all
  with r w' show ?thesis by (intro exI [of _ E] exI [of _ st]) simp
next
  case (Supported E st)
  from DriverSupported_keeps [OF this] assms(2,3) show ?thesis by simp
next
  case (Stop n st)
  with assms(2,3) show ?thesis by (auto simp: ASSERT_w_def dest!: DriverStop_keeps)
qed


section \<open>A start that succeeds\<close>

text \<open>Every call of the firmware and of Unicorn succeeds.\<close>

definition boot_services_succeed :: "boot_services \<Rightarrow> bool" where
  "boot_services_succeed B \<longleftrightarrow>
     (\<forall>k n a. \<not> EFI_ERROR (fst (AllocatePages B k n a))) \<and> pool_available (pool_memory B) \<and>
     pages_at (pool_memory B) 1 \<noteq> None \<and> \<not> EFI_ERROR (uninit B)"

definition uc_setup_succeeds :: "('u, 'c) uc_setup \<Rightarrow> bool" where
  "uc_setup_succeeds S \<longleftrightarrow>
     (\<forall>a m. fst (uc_open S a m) = UC_ERR_OK) \<and> (\<forall>t cb u. fst (uc_hook_add S t cb u) = UC_ERR_OK) \<and>
     (\<forall>a n u. fst (uc_mmio_map S a n u) = UC_ERR_OK) \<and> (\<forall>a n p x u. fst (uc_mem_map_ptr S a n p x u) = UC_ERR_OK) \<and>
     (\<forall>u. fst (uc_get_code_gen_buf S u) = UC_ERR_OK) \<and> (\<forall>u p. fst (uc_context_alloc S u p) = UC_ERR_OK)"

definition succeeds :: "efi_status \<times> 'w \<Rightarrow> bool" where
  "succeeds r \<longleftrightarrow> \<not> EFI_ERROR (fst r)"

lemma succeeds_Pair [simp]: "succeeds (st, w) = (\<not> EFI_ERROR st)"
  by (simp add: succeeds_def)

lemma succeeds_and_then: "succeeds r \<Longrightarrow> (\<And>w. succeeds (f w)) \<Longrightarrow> succeeds (and_then r f)"
  by (cases r) (simp add: and_then_def)

lemma succeeds_uc_step: "(\<And>u. fst (call u) = UC_ERR_OK) \<Longrightarrow> succeeds (uc_step c call w)"
  by (simp add: uc_step_def Let_def case_prod_unfold)

lemma succeeds_context_pool_create:
  assumes "boot_services_succeed B" "uc_setup_succeeds S"
  shows "succeeds (context_pool_create S B opts c w)"
proof -
  define cfg where "cfg = context_pool_config S opts (UE w c) (EmuMachineType (cpus w c)) c"
  have c: "ObjectSize cfg = sizeof_CpuRunContext opts" "ObjectAlignment cfg = 8" "ObjectCount cfg = 32"
    "OnCreate cfg = Some (CpuRunContextOnCreate (uc_context_alloc S (UE w c)) c)"
    by (simp_all add: cfg_def context_pool_config_def)
  obtain a where a: "pages_at (pool_memory B) 1 = Some a" using assms(1) by (auto simp: boot_services_succeed_def)
  have "\<forall>x s. \<not> EFI_ERROR (fst (CpuRunContextOnCreate (uc_context_alloc S (UE w c)) c x s))"
    using assms(2) by (auto simp: CpuRunContextOnCreate_def uc_setup_succeeds_def Let_def split: prod.split) (metis fst_conv)
  moreover have "sizeof_ObjectHeader \<le> sizeof_CpuRunContext opts"
    "unat (sizeof_CpuRunContext opts) * unat (32 :: u64) + 4096 \<le> 2 ^ 64"
    using sizeof_cases [of opts] by (auto simp: sizeof_ObjectHeader_def)
  ultimately have "\<exists>C l s'. ObjectAllocCreate (pool_memory B) (uninit B) cfg (ledger w) (contexts w, False) = (EFI_SUCCESS, Some C, l, s')"
    using create_pool [of "pool_memory B" cfg a "CpuRunContextOnCreate (uc_context_alloc S (UE w c)) c" "uninit B" "ledger w" "(contexts w, False)"]
      assms(1) a by (auto simp: c pool_size boot_services_succeed_def)
  then show ?thesis by (auto simp: context_pool_create_def cfg_def [symmetric] Let_def split: prod.split)
qed

lemma succeeds_CpuInitEx:
  fixes w :: "('u, 'c, 'z) init_world_scheme"
  assumes "boot_services_succeed B" "uc_setup_succeeds S" "(fst (select_isa opts A (cpus w c))) = EFI_SUCCESS"
  shows "succeeds (CpuInitEx U S B opts A c w)"
proof -
  have "succeeds (emu_stack_alloc B c w)" for w :: "('u, 'c, 'z) init_world_scheme"
    using assms(1) by (auto simp: emu_stack_alloc_def Let_def boot_services_succeed_def split: prod.split) (metis fst_conv)
  moreover have h: "succeeds (hook_add S c t cb w)" for t cb and w :: "('u, 'c, 'z) init_world_scheme"
    using assms(2) by (auto simp: hook_add_def uc_setup_succeeds_def intro!: succeeds_and_then succeeds_uc_step)
  have "succeeds (install_hooks S opts A c w)" for w :: "('u, 'c, 'z) init_world_scheme"
    by (auto simp: install_hooks_def intro!: succeeds_and_then h)
  moreover have "succeeds (map_memory S c w)" for w :: "('u, 'c, 'z) init_world_scheme"
    using assms(2) by (auto simp: map_memory_def Let_def uc_setup_succeeds_def intro!: succeeds_and_then succeeds_uc_step)
  moreover have "succeeds (initial_state U S B opts c w)" for w :: "('u, 'c, 'z) init_world_scheme"
    using assms(2) by (auto simp: initial_state_def Let_def uc_setup_succeeds_def split: prod.split) (metis fst_conv)+
  moreover have "fst (uc_open S A m) = UC_ERR_OK" for m using assms(2) by (simp add: uc_setup_succeeds_def)
  ultimately show ?thesis
    using assms(3) by (auto simp: CpuInitEx_def Let_def case_prod_unfold
        intro!: succeeds_and_then succeeds_context_pool_create [OF assms(1,2)])
qed

lemma succeeds_CpuInit:
  assumes "boot_services_succeed (B CpuX64)" "boot_services_succeed (B CpuAArch64)" "uc_setup_succeeds S" "\<not> MAU_ON_PRIVATE_STACK opts"
  shows "succeeds (CpuInit U S B Bp opts w)"
proof -
  have "succeeds (CpuInitEx U S (B CpuX64) opts UC_ARCH_X86 CpuX64 w)" if "MAU_SUPPORTS_X64_BINS opts" for w :: "('a, 'b, 'c) init_world_scheme"
    by (rule succeeds_CpuInitEx [OF assms(1,3)]) (use that in \<open>simp add: select_isa_def\<close>)
  moreover have "succeeds (CpuInitEx U S (B CpuAArch64) opts UC_ARCH_ARM64 CpuAArch64 w)" if "MAU_SUPPORTS_AARCH64_BINS opts"
    for w :: "('a, 'b, 'c) init_world_scheme"
    by (rule succeeds_CpuInitEx [OF assms(2,3)]) (use that in \<open>simp add: select_isa_def\<close>)
  ultimately show ?thesis
    using assms(4) by (auto simp: CpuInit_def CpuPrivateStackInit_def intro!: succeeds_and_then)
qed

lemma ArchInit_succeeds:
  assumes "\<And>t. \<not> EFI_ERROR (fw t True)" "ArchInit a fw opts u H = (st, H')"
  shows "\<not> EFI_ERROR st"
  using assms
  by (cases a) (auto simp: ArchInit_def AArch64_ArchInit_def RiscV64_ArchInit_def LoongArch64_ArchInit_def mExceptions_def
      RegisterInterruptHandler_def Let_def split: if_splits prod.splits)

lemma install_protocols_succeeds:
  assumes "\<And>P. \<not> EFI_ERROR (fw_InstallProtocolInterface E P)" "\<not> EFI_ERROR st" "install_protocols E st w = (st', x, a, w')"
  shows "\<not> EFI_ERROR st'"
  using assms by (auto simp: install_protocols_def InstallProtocolInterface_def TestProtocolInit_def Let_def split: if_splits)

text \<open>When every call of the firmware and of Unicorn succeeds, EmulatorStart returns without an error.\<close>

definition all_succeed :: "('u, 'c) start_env \<Rightarrow> bool" where
  "all_succeed E \<longleftrightarrow>
     \<not> MAU_ON_PRIVATE_STACK (build_of E) \<and> (\<forall>c. boot_services_succeed (memory_for E c)) \<and> uc_setup_succeeds (uc_setup_of E) \<and>
     (\<forall>t. \<not> EFI_ERROR (fw_RegisterInterruptHandler E t True)) \<and> (\<forall>P. \<not> EFI_ERROR (fw_InstallProtocolInterface E P))"

lemma EmulatorStart_succeeds:
  fixes w :: "('u, 'c, 'z) start_world_scheme"
  assumes "all_succeed E" and h: "EfiHooksInit (firmware_cpu (run_env_of E)) 2 (hooks w) = Some (EFI_SUCCESS, h)"
  obtains st w' where "(EmulatorStart E w :: ('j, efi_status \<times> ('u, 'c, 'z) start_world_scheme) outcome option) = Some (Done (st, w'))"
    "\<not> EFI_ERROR st" "opened_by_driver w' = opened_by_driver w"
proof -
  have s: "boot_services_succeed (memory_for E CpuX64)" "boot_services_succeed (memory_for E CpuAArch64)"
    "uc_setup_succeeds (uc_setup_of E)" "\<not> MAU_ON_PRIVATE_STACK (build_of E)"
    "\<And>t. \<not> EFI_ERROR (fw_RegisterInterruptHandler E t True)" "\<And>P. \<not> EFI_ERROR (fw_InstallProtocolInterface E P)"
    using assms(1) by (simp_all add: all_succeed_def)
  obtain st1 w1 where c: "start_cpus E (before_cpus E h w) = (st1, w1)" by (metis surj_pair)
  obtain st2 hs where a: "ArchInit (host (Env (run_env_of E))) (fw_RegisterInterruptHandler E) (build_of E) (uninit_Status E) (handlers w1) = (st2, hs)"
    by (metis surj_pair)
  obtain st3 x y w3 where p: "install_protocols E st2 (w1\<lparr>handlers := hs\<rparr>) = (st3, x, y, w3)" by (metis prod_cases4)
  from succeeds_CpuInit [OF s(1-4)] c have "\<not> EFI_ERROR st1" by (metis start_cpus_def succeeds_Pair)
  moreover have "\<not> EFI_ERROR st2" by (rule ArchInit_succeeds [OF s(5) a])
  moreover from this have "\<not> EFI_ERROR st3" by (rule install_protocols_succeeds [OF s(6) _ p])
  moreover have "opened_by_driver w3 = opened_by_driver w"
    using arg_cong [OF install_protocols_result(1) [OF p], of opened_by_driver] inert_facts(6) [OF start_cpus_inert [OF c]] by simp
  ultimately show ?thesis by (intro that [of st3 w3]) (simp_all add: EmulatorStart_eq [OF h c a p])
qed

section \<open>Witnesses\<close>

definition example_setup :: "(uc_reg \<Rightarrow> u64, uc_reg \<Rightarrow> u64) uc_setup" where
  "example_setup = \<lparr>uc_open = (\<lambda>a m. (UC_ERR_OK, \<lambda>_. 0)), uc_hook_add = (\<lambda>t cb u. (UC_ERR_OK, u)),
     uc_mmio_map = (\<lambda>a n u. (UC_ERR_OK, u)), uc_mem_map_ptr = (\<lambda>a n p x u. (UC_ERR_OK, u)),
     uc_ctl_exits_enable = (\<lambda>u. (UC_ERR_OK, u)), uc_get_code_gen_buf = (\<lambda>u. (UC_ERR_OK, 0x700000, 0x1000)),
     uc_context_alloc = (\<lambda>u p. (UC_ERR_OK, u)), uc_context_free = UC_ERR_OK, uc_close = UC_ERR_OK\<rparr>"

definition example_boot :: "efi_status \<Rightarrow> cpu_id \<Rightarrow> boot_services" where
  "example_boot st c = \<lparr>AllocatePages = (\<lambda>k n a. (st, 0x40000000)),
     pool_memory = \<lparr>pool_available = True, pages_at = (\<lambda>n. Some (case c of CpuX64 \<Rightarrow> 0x100000 | CpuAArch64 \<Rightarrow> 0x200000))\<rparr>,
     cpu_SetMemoryAttributes = (\<lambda>a n x. EFI_SUCCESS), GetPerformanceCounterProperties = 1000000, uninit = EFI_SUCCESS\<rparr>"

definition example_start :: "efi_status \<Rightarrow> efi_status \<Rightarrow> (uc_reg \<Rightarrow> u64, uc_reg \<Rightarrow> u64) start_env" where
  "example_start st pst = \<lparr>run_env_of = example_run_env, uc_setup_of = example_setup, memory_for = example_boot st,
     memory_for_stack = example_boot st CpuX64, fw_RegisterInterruptHandler = (\<lambda>t b. EFI_SUCCESS),
     fw_InstallProtocolInterface = (\<lambda>P. pst), fw_OpenProtocol = EFI_SUCCESS, uninit_Status = 0\<rparr>"

definition example_fresh :: "(uc_reg \<Rightarrow> u64, uc_reg \<Rightarrow> u64) start_world" where
  "example_fresh =
     \<lparr>mem = (\<lambda>_. 0), hooks = example_hooks True Firmware, UE = (\<lambda>_ _. 0),
      cpus = (\<lambda>c. example_cpu\<lparr>Contexts := 0\<rparr>),
      mImageList = [], Records = (\<lambda>_. example_record), attr_calls = [],
      contexts = example_contexts [] (\<lambda>_. 0) (\<lambda>_. 0),
      RunContextAlloc = (\<lambda>c. (example_ctx_pool [] c)\<lparr>FreeList := [], Config := (Config (example_ctx_pool [] c))\<lparr>ObjectCount := 0\<rparr>\<rparr>),
      mTopContext = None, mEventList = [], EventRecords = (\<lambda>_. undefined), live_records = [],
      perf_now = 0, pending = [], next_frame = 0, mOriginalStack = 0,
      ledger = \<lparr>pool_blocks = 0, page_runs = []\<rparr>, UE_set = (\<lambda>_. False), engine_open = (\<lambda>_. False),
      has_pool = (\<lambda>_. False), uc_hooks = (\<lambda>_. []), uc_maps = (\<lambda>_. []), private_stack = None,
      handlers = ({}, False), installed = [], opened_by_driver = False\<rparr>"

lemma example_fresh: "fresh_driver example_fresh"
  by (simp add: fresh_driver_def no_pools_def ctxs_ok_def pools_ok_def pool_inv_def objs_def allocated_def example_fresh_def
      example_ctx_pool_def example_hooks_def unhooked_def)

lemma example_start_simps [simp]:
  "run_env_of (example_start st pst) = example_run_env" "options (Env example_run_env) = default_build"
  "memory_for (example_start st pst) = example_boot st" "uc_setup_of (example_start st pst) = example_setup"
  "fw_RegisterInterruptHandler (example_start st pst) t b = EFI_SUCCESS" "clears (fw_RegisterInterruptHandler (example_start st pst))"
  "fw_InstallProtocolInterface (example_start st pst) P = pst" "host (Env example_run_env) = MDE_CPU_AARCH64"
  by (simp_all add: example_start_def example_run_env_def example_env_def clears_def)

lemma example_pages: "pages_apart (example_boot st)"
  by (simp add: pages_apart_def example_boot_def)

lemma example_boot_succeeds: "boot_services_succeed (example_boot EFI_SUCCESS c)" "uc_setup_succeeds example_setup"
  by (simp_all add: boot_services_succeed_def example_boot_def uc_setup_succeeds_def example_setup_def)

lemma example_all_succeed: "all_succeed (example_start EFI_SUCCESS EFI_SUCCESS)"
  by (simp add: all_succeed_def example_boot_succeeds) (simp add: default_build_def)

lemma example_hooks_init:
  obtains h where "EfiHooksInit (firmware_cpu example_run_env) 2 (hooks example_fresh) = Some (EFI_SUCCESS, h)"
  using start_hooks [OF example_fresh, of "example_start EFI_SUCCESS EFI_SUCCESS"] example_env_ok by auto



theorem failed_start_breaks_the_next_witness:
  "\<exists>st1 w1 st2 w2. (EmulatorStart (example_start EFI_UNSUPPORTED EFI_SUCCESS) example_fresh :: (unit, _) outcome option) = Some (Done (st1, w1)) \<and>
    (EmulatorStart (example_start EFI_SUCCESS EFI_SUCCESS) w1 :: (unit, _) outcome option) = Some (Done (st2, w2)) \<and> \<not> EFI_ERROR st2 \<and>
    (\<forall>n. call_EnableInterrupt fw_cpu_std n (gCpu_EnableInterrupt (hooks w2)) (hooks w2) = None)"
proof -
  let ?E = "example_start EFI_UNSUPPORTED EFI_SUCCESS" and ?E' = "example_start EFI_SUCCESS EFI_SUCCESS"
  have e: "env_ok (run_env_of ?E)" "env_ok (run_env_of ?E')" "MAU_SUPPORTS_X64_BINS (build_of ?E)"
    "\<And>k n a. EFI_ERROR (fst (AllocatePages (memory_for ?E CpuX64) k n a))"
    by (simp_all add: example_env_ok) (simp_all add: default_build_def example_boot_def)
  from failed_start_breaks_the_next [OF example_fresh e(1,3,4)] obtain st1 w1 where
    w1: "(EmulatorStart ?E example_fresh :: (unit, _) outcome option) = Some (Done (st1, w1))" "hooked (hooks w1)"
    and nxt: "\<And>E' st' w2 n. env_ok (run_env_of E') \<Longrightarrow> \<not> EFI_ERROR st' \<Longrightarrow>
      (EmulatorStart E' w1 :: (unit, _) outcome option) = Some (Done (st', w2)) \<Longrightarrow>
      call_EnableInterrupt (firmware_cpu (run_env_of E')) n (gCpu_EnableInterrupt (hooks w2)) (hooks w2) = None"
    by blast
  have "\<exists>h. EfiHooksInit (firmware_cpu (run_env_of ?E')) 2 (hooks w1) = Some (EFI_SUCCESS, h)"
    using w1(2) by (simp add: EfiHooksInit_def hooked_def numeral_2_eq_2 EfiHooksCpuGetInterruptState_def example_run_env_def fw_cpu_std_def Let_def)
  then obtain h where "EfiHooksInit (firmware_cpu (run_env_of ?E')) 2 (hooks w1) = Some (EFI_SUCCESS, h)" by blast
  from EmulatorStart_succeeds [OF example_all_succeed this] obtain st2 w2 where
    w2: "(EmulatorStart ?E' w1 :: (unit, _) outcome option) = Some (Done (st2, w2))" "\<not> EFI_ERROR st2" by blast
  with nxt [OF e(2)] w1(1) show ?thesis by (auto simp: example_run_env_def)
qed


end
