(* ===== verification/Get_Opt.thy ===== *)
theory Get_Opt
  imports Prelude
begin

text \<open>
  MauUtilsLib/Utils.c: GetOpt, the option parser of the applications, and
  GetShellArgcArgv.  The loop all callers write around GetOpt is proved to end
  and to give back the options of a command line that was written out from them.
\<close>

section \<open>GetOpt\<close>

text \<open>
  A string of CHAR16 is the list of its characters before the terminator;
  \<open>char_at\<close> reads it, the terminator included.  Argc is the length of
  Argv.  A pointer into a string is the rest of that string.
\<close>

type_synonym wstring = "u16 list"

definition char_at :: "wstring \<Rightarrow> nat \<Rightarrow> u16" where
  "char_at s i = (if i < length s then s ! i else 0)"

abbreviation dash :: u16 where "dash \<equiv> 0x2D"

record GET_OPT_CONTEXT =
  Opt :: u16
  OptArg :: "wstring option"
  OptIndex :: nat

definition INIT_GET_OPT_CONTEXT :: GET_OPT_CONTEXT where
  "INIT_GET_OPT_CONTEXT = \<lparr>Opt = 0, OptArg = None, OptIndex = 1\<rparr>"

text \<open>The argument of an option that takes one: the value of OptArg and of SkipCount.\<close>

definition option_argument :: "wstring list \<Rightarrow> nat \<Rightarrow> wstring option \<times> nat" where
  "option_argument Argv i =
     (if char_at (Argv ! i) 2 \<noteq> 0 then (Some (drop 2 (Argv ! i)), 1)
      else if i + 1 < length Argv \<and> char_at (Argv ! (i + 1)) 0 \<noteq> dash then (Some (Argv ! (i + 1)), 2)
      else (None, 1))"

definition GetOpt :: "wstring list \<Rightarrow> wstring option \<Rightarrow> GET_OPT_CONTEXT \<Rightarrow> efi_status \<times> GET_OPT_CONTEXT" where
  "GetOpt Argv OptionsWithArgs Context =
     (let i = OptIndex Context
      in if i \<ge> length Argv \<or> char_at (Argv ! i) 0 \<noteq> dash then (EFI_END_OF_MEDIA, Context)
         else if char_at (Argv ! i) 1 = 0 then (EFI_END_OF_MEDIA, Context\<lparr>OptIndex := i + 1\<rparr>)
         else
           let Context = Context\<lparr>Opt := char_at (Argv ! i) 1\<rparr>;
               takes_arg = (case OptionsWithArgs of None \<Rightarrow> False | Some os \<Rightarrow> Opt Context \<in> set os);
               (arg, SkipCount) = (if takes_arg then option_argument Argv i else (OptArg Context, 1))
           in (EFI_SUCCESS, Context\<lparr>OptArg := arg, OptIndex := i + SkipCount\<rparr>))"

text \<open>The two protocols that hold the arguments of a shell application, if they can be opened.\<close>

definition GetShellArgcArgv ::
  "efi_status \<times> wstring list \<Rightarrow> efi_status \<times> wstring list \<Rightarrow> efi_status \<times> wstring list option" where
  "GetShellArgcArgv ShellParameters ShellInterface =
     (if \<not> EFI_ERROR (fst ShellParameters) then (EFI_SUCCESS, Some (snd ShellParameters))
      else if \<not> EFI_ERROR (fst ShellInterface) then (EFI_SUCCESS, Some (snd ShellInterface))
      else (EFI_NOT_FOUND, None))"

section \<open>The loop of the callers\<close>

lemma EFI_END_OF_MEDIA_error [simp]: "EFI_END_OF_MEDIA \<noteq> EFI_SUCCESS"
  by (rule EFI_ERROR_not_success) simp

text \<open>Every option consumes at least one argument, and never one that is not there.\<close>

lemma GetOpt_progress:
  assumes "GetOpt Argv os c = (EFI_SUCCESS, c')"
  shows "OptIndex c < OptIndex c' \<and> OptIndex c' \<le> length Argv"
  using assms EFI_END_OF_MEDIA_error
  by (auto simp: GetOpt_def option_argument_def Let_def split: if_splits prod.splits)

text \<open>while (GetOpt (...) == EFI\_SUCCESS), collecting the options with their arguments.\<close>

function get_options :: "wstring list \<Rightarrow> wstring option \<Rightarrow> GET_OPT_CONTEXT \<Rightarrow> (u16 \<times> wstring option) list \<times> GET_OPT_CONTEXT" where
  "get_options Argv os c =
     (case GetOpt Argv os c of (Status, c1) \<Rightarrow>
        if Status = EFI_SUCCESS then
          (case get_options Argv os c1 of (rest, c2) \<Rightarrow> ((Opt c1, OptArg c1) # rest, c2))
        else ([], c1))"
  by pat_completeness auto

termination
  by (relation "measure (\<lambda>(Argv, os, c). length Argv - OptIndex c)") (auto dest!: sym [of "(_, _)"] GetOpt_progress)

declare get_options.simps [simp del]

section \<open>Writing options out\<close>

text \<open>An option without argument, with its argument attached, or with the argument as the next word.\<close>

datatype arg_form = NoArg | Attached wstring | Separate wstring

fun write_option :: "u16 \<times> arg_form \<Rightarrow> wstring list" where
  "write_option (x, NoArg) = [[dash, x]]"
| "write_option (x, Attached a) = [dash # x # a]"
| "write_option (x, Separate a) = [[dash, x], a]"

definition write_options :: "(u16 \<times> arg_form) list \<Rightarrow> wstring list" where
  "write_options xs = concat (map write_option xs)"

fun well_formed_option :: "wstring \<Rightarrow> u16 \<times> arg_form \<Rightarrow> bool" where
  "well_formed_option os (x, NoArg) \<longleftrightarrow> x \<noteq> 0 \<and> x \<notin> set os"
| "well_formed_option os (x, Attached a) \<longleftrightarrow> x \<noteq> 0 \<and> x \<in> set os \<and> a \<noteq> [] \<and> hd a \<noteq> 0"
| "well_formed_option os (x, Separate a) \<longleftrightarrow> x \<noteq> 0 \<and> x \<in> set os \<and> (a = [] \<or> hd a \<noteq> dash)"

fun argument_of :: "u16 \<times> arg_form \<Rightarrow> wstring option" where
  "argument_of (x, NoArg) = None"
| "argument_of (x, Attached a) = Some a"
| "argument_of (x, Separate a) = Some a"

text \<open>The options that end a list: the end of the line, a word that is no option, or a lone dash.\<close>

definition skip_dash :: "wstring list \<Rightarrow> nat" where
  "skip_dash rest = (if rest \<noteq> [] \<and> hd rest = [dash] then 1 else 0)"

lemma nth_middle [simp]: "(pre @ x # rest) ! length pre = x" "(pre @ x # y # rest) ! Suc (length pre) = y"
  by (simp_all add: nth_append)

lemma GetOpt_end:
  assumes "OptIndex c = length pre" "rest = [] \<or> char_at (hd rest) 0 \<noteq> dash \<or> hd rest = [dash]"
  shows "GetOpt (pre @ rest) os c = (EFI_END_OF_MEDIA, c\<lparr>OptIndex := length pre + skip_dash rest\<rparr>)"
proof -
  have same: "c\<lparr>OptIndex := length pre\<rparr> = c" using assms(1) by (cases c) simp
  show ?thesis
  proof (cases "rest = [] \<or> char_at (hd rest) 0 \<noteq> dash")
    case True
    moreover from True have "skip_dash rest = 0" by (auto simp: skip_dash_def char_at_def)
    ultimately show ?thesis using assms(1) same by (cases rest) (simp_all add: GetOpt_def)
  next
    case False
    with assms(2) obtain ws where "rest = [dash] # ws" by (cases rest) auto
    with assms(1) show ?thesis by (simp add: GetOpt_def skip_dash_def char_at_def)
  qed
qed

lemma GetOpt_option:
  assumes "OptIndex c = length pre" "well_formed_option os (x, f)"
  shows "\<exists>c'. GetOpt (pre @ write_option (x, f) @ rest) (Some os) c = (EFI_SUCCESS, c') \<and>
    OptIndex c' = length (pre @ write_option (x, f)) \<and> Opt c' = x \<and> (x \<in> set os \<longrightarrow> OptArg c' = argument_of (x, f))"
proof (cases f)
  case NoArg
  with assms show ?thesis by (simp add: GetOpt_def char_at_def Let_def)
next
  case (Attached a)
  with assms show ?thesis by (cases a) (simp_all add: GetOpt_def char_at_def Let_def option_argument_def)
next
  case (Separate a)
  with assms show ?thesis by (cases a) (auto simp add: GetOpt_def char_at_def Let_def option_argument_def)
qed

lemma written_options:
  assumes "list_all (well_formed_option os) xs"
    and "rest = [] \<or> char_at (hd rest) 0 \<noteq> dash \<or> hd rest = [dash]"
  shows "\<exists>ys c. get_options (name # write_options xs @ rest) (Some os) INIT_GET_OPT_CONTEXT = (ys, c) \<and>
    map fst ys = map fst xs \<and>
    (\<forall>i < length xs. fst (xs ! i) \<in> set os \<longrightarrow> snd (ys ! i) = argument_of (xs ! i)) \<and>
    OptIndex c = 1 + length (write_options xs) + skip_dash rest"
proof -
  have "\<exists>ys c'. get_options (pre @ write_options xs @ rest) (Some os) c = (ys, c') \<and> map fst ys = map fst xs \<and>
      (\<forall>i < length xs. fst (xs ! i) \<in> set os \<longrightarrow> snd (ys ! i) = argument_of (xs ! i)) \<and>
      OptIndex c' = length pre + length (write_options xs) + skip_dash rest"
    if "OptIndex c = length pre" for pre c
    using assms(1) that
  proof (induction xs arbitrary: pre c)
    case Nil
    then show ?case
      using GetOpt_end [OF Nil(2) assms(2), of "Some os"] by (simp add: write_options_def get_options.simps [of _ _ c])
  next
    case (Cons x xs)
    obtain o1 f where x: "x = (o1, f)" by (cases x)
    have wf: "well_formed_option os (o1, f)" "list_all (well_formed_option os) xs" using Cons.prems(1) x by simp_all
    from GetOpt_option [OF Cons.prems(2) wf(1), of "write_options xs @ rest"] obtain c1 where
      c1: "GetOpt (pre @ write_option x @ write_options xs @ rest) (Some os) c = (EFI_SUCCESS, c1)"
        "OptIndex c1 = length (pre @ write_option x)" "Opt c1 = o1" "o1 \<in> set os \<longrightarrow> OptArg c1 = argument_of x"
      unfolding x by blast
    from Cons.IH [OF wf(2) c1(2)] obtain ys c2 where
      ih: "get_options (pre @ write_option x @ write_options xs @ rest) (Some os) c1 = (ys, c2)" "map fst ys = map fst xs"
        "\<forall>i < length xs. fst (xs ! i) \<in> set os \<longrightarrow> snd (ys ! i) = argument_of (xs ! i)"
        "OptIndex c2 = length (pre @ write_option x) + length (write_options xs) + skip_dash rest" by auto
    have "get_options (pre @ write_options (x # xs) @ rest) (Some os) c = ((o1, OptArg c1) # ys, c2)"
      using c1(1,3) ih(1) by (simp add: get_options.simps [of _ _ c] write_options_def)
    moreover have "\<forall>i < length (x # xs). fst ((x # xs) ! i) \<in> set os \<longrightarrow> snd (((o1, OptArg c1) # ys) ! i) = argument_of ((x # xs) ! i)"
      using c1(4) ih(3) x by (auto simp: nth_Cons split: nat.split)
    ultimately show ?case using ih(2,4) x by (simp add: write_options_def)
  qed
  from this [of INIT_GET_OPT_CONTEXT "[name]"] show ?thesis by (simp add: INIT_GET_OPT_CONTEXT_def)
qed

text \<open>
  C37: the loop around GetOpt ends, and gives back exactly the options, in order,
  of a command line that was written from them, each with its argument (attached
  or as the next word) when it takes one; it stops at the first word that is no
  option, past a lone dash.
\<close>

theorem GetOpt_reads_written_options:
  assumes "list_all (well_formed_option os) xs"
    and "rest = [] \<or> char_at (hd rest) 0 \<noteq> dash \<or> hd rest = [dash]"
  shows "\<exists>ys c. get_options (name # write_options xs @ rest) (Some os) INIT_GET_OPT_CONTEXT = (ys, c) \<and>
    map fst ys = map fst xs \<and>
    (\<forall>i < length xs. fst (xs ! i) \<in> set os \<longrightarrow> snd (ys ! i) = argument_of (xs ! i)) \<and>
    OptIndex c = 1 + length (write_options xs) + skip_dash rest"
  using assms by (rule written_options)

theorem GetOpt_reads_written_options_witness:
  "\<exists>ys c. get_options [[0x61], [0x2D, 0x6C], [0x2D, 0x70, 0x31], [0x2D, 0x70], [0x32], [0x2D]] (Some [0x70]) INIT_GET_OPT_CONTEXT = (ys, c) \<and>
    map fst ys = [0x6C, 0x70, 0x70] \<and> snd (ys ! 1) = Some [0x31] \<and> snd (ys ! 2) = Some [0x32] \<and> OptIndex c = 6"
proof -
  have "list_all (well_formed_option [0x70]) [(0x6C, NoArg), (0x70, Attached [0x31]), (0x70, Separate [0x32])]" by simp
  from GetOpt_reads_written_options [OF this, of "[[dash]]" "[0x61]"] show ?thesis
    by (auto simp: write_options_def skip_dash_def All_less_Suc numeral_3_eq_3 numeral_2_eq_2)
qed

end
