(* ===== verification/Op_Rom.thy ===== *)
theory Op_Rom
  imports Get_Opt
begin

text \<open>
  LoadOpRom.c: the walk over the images of a PCI option ROM, the check of an
  image, loading and starting it, and the entry point.  The walk may not end, so
  it is a partial function; its reads of the ROM are recorded in its result.
\<close>

section \<open>The contents of a ROM\<close>

text \<open>
  The fields of the structures in IndustryStandard/Pci.h, which is not part of
  the repository, at an address: of the header of an image (in its generic, its
  EFI and its legacy form), and of the PCI data structure; and their sizes.
\<close>

record rom =
  hdr_Signature :: "u64 \<Rightarrow> u16"
  hdr_PcirOffset :: "u64 \<Rightarrow> u16"
  hdr_InitializationSize :: "u64 \<Rightarrow> u16"
  hdr_EfiMachineType :: "u64 \<Rightarrow> u16"
  hdr_CompressionType :: "u64 \<Rightarrow> u16"
  hdr_EfiImageHeaderOffset :: "u64 \<Rightarrow> u16"
  hdr_Size512 :: "u64 \<Rightarrow> u8"
  pcir_Signature :: "u64 \<Rightarrow> u32"
  pcir_ImageLength :: "u64 \<Rightarrow> u16"
  pcir_CodeType :: "u64 \<Rightarrow> u8"
  pcir_Indicator :: "u64 \<Rightarrow> u8"
  sizeof_header :: u64
  sizeof_PCI_DATA_STRUCTURE :: u64

abbreviation PCI_EXPANSION_ROM_HEADER_SIGNATURE :: u16 where "PCI_EXPANSION_ROM_HEADER_SIGNATURE \<equiv> 0xAA55"
abbreviation PCI_DATA_STRUCTURE_SIGNATURE :: u32 where "PCI_DATA_STRUCTURE_SIGNATURE \<equiv> 0x52494350"
abbreviation PCI_CODE_TYPE_PCAT_IMAGE :: u8 where "PCI_CODE_TYPE_PCAT_IMAGE \<equiv> 0"
abbreviation PCI_CODE_TYPE_EFI_IMAGE :: u8 where "PCI_CODE_TYPE_EFI_IMAGE \<equiv> 3"

section \<open>ParseImage and ParseImages\<close>

definition ParseImage :: "rom \<Rightarrow> u16 \<Rightarrow> u64 \<Rightarrow> u64 \<Rightarrow> u64 \<Rightarrow> bool" where
  "ParseImage v HOST_MACHINE_TYPE RomHeader Length Pcir =
     (if pcir_CodeType v Pcir \<noteq> PCI_CODE_TYPE_EFI_IMAGE then False
      else
        let InitializationSize = ucast (hdr_InitializationSize v RomHeader) * 512
        in if hdr_EfiMachineType v RomHeader = HOST_MACHINE_TYPE
           then \<not> (Length < InitializationSize \<or> ucast (hdr_EfiImageHeaderOffset v RomHeader) > InitializationSize)
           else False)"

text \<open>The length of an image in units of 512 bytes.\<close>

definition image_length :: "rom \<Rightarrow> u64 \<Rightarrow> u64 \<Rightarrow> u64" where
  "image_length v RomHeader RomPcir =
     (let ImageLength = ucast (pcir_ImageLength v RomPcir)
      in if pcir_CodeType v RomPcir = PCI_CODE_TYPE_PCAT_IMAGE
         then max ImageLength (ucast (hdr_Size512 v RomHeader)) else ImageLength)"

text \<open>What the walk does: it reads a header, a PCI data structure, or gives an image to LoadImage.\<close>

datatype rom_event = ReadHeader u64 | ReadPcir u64 | LoadRom u64

text \<open>
  The body of the do-while loop: what it does, and the Indicator and RomHeader it
  goes to the condition with (also by \<open>continue\<close>), or None for break
  and return.
\<close>

definition ParseImages_body ::
  "rom \<Rightarrow> u16 \<Rightarrow> bool \<Rightarrow> u64 \<Rightarrow> u8 \<Rightarrow> u64 \<Rightarrow> rom_event list \<times> (u8 \<times> u64) option" where
  "ParseImages_body v host mOnlyList rom_end Indicator RomHeader =
     (if hdr_Signature v RomHeader \<noteq> PCI_EXPANSION_ROM_HEADER_SIGNATURE
      then ([ReadHeader RomHeader], Some (Indicator, RomHeader + 512))
      else
        let RomPcir = RomHeader + ucast (hdr_PcirOffset v RomHeader)
        in if hdr_PcirOffset v RomHeader = 0 \<or> hdr_PcirOffset v RomHeader AND 3 \<noteq> 0 \<or>
              RomPcir + sizeof_PCI_DATA_STRUCTURE v > rom_end
           then ([ReadHeader RomHeader], None)
           else if pcir_Signature v RomPcir \<noteq> PCI_DATA_STRUCTURE_SIGNATURE
           then ([ReadHeader RomHeader, ReadPcir RomPcir], None)
           else
             let ImageLength = image_length v RomHeader RomPcir
             in if ParseImage v host RomHeader (ImageLength * 512) RomPcir \<and> \<not> mOnlyList
                then ([ReadHeader RomHeader, ReadPcir RomPcir, LoadRom RomHeader], None)
                else ([ReadHeader RomHeader, ReadPcir RomPcir],
                      Some (pcir_Indicator v RomPcir, RomHeader + ImageLength * 512)))"

partial_function (option) ParseImages_loop ::
  "rom \<Rightarrow> u16 \<Rightarrow> bool \<Rightarrow> u64 \<Rightarrow> u64 \<Rightarrow> u8 \<Rightarrow> u64 \<Rightarrow> rom_event list option" where
  "ParseImages_loop v host mOnlyList RomImage RomSize Indicator RomHeader =
     (case ParseImages_body v host mOnlyList (RomImage + RomSize) Indicator RomHeader of
        (ev, None) \<Rightarrow> Some ev
      | (ev, Some (Indicator, RomHeader)) \<Rightarrow>
          if RomHeader < RomImage + RomSize \<and> Indicator AND 0x80 = 0
          then Option.bind (ParseImages_loop v host mOnlyList RomImage RomSize Indicator RomHeader) (\<lambda>es. Some (ev @ es))
          else Some ev)"

text \<open>RomImage is NULL when the device has no ROM mapped.\<close>

definition ParseImages :: "rom \<Rightarrow> u16 \<Rightarrow> bool \<Rightarrow> u64 \<Rightarrow> u64 \<Rightarrow> rom_event list option" where
  "ParseImages v host mOnlyList RomImage RomSize =
     (if RomImage = 0 then Some [] else ParseImages_loop v host mOnlyList RomImage RomSize 0 RomImage)"

section \<open>LoadImage\<close>

text \<open>The answers of the firmware to the calls of LoadImage, in their order.\<close>

record load_services =
  LocateProtocol_Decompress :: efi_status
  Decompress_GetInfo :: "efi_status \<times> u32 \<times> u32"
  Destination_address :: u64
  Scratch_available :: bool
  Decompress_Decompress :: efi_status
  AppendDevicePathNode_available :: bool
  gBS_LoadImage :: efi_status
  gBS_StartImage :: efi_status

text \<open>AllocateZeroPool gives NULL when there is no memory.\<close>

abbreviation Destination_available :: "load_services \<Rightarrow> bool" where "Destination_available F \<equiv> Destination_address F \<noteq> 0"

datatype pool_block = Destination | Scratch | DevicePath

record load_state =
  held :: "pool_block list"
  freed_NULL :: bool
  loaded :: bool
  connected :: bool
  image_buffer :: "(u64 \<times> u64) option"

definition free_block :: "pool_block \<Rightarrow> load_state \<Rightarrow> load_state" where
  "free_block b s = s\<lparr>held := remove1 b (held s)\<rparr>"

text \<open>The memory LoadImage passes on when the image is not compressed: its address and its size.\<close>

definition rom_image :: "rom \<Rightarrow> u64 \<Rightarrow> u64 \<times> u64" where
  "rom_image v RomHeader =
     (let off = ucast (hdr_EfiImageHeaderOffset v RomHeader);
          InitializationSize = ucast (hdr_InitializationSize v RomHeader) * 512
      in (RomHeader + off, InitializationSize - off))"

text \<open>The decompression: None when LoadImage returns from it.\<close>

definition decompress :: "load_services \<Rightarrow> load_state \<Rightarrow> bool \<times> load_state" where
  "decompress F s =
     (if EFI_ERROR (LocateProtocol_Decompress F) then (False, s)
      else if EFI_ERROR (fst (Decompress_GetInfo F)) then (False, s)
      else if \<not> Destination_available F then (False, s)
      else
        let s = s\<lparr>held := Destination # held s\<rparr>
        in if \<not> Scratch_available F then (False, s\<lparr>freed_NULL := True\<rparr>)
           else
             let s = free_block Scratch (s\<lparr>held := Scratch # held s\<rparr>)
             in if EFI_ERROR (Decompress_Decompress F) then (False, free_block Destination s) else (True, s))"

text \<open>From AppendDevicePathNode to the label done.\<close>

definition start_rom_image :: "load_services \<Rightarrow> bool \<Rightarrow> u64 \<times> u64 \<Rightarrow> load_state \<Rightarrow> load_state" where
  "start_rom_image F mNoConnect Img s =
     (if \<not> AppendDevicePathNode_available F then s
      else
        let s = s\<lparr>held := DevicePath # held s, image_buffer := Some Img\<rparr>;
            Status = gBS_LoadImage F;
            s = s\<lparr>loaded := (\<not> EFI_ERROR Status \<or> Status = EFI_SECURITY_VIOLATION)\<rparr>
        in if EFI_ERROR Status then (if Status = EFI_SECURITY_VIOLATION then s\<lparr>loaded := False\<rparr> else s)
           else if EFI_ERROR (gBS_StartImage F) then s\<lparr>loaded := False\<rparr>
           else if mNoConnect then s else s\<lparr>connected := True\<rparr>)"

definition LoadImage :: "rom \<Rightarrow> load_services \<Rightarrow> bool \<Rightarrow> u64 \<Rightarrow> load_state \<Rightarrow> load_state" where
  "LoadImage v F mNoConnect RomHeader s =
     (let compressed = (hdr_CompressionType v RomHeader \<noteq> 0);
          (ready, s) = (if compressed then decompress F s else (True, s));
          Img = (if compressed then (Destination_address F, ucast (fst (snd (Decompress_GetInfo F)))) else rom_image v RomHeader)
      in if \<not> ready then s
         else
           let s = start_rom_image F mNoConnect Img s;
               s = (if compressed then free_block Destination s else s)
           in if AppendDevicePathNode_available F then free_block DevicePath s else s)"

section \<open>The entry point\<close>

text \<open>A PCI device, and what the firmware answers for it.\<close>

type_synonym pci_location = "u64 \<times> u64 \<times> u64 \<times> u64"

record pci_device =
  HandleProtocol_PciIo :: efi_status
  HandleProtocol_DevicePath :: efi_status
  PciIo_GetLocation :: "efi_status \<times> pci_location"
  PciIo_Rom :: rom
  PciIo_RomImage :: u64
  PciIo_RomSize :: u64
  services_for :: load_services

text \<open>The call of LoadImage with which a walk ends when it has found an image.\<close>

fun load_event :: "pci_device \<Rightarrow> bool \<Rightarrow> rom_event \<Rightarrow> load_state \<Rightarrow> load_state" where
  "load_event d mNoConnect (LoadRom RomHeader) s = LoadImage (PciIo_Rom d) (services_for d) mNoConnect RomHeader s"
| "load_event d mNoConnect _ s = s"

text \<open>Nothing is held before; the result is what the walk read, and the state LoadImage leaves.\<close>

definition no_image :: load_state where
  "no_image = \<lparr>held = [], freed_NULL = False, loaded = False, connected = False, image_buffer = None\<rparr>"

definition AnalyzeROM :: "u16 \<Rightarrow> bool \<Rightarrow> bool \<Rightarrow> pci_device \<Rightarrow> (rom_event list \<times> load_state) option" where
  "AnalyzeROM host mOnlyList mNoConnect d =
     (if PciIo_RomSize d = 0 then Some ([], no_image)
      else map_option (\<lambda>es. (es, fold (load_event d mNoConnect) es no_image))
             (ParseImages (PciIo_Rom d) host mOnlyList (PciIo_RomImage d) (PciIo_RomSize d)))"

text \<open>The for loop over the devices: Status, PciIndex, and the devices analysed with what was done.\<close>

fun device_loop ::
  "u16 \<Rightarrow> bool \<Rightarrow> bool \<Rightarrow> bool \<Rightarrow> pci_location \<Rightarrow> pci_device list \<Rightarrow> nat \<Rightarrow> efi_status \<Rightarrow>
   (efi_status \<times> nat \<times> (nat \<times> rom_event list \<times> load_state) list) option" where
  "device_loop host only noc AllDevs want [] PciIndex Status = Some (Status, PciIndex, [])"
| "device_loop host only noc AllDevs want (d # ds) PciIndex Status =
     (if HandleProtocol_PciIo d \<noteq> EFI_SUCCESS then device_loop host only noc AllDevs want ds (PciIndex + 1) (HandleProtocol_PciIo d)
      else if HandleProtocol_DevicePath d \<noteq> EFI_SUCCESS then
        device_loop host only noc AllDevs want ds (PciIndex + 1) (HandleProtocol_DevicePath d)
      else if fst (PciIo_GetLocation d) \<noteq> EFI_SUCCESS then
        device_loop host only noc AllDevs want ds (PciIndex + 1) (fst (PciIo_GetLocation d))
      else if \<not> AllDevs \<and> snd (PciIo_GetLocation d) \<noteq> want then
        device_loop host only noc AllDevs want ds (PciIndex + 1) EFI_SUCCESS
      else Option.bind (AnalyzeROM host only noc d)
        (\<lambda>es. if \<not> AllDevs then Some (EFI_SUCCESS, PciIndex, [(PciIndex, es)])
              else Option.bind (device_loop host only noc AllDevs want ds (PciIndex + 1) EFI_SUCCESS)
                (\<lambda>(Status, n, done). Some (Status, n, (PciIndex, es) # done))))"

text \<open>
  The options -l and -n; no operand selects all devices, four operands one.
  AllDevs is not set in the second case: \<open>uninit_AllDevs\<close> is what it holds
  then.  StrHexToUintn is a parameter.  The difference of Argc and OptIndex is
  taken as the unsigned one.
\<close>

definition LoadOpRom_EntryPoint ::
  "u16 \<Rightarrow> (wstring \<Rightarrow> u64) \<Rightarrow> bool \<Rightarrow> efi_status \<times> wstring list option \<Rightarrow> efi_status \<times> pci_device list \<Rightarrow>
   (efi_status \<times> (nat \<times> rom_event list \<times> load_state) list) option" where
  "LoadOpRom_EntryPoint host StrHexToUintn uninit_AllDevs shell_args handles =
     (case shell_args of
        (Status, None) \<Rightarrow> Some (EFI_ABORTED, [])
      | (Status, Some Argv) \<Rightarrow>
          if Status \<noteq> EFI_SUCCESS then Some (EFI_ABORTED, [])
          else
            let (opts, ctx) = get_options Argv (Some []) INIT_GET_OPT_CONTEXT;
                only = (0x6C \<in> fst ` set opts);
                noc = (0x6E \<in> fst ` set opts);
                operands = (of_nat (length Argv) - of_nat (OptIndex ctx) :: u64);
                arg = (\<lambda>i. StrHexToUintn (Argv ! (OptIndex ctx + i)))
            in if \<not> fst ` set opts \<subseteq> {0x6C, 0x6E} then Some (EFI_INVALID_PARAMETER, [])
               else if operands \<noteq> 0 \<and> operands \<noteq> 4 then Some (EFI_INVALID_PARAMETER, [])
               else
                 let AllDevs = (if operands = 0 then True else uninit_AllDevs);
                     want = (if operands = 0 then (- 1, - 1, - 1, - 1) else (arg 0, arg 1, arg 2, arg 3))
                 in if fst handles \<noteq> EFI_SUCCESS then Some (EFI_SUCCESS, [])
                    else Option.bind (device_loop host only noc AllDevs want (snd handles) 0 (fst handles))
                      (\<lambda>(Status, PciIndex, analysed).
                         Some (if \<not> AllDevs \<and> PciIndex = length (snd handles) then EFI_NOT_FOUND else Status, analysed)))"

section \<open>One turn of the loop\<close>

lemma unat_ucast64: "unat (ucast (x :: u16) :: u64) < 2 ^ 16" "unat (ucast (y :: u8) :: u64) < 2 ^ 16"
proof -
  have "unat x < 2 ^ 16" "unat y < 2 ^ 8"
    using unsigned_less [where 'a = nat and w = x] unsigned_less [where 'a = nat and w = y] by simp_all
  then show "unat (ucast x :: u64) < 2 ^ 16" "unat (ucast y :: u64) < 2 ^ 16"
    by (simp_all add: unsigned_ucast_eq take_bit_nat_eq_self)
qed

lemma bounded_length: "unat (image_length v h p) < 2 ^ 16"
  using unat_ucast64 by (simp add: image_length_def Let_def max_def)

text \<open>The next header is strictly further on, by a multiple of 512.\<close>

lemma next_header_step:
  assumes "ParseImages_body v host only limit ind h = (ev, Some (ind', h'))"
    and "image_length v h (h + ucast (hdr_PcirOffset v h)) \<noteq> 0" "unat h + 2 ^ 25 \<le> 2 ^ 64"
  shows "\<exists>k > 0. unat h' = unat h + 512 * k"
proof -
  let ?n = "image_length v h (h + ucast (hdr_PcirOffset v h))"
  have n: "unat ?n < 2 ^ 16" "0 < unat ?n" using bounded_length assms(2) by (auto simp: unat_gt_0)
  have "unat (?n * 512) = unat ?n * 512"
    using n(1) by (simp add: unat_word_ariths)
  moreover from this n have "unat (h + ?n * 512) = unat h + unat (?n * 512)"
    using assms(3) by (intro unat_add_lt) simp
  moreover have "unat (h + 512) = unat h + 512"
    using assms(3) unat_add_lt [of h 512] by simp
  moreover have "h' = h + 512 \<or> h' = h + ?n * 512"
    using assms(1) by (auto simp: ParseImages_body_def Let_def split: if_splits)
  ultimately show ?thesis
  proof (elim disjE)
    assume "h' = h + 512" and e: "unat (h + 512) = unat h + 512"
    then show ?thesis by (intro exI [of _ 1]) simp
  next
    assume "h' = h + ?n * 512" "unat (?n * 512) = unat ?n * 512" "unat (h + ?n * 512) = unat h + unat (?n * 512)"
    then show ?thesis using n(2) by (intro exI [of _ "unat ?n"]) simp
  qed
qed

definition in_rom :: "u64 \<Rightarrow> u64 \<Rightarrow> u64 \<Rightarrow> u64 \<Rightarrow> bool" where
  "in_rom I S a n \<longleftrightarrow> unat I \<le> unat a \<and> unat a + unat n \<le> unat I + unat S"

text \<open>An image that is loaded: the memory handed on lies in the length its data structure claims.\<close>

definition in_claimed_length :: "rom \<Rightarrow> u64 \<Rightarrow> bool" where
  "in_claimed_length v h \<longleftrightarrow>
     (case rom_image v h of (a, n) \<Rightarrow>
        unat (a - h) + unat n \<le> unat (image_length v h (h + ucast (hdr_PcirOffset v h)) * 512))"

fun event_ok :: "rom \<Rightarrow> u64 \<Rightarrow> u64 \<Rightarrow> rom_event \<Rightarrow> bool" where
  "event_ok v I S (ReadHeader h) = in_rom I S h (sizeof_header v)"
| "event_ok v I S (ReadPcir p) = in_rom I S p (sizeof_PCI_DATA_STRUCTURE v)"
| "event_ok v I S (LoadRom h) = in_claimed_length v h"

lemma ParseImage_in_claimed_length:
  assumes "ParseImage v host h (image_length v h (h + ucast (hdr_PcirOffset v h)) * 512) p"
  shows "in_claimed_length v h"
proof -
  let ?i = "ucast (hdr_InitializationSize v h) * 512 :: u64" and ?o = "ucast (hdr_EfiImageHeaderOffset v h) :: u64"
  have "?i \<le> image_length v h (h + ucast (hdr_PcirOffset v h)) * 512" "?o \<le> ?i"
    using assms by (auto simp: ParseImage_def Let_def split: if_splits)
  moreover from this(2) have "unat ?o + unat (?i - ?o) = unat ?i"
    by (simp add: unat_diff_le word_le_nat_alt)
  ultimately show ?thesis
    by (simp add: in_claimed_length_def rom_image_def Let_def word_le_nat_alt)
qed

lemma events_at_ok:
  assumes "512 * k + unat I = unat h" "unat S = 512 * m" "k < m" "sizeof_header v \<le> 512" "sizeof_PCI_DATA_STRUCTURE v \<le> 512"
    and "unat I + unat S + 2 ^ 25 \<le> 2 ^ 64"
  shows "list_all (event_ok v I S) (fst (ParseImages_body v host only (I + S) ind h))"
proof -
  let ?p = "h + ucast (hdr_PcirOffset v h)"
  have h: "unat h + 512 \<le> unat I + unat S" using assms(1-3) by simp
  have IS: "unat (I + S) = unat I + unat S" by (rule unat_add_lt) (use assms(6) in simp)
  have "event_ok v I S (ReadHeader h)"
    using assms(1,4) h by (simp add: in_rom_def word_le_nat_alt)
  moreover have "event_ok v I S (ReadPcir ?p)" if "\<not> ?p + sizeof_PCI_DATA_STRUCTURE v > I + S"
  proof -
    have o: "unat (ucast (hdr_PcirOffset v h) :: u64) < 2 ^ 16" by (rule unat_ucast64)
    have "unat ?p = unat h + unat (ucast (hdr_PcirOffset v h) :: u64)"
      by (rule unat_add_lt) (use o h assms(6) in simp)
    moreover from this have "unat (?p + sizeof_PCI_DATA_STRUCTURE v) = unat ?p + unat (sizeof_PCI_DATA_STRUCTURE v)"
      using o h assms(5,6) by (intro unat_add_lt) (simp add: word_le_nat_alt)
    ultimately show ?thesis using that assms(1) IS by (simp add: in_rom_def word_less_nat_alt)
  qed
  ultimately show ?thesis
    using ParseImage_in_claimed_length [of v host h ?p] by (simp add: ParseImages_body_def Let_def)
qed

section \<open>Properties\<close>


text \<open>
  C35: a BIOS, unknown or unsupported image that claims the length 0 and is not
  marked as the last one makes the walk read the same header for ever.
\<close>

theorem ParseImages_hangs_on_zero_length:
  fixes v :: rom and RomImage :: u64
  defines "p \<equiv> RomImage + ucast (hdr_PcirOffset v RomImage)"
  assumes "RomImage \<noteq> 0" "RomImage < RomImage + RomSize"
    and "hdr_Signature v RomImage = PCI_EXPANSION_ROM_HEADER_SIGNATURE"
    and "hdr_PcirOffset v RomImage \<noteq> 0" "hdr_PcirOffset v RomImage AND 3 = 0"
    and "p + sizeof_PCI_DATA_STRUCTURE v \<le> RomImage + RomSize" "pcir_Signature v p = PCI_DATA_STRUCTURE_SIGNATURE"
    and "image_length v RomImage p = 0" "pcir_CodeType v p \<noteq> PCI_CODE_TYPE_EFI_IMAGE" "pcir_Indicator v p AND 0x80 = 0"
  shows "ParseImages v host mOnlyList RomImage RomSize = None"
proof -
  have b: "ParseImages_body v host mOnlyList (RomImage + RomSize) i RomImage =
      ([ReadHeader RomImage, ReadPcir p], Some (pcir_Indicator v p, RomImage))" for i
    using assms by (simp add: ParseImages_body_def ParseImage_def Let_def not_less)
  have "h \<noteq> RomImage" if "ParseImages_loop v host mOnlyList RomImage RomSize i h = Some es" for i h es
  proof -
    let ?P = "\<lambda>v' host' only' I S i' h' es'. v' = v \<longrightarrow> host' = host \<longrightarrow> only' = mOnlyList \<longrightarrow> I = RomImage \<longrightarrow> S = RomSize \<longrightarrow>
        h' \<noteq> RomImage"
    have "?P v host mOnlyList RomImage RomSize i h es"
    proof (rule ParseImages_loop.raw_induct [where P = ?P, OF _ that])
      fix loop v' host' only' I S i' h' es'
      assume "\<And>v host only I S i h es. loop v host only I S i h = Some es \<Longrightarrow> ?P v host only I S i h es"
        and "(case ParseImages_body v' host' only' (I + S) i' h' of
          (ev, None) \<Rightarrow> Some ev
        | (ev, Some (Indicator, RomHeader)) \<Rightarrow>
            if RomHeader < I + S \<and> Indicator AND 0x80 = 0
            then Option.bind (loop v' host' only' I S Indicator RomHeader) (\<lambda>es. Some (ev @ es))
            else Some ev) = Some es'"
      then show "?P v' host' only' I S i' h' es'"
        using b [of i'] assms(3,11) by (auto split: prod.splits option.splits bind_splits if_splits) blast+
    qed
    with that show ?thesis by blast
  qed
  then have "ParseImages_loop v host mOnlyList RomImage RomSize 0 RomImage = None"
    by (cases "ParseImages_loop v host mOnlyList RomImage RomSize 0 RomImage") auto
  with assms(2) show ?thesis by (simp add: ParseImages_def)
qed

text \<open>
  C36: LoadImage leaves an image loaded exactly when every step up to StartImage
  succeeded, and frees the memory it allocated on every path but one: when there
  is no memory for the scratch buffer it frees NULL in its place and keeps the
  destination buffer.
\<close>

theorem LoadImage_frees_memory:
  fixes F :: load_services
  defines "unpacks \<equiv> \<not> EFI_ERROR (LocateProtocol_Decompress F) \<and> \<not> EFI_ERROR (fst (Decompress_GetInfo F)) \<and> Destination_available F"
  assumes "held s = []" "\<not> loaded s" "\<not> freed_NULL s"
  shows "held (LoadImage v F mNoConnect h s) =
      (if hdr_CompressionType v h \<noteq> 0 \<and> unpacks \<and> \<not> Scratch_available F then [Destination] else []) \<and>
    freed_NULL (LoadImage v F mNoConnect h s) = (hdr_CompressionType v h \<noteq> 0 \<and> unpacks \<and> \<not> Scratch_available F) \<and>
    loaded (LoadImage v F mNoConnect h s) =
      ((if hdr_CompressionType v h = 0 then True else unpacks \<and> Scratch_available F \<and> \<not> EFI_ERROR (Decompress_Decompress F)) \<and>
       AppendDevicePathNode_available F \<and> \<not> EFI_ERROR (gBS_LoadImage F) \<and> \<not> EFI_ERROR (gBS_StartImage F))"
proof -
  have d: "decompress F s = (ready, s1) \<Longrightarrow> \<not> loaded s1 \<and>
      (ready \<longrightarrow> held s1 = [Destination] \<and> \<not> freed_NULL s1 \<and> unpacks \<and> Scratch_available F \<and> \<not> EFI_ERROR (Decompress_Decompress F)) \<and>
      (\<not> ready \<longrightarrow> held s1 = (if unpacks \<and> \<not> Scratch_available F then [Destination] else []) \<and>
         freed_NULL s1 = (unpacks \<and> \<not> Scratch_available F) \<and> \<not> (unpacks \<and> Scratch_available F \<and> \<not> EFI_ERROR (Decompress_Decompress F)))"
    for ready s1
    using assms by (auto simp: decompress_def free_block_def Let_def split: if_splits)
  have st: "held (start_rom_image F mNoConnect Img t) = (if AppendDevicePathNode_available F then [DevicePath] else []) @ held t"
    "freed_NULL (start_rom_image F mNoConnect Img t) = freed_NULL t"
    "\<not> loaded t \<Longrightarrow> loaded (start_rom_image F mNoConnect Img t) =
      (AppendDevicePathNode_available F \<and> \<not> EFI_ERROR (gBS_LoadImage F) \<and> \<not> EFI_ERROR (gBS_StartImage F))" for Img t
    by (auto simp: start_rom_image_def Let_def)
  have fb: "held (free_block b t) = remove1 b (held t)" "loaded (free_block b t) = loaded t" "freed_NULL (free_block b t) = freed_NULL t" for b t
    by (simp_all add: free_block_def)
  show ?thesis
  proof (cases "hdr_CompressionType v h = 0")
    case True
    with assms(2-4) show ?thesis by (simp add: LoadImage_def Let_def st fb)
  next
    case False
    obtain ready s1 where r: "decompress F s = (ready, s1)" by (metis surj_pair)
    show ?thesis using d [OF r] False r by (cases ready) (auto simp: LoadImage_def Let_def st fb)
  qed
qed

section \<open>Witnesses\<close>

text \<open>A ROM at 0x10000 whose images are all of the given code type and length.\<close>

definition example_rom :: "u8 \<Rightarrow> u16 \<Rightarrow> rom" where
  "example_rom code n = \<lparr>hdr_Signature = (\<lambda>_. 0xAA55), hdr_PcirOffset = (\<lambda>_. 0x1C), hdr_InitializationSize = (\<lambda>_. 2),
     hdr_EfiMachineType = (\<lambda>_. 0xAA64), hdr_CompressionType = (\<lambda>_. 1), hdr_EfiImageHeaderOffset = (\<lambda>_. 0x40),
     hdr_Size512 = (\<lambda>_. 0), pcir_Signature = (\<lambda>_. 0x52494350), pcir_ImageLength = (\<lambda>_. n), pcir_CodeType = (\<lambda>_. code),
     pcir_Indicator = (\<lambda>_. 0), sizeof_header = 26, sizeof_PCI_DATA_STRUCTURE = 24\<rparr>"


theorem ParseImages_hangs_on_zero_length_witness:
  "ParseImages (example_rom 0 0) 0xAA64 False 0x10000 0x2000 = None"
  by (rule ParseImages_hangs_on_zero_length) (simp_all add: example_rom_def image_length_def)

theorem LoadImage_frees_memory_witness:
  "held (LoadImage (example_rom 3 2)
      \<lparr>LocateProtocol_Decompress = EFI_SUCCESS, Decompress_GetInfo = (EFI_SUCCESS, 0x4000, 0x100), Destination_address = 0x40000,
       Scratch_available = False, Decompress_Decompress = EFI_SUCCESS, AppendDevicePathNode_available = True,
       gBS_LoadImage = EFI_SUCCESS, gBS_StartImage = EFI_SUCCESS\<rparr> False 0x10000
      \<lparr>held = [], freed_NULL = False, loaded = False, connected = False, image_buffer = None\<rparr>) = [Destination]"
  by (subst LoadImage_frees_memory) (simp_all add: example_rom_def)

end
