(* ===== verification/Op_Rom_Spec.thy ===== *)
theory Op_Rom_Spec
  imports Op_Rom
begin

text \<open>
  What LoadOpRom.c promises: a ROM is a sequence of images and gaps, and the
  image that is loaded is the first one this machine can run.  The walk of
  Op_Rom over the bytes of the ROM is equivalent to that choice on the sequence.
\<close>

section \<open>The reference: a ROM as a list of images\<close>

text \<open>Lengths are in blocks of 512 bytes, the offset of the PE image is in bytes.\<close>

record rom_entry =
  e_Code :: u8
  e_Machine :: u16
  e_Blocks :: nat
  e_InitBlocks :: nat
  e_Offset :: nat
  e_Last :: bool

datatype rom_item = Gap | Entry rom_entry

fun item_blocks :: "rom_item \<Rightarrow> nat" where
  "item_blocks Gap = 1"
| "item_blocks (Entry e) = e_Blocks e"

definition supported :: "u16 \<Rightarrow> rom_entry \<Rightarrow> bool" where
  "supported host e \<longleftrightarrow> e_Code e = PCI_CODE_TYPE_EFI_IMAGE \<and> e_Machine e = host \<and>
     e_InitBlocks e \<le> e_Blocks e \<and> e_Offset e \<le> 512 * e_InitBlocks e"

text \<open>The block at which the first supported image starts, if there is one up to the last image.\<close>

fun first_supported :: "u16 \<Rightarrow> rom_item list \<Rightarrow> nat option" where
  "first_supported host [] = None"
| "first_supported host (Gap # xs) = map_option (\<lambda>k. 1 + k) (first_supported host xs)"
| "first_supported host (Entry e # xs) =
     (if supported host e then Some 0
      else if e_Last e then None
      else map_option (\<lambda>k. e_Blocks e + k) (first_supported host xs))"

section \<open>The bytes of such a ROM\<close>

definition holds_entry :: "rom \<Rightarrow> u64 \<Rightarrow> u64 \<Rightarrow> rom_entry \<Rightarrow> bool" where
  "holds_entry v rom_end h e \<longleftrightarrow>
     (let p = h + ucast (hdr_PcirOffset v h)
      in hdr_Signature v h = PCI_EXPANSION_ROM_HEADER_SIGNATURE \<and> hdr_PcirOffset v h \<noteq> 0 \<and> hdr_PcirOffset v h AND 3 = 0 \<and>
         p + sizeof_PCI_DATA_STRUCTURE v \<le> rom_end \<and> pcir_Signature v p = PCI_DATA_STRUCTURE_SIGNATURE \<and>
         pcir_CodeType v p = e_Code e \<and> hdr_EfiMachineType v h = e_Machine e \<and> unat (image_length v h p) = e_Blocks e \<and>
         unat (hdr_InitializationSize v h) = e_InitBlocks e \<and> unat (hdr_EfiImageHeaderOffset v h) = e_Offset e \<and>
         (pcir_Indicator v p AND 0x80 \<noteq> 0) = e_Last e \<and> e_Blocks e \<noteq> 0)"

text \<open>What comes after the last image is not read.\<close>

fun laid_out :: "rom \<Rightarrow> u64 \<Rightarrow> u64 \<Rightarrow> rom_item list \<Rightarrow> bool" where
  "laid_out v rom_end h [] \<longleftrightarrow> True"
| "laid_out v rom_end h (Gap # xs) \<longleftrightarrow>
     hdr_Signature v h \<noteq> PCI_EXPANSION_ROM_HEADER_SIGNATURE \<and> laid_out v rom_end (h + 512) xs"
| "laid_out v rom_end h (Entry e # xs) \<longleftrightarrow>
     holds_entry v rom_end h e \<and> (e_Last e \<or> laid_out v rom_end (h + of_nat (512 * e_Blocks e)) xs)"

text \<open>The images a walk gives to LoadImage.\<close>

fun loads :: "rom_event list \<Rightarrow> u64 list" where
  "loads [] = []"
| "loads (LoadRom h # es) = h # loads es"
| "loads (_ # es) = loads es"

lemma loads_append [simp]: "loads (es @ fs) = loads es @ loads fs"
  by (induction es rule: loads.induct) simp_all

lemma fold_load_event:
  "fold (load_event d noc) es s = fold (\<lambda>h. LoadImage (PciIo_Rom d) (services_for d) noc h) (loads es) s"
  by (induction es arbitrary: s rule: loads.induct) simp_all

section \<open>The walk\<close>

lemma ParseImage_supported:
  assumes "holds_entry v rom_end h e"
  shows "ParseImage v host h (image_length v h (h + ucast (hdr_PcirOffset v h)) * 512) (h + ucast (hdr_PcirOffset v h)) = supported host e"
proof -
  let ?n = "image_length v h (h + ucast (hdr_PcirOffset v h))"
  let ?i = "ucast (hdr_InitializationSize v h) :: u64" and ?o = "ucast (hdr_EfiImageHeaderOffset v h) :: u64"
  have u: "unat (ucast x :: u64) = unat x" for x :: u16
  proof -
    have "unat x < 2 ^ 64" using unsigned_less [where 'a = nat and w = x] by simp
    then show ?thesis by (simp add: unsigned_ucast_eq take_bit_nat_eq_self)
  qed
  have e: "unat ?n = e_Blocks e" "unat ?i = e_InitBlocks e" "unat ?o = e_Offset e"
    using assms by (simp_all add: holds_entry_def Let_def u)
  have lt: "e_Blocks e < 2 ^ 16" "e_InitBlocks e < 2 ^ 16" using bounded_length unat_ucast64(1) e(1,2) by metis+
  have "unat (?n * 512) = e_Blocks e * 512" "unat (?i * 512) = e_InitBlocks e * 512"
    using lt e by (simp_all add: unat_word_ariths)
  then show ?thesis
    using assms e(3) by (auto simp: ParseImage_def supported_def holds_entry_def Let_def word_less_nat_alt word_le_nat_alt)
qed

lemma body_gap:
  "hdr_Signature v h \<noteq> PCI_EXPANSION_ROM_HEADER_SIGNATURE \<Longrightarrow>
    ParseImages_body v host only rom_end ind h = ([ReadHeader h], Some (ind, h + 512))"
  by (simp add: ParseImages_body_def)

lemma body_entry:
  assumes "holds_entry v rom_end h e"
  shows "ParseImages_body v host only rom_end ind h =
    (let p = h + ucast (hdr_PcirOffset v h)
     in if supported host e \<and> \<not> only then ([ReadHeader h, ReadPcir p, LoadRom h], None)
        else ([ReadHeader h, ReadPcir p], Some (pcir_Indicator v p, h + of_nat (512 * e_Blocks e))))"
proof -
  let ?n = "image_length v h (h + ucast (hdr_PcirOffset v h))"
  have "unat ?n = e_Blocks e" using assms by (simp add: holds_entry_def Let_def)
  then have "?n = of_nat (e_Blocks e)" by (metis of_nat_unat ucast_id)
  then have "?n * 512 = of_nat (512 * e_Blocks e)" by (simp add: mult.commute)
  with assms ParseImage_supported [OF assms, of host] show ?thesis
    by (auto simp: ParseImages_body_def holds_entry_def Let_def not_less)
qed

lemma laid_out_positive: "laid_out v rom_end h xs \<Longrightarrow> xs \<noteq> [] \<Longrightarrow> 0 < sum_list (map item_blocks xs)"
  by (cases "(v, rom_end, h, xs)" rule: laid_out.cases) (auto simp: holds_entry_def Let_def)

lemma walk:
  assumes "laid_out v (I + S) h items" "unat h + 512 * sum_list (map item_blocks items) = unat I + unat S"
    and "unat I + unat S + 2 ^ 25 \<le> 2 ^ 64" "items \<noteq> []" "ind AND 0x80 = 0"
  shows "\<exists>es. ParseImages_loop v host only I S ind h = Some es \<and>
    loads es = (if only then [] else case first_supported host items of None \<Rightarrow> [] | Some k \<Rightarrow> [h + of_nat (512 * k)])"
  using assms(1,2,4,5)
proof (induction items arbitrary: h ind)
  case Nil
  then show ?case by simp
next
  case (Cons x xs)
  let ?h = "h + of_nat (512 * item_blocks x)"
  have E: "unat (I + S) = unat I + unat S" by (rule unat_add_lt) (use assms(3) in simp)
  have next_h: "unat ?h = unat h + 512 * item_blocks x"
  proof -
    have le: "512 * item_blocks x < 2 ^ 64" using Cons.prems(2) assms(3) by simp
    then have "unat (of_nat (512 * item_blocks x) :: u64) = 512 * item_blocks x" by (rule unat_of_nat64)
    moreover from this have "unat ?h = unat h + unat (of_nat (512 * item_blocks x) :: u64)"
      using Cons.prems(2) assms(3) by (intro unat_add_lt) simp
    ultimately show ?thesis by simp
  qed
  let ?goal = "\<lambda>es. loads es = (if only then [] else case first_supported host xs of None \<Rightarrow> [] | Some k \<Rightarrow> [?h + of_nat (512 * k)])"
  text \<open>The rest of the walk, when the loop goes on past x.\<close>
  have rest: "\<exists>es. (if ?h < I + S \<and> i AND 0x80 = 0
      then Option.bind (ParseImages_loop v host only I S i ?h) (\<lambda>es. Some (ev @ es)) else Some ev) = Some (ev @ es) \<and> ?goal es"
    if l: "laid_out v (I + S) ?h xs" and i: "i AND 0x80 = 0" for i ev
  proof (cases "xs = []")
    case True
    with Cons.prems(2) E next_h show ?thesis by (simp add: word_less_nat_alt)
  next
    case False
    with laid_out_positive [OF l False] have "?h < I + S" using Cons.prems(2) E next_h by (simp add: word_less_nat_alt)
    moreover have "\<exists>es. ParseImages_loop v host only I S i ?h = Some es \<and> ?goal es"
      using Cons.IH [OF l _ False i] Cons.prems(2) next_h by simp
    ultimately show ?thesis using i by auto
  qed
  show ?case
  proof (cases x)
    case Gap
    with Cons.prems(1) have "laid_out v (I + S) ?h xs" by simp
    from rest [OF this Cons.prems(4), of "[ReadHeader h]"] obtain es where
      r: "(if ?h < I + S \<and> ind AND 0x80 = 0
        then Option.bind (ParseImages_loop v host only I S ind ?h) (\<lambda>es. Some ([ReadHeader h] @ es)) else Some [ReadHeader h]) =
        Some ([ReadHeader h] @ es)" "?goal es" by blast
    have "ParseImages_loop v host only I S ind h = Some ([ReadHeader h] @ es)"
      by (subst ParseImages_loop.simps) (use r(1) Gap Cons.prems(1) in \<open>auto simp: body_gap split: if_splits\<close>)
    with r(2) Gap show ?thesis by (auto simp: algebra_simps split: option.splits)
  next
    case (Entry e)
    let ?p = "h + ucast (hdr_PcirOffset v h)"
    from Entry Cons.prems(1) have e: "holds_entry v (I + S) h e" by simp
    then have last: "pcir_Indicator v ?p AND 0x80 = 0 \<longleftrightarrow> \<not> e_Last e" by (auto simp: holds_entry_def Let_def)
    consider "supported host e" "\<not> only" | "e_Last e" "\<not> (supported host e \<and> \<not> only)"
      | "\<not> e_Last e" "\<not> (supported host e \<and> \<not> only)" by blast
    then show ?thesis
    proof cases
      case 1
      with Entry show ?thesis by (subst ParseImages_loop.simps) (simp add: body_entry [OF e] Let_def)
    next
      case 2
      with Entry last show ?thesis by (subst ParseImages_loop.simps) (auto simp: body_entry [OF e] Let_def)
    next
      case 3
      with Entry Cons.prems(1) have "laid_out v (I + S) ?h xs" by simp
      moreover have "pcir_Indicator v ?p AND 0x80 = 0" using 3 last by simp
      ultimately obtain es where
        r: "(if ?h < I + S \<and> pcir_Indicator v ?p AND 0x80 = 0
          then Option.bind (ParseImages_loop v host only I S (pcir_Indicator v ?p) ?h) (\<lambda>es. Some ([ReadHeader h, ReadPcir ?p] @ es))
          else Some [ReadHeader h, ReadPcir ?p]) = Some ([ReadHeader h, ReadPcir ?p] @ es)" "?goal es"
        using rest [of "pcir_Indicator v ?p" "[ReadHeader h, ReadPcir ?p]"] by blast
      have "ParseImages_loop v host only I S ind h = Some ([ReadHeader h, ReadPcir ?p] @ es)"
        by (subst ParseImages_loop.simps) (use r(1) Entry 3 in \<open>auto simp: body_entry [OF e] Let_def\<close>)
      with r(2) Entry 3 show ?thesis by (auto simp: algebra_simps split: option.splits)
    qed
  qed
qed

section \<open>Properties\<close>

text \<open>
  C34: on a ROM that holds a sequence of images and gaps, analysing the device
  comes to an end and is equivalent to choosing the first image the machine
  supports, not beyond the one marked as the last: LoadImage is called for that
  image and for no other, or for none when there is no such image or when the
  images are only listed.
\<close>

theorem AnalyzeROM_loads_first_supported:
  fixes d :: pci_device
  defines "v \<equiv> PciIo_Rom d" and "I \<equiv> PciIo_RomImage d" and "S \<equiv> PciIo_RomSize d"
  assumes "I \<noteq> 0" "laid_out v (I + S) I items" "512 * sum_list (map item_blocks items) = unat S"
    and "unat I + unat S + 2 ^ 25 \<le> 2 ^ 64"
  shows "\<exists>es. AnalyzeROM host mOnlyList mNoConnect d = Some (es,
    (case first_supported host items of
       Some k \<Rightarrow> if mOnlyList then no_image
                else LoadImage v (services_for d) mNoConnect (I + of_nat (512 * k)) no_image
     | None \<Rightarrow> no_image))"
proof (cases "items = []")
  case True
  then show ?thesis using assms(6) unfolding S_def by (simp add: AnalyzeROM_def unat_eq_0)
next
  case False
  with laid_out_positive [OF assms(5)] have "unat S \<noteq> 0" using assms(6) by simp
  then have "S \<noteq> 0" by (simp add: unat_eq_0)
  moreover obtain es where es: "ParseImages_loop v host mOnlyList I S 0 I = Some es"
    "loads es = (if mOnlyList then [] else case first_supported host items of None \<Rightarrow> [] | Some k \<Rightarrow> [I + of_nat (512 * k)])"
    using walk [OF assms(5) _ assms(7) False, of 0 host mOnlyList] assms(6) by auto
  ultimately show ?thesis using assms(4)
    by (auto simp: AnalyzeROM_def ParseImages_def fold_load_event v_def I_def S_def split: option.split)
qed

section \<open>Witness\<close>

text \<open>A BIOS image of one block, a gap, an image for X64 of two blocks and one for AArch64 that is the last.\<close>

definition mixed_rom :: rom where
  "mixed_rom = \<lparr>hdr_Signature = (\<lambda>a. if a = 0x10200 then 0xFFFF else 0xAA55), hdr_PcirOffset = (\<lambda>_. 0x1C),
     hdr_InitializationSize = (\<lambda>_. 2), hdr_EfiMachineType = (\<lambda>a. if a = 0x10400 then 0x8664 else 0xAA64),
     hdr_CompressionType = (\<lambda>_. 0), hdr_EfiImageHeaderOffset = (\<lambda>_. 0x40), hdr_Size512 = (\<lambda>_. 1),
     pcir_Signature = (\<lambda>_. 0x52494350), pcir_ImageLength = (\<lambda>a. if a = 0x1001C then 1 else 2),
     pcir_CodeType = (\<lambda>a. if a = 0x1001C then 0 else 3), pcir_Indicator = (\<lambda>a. if a = 0x1081C then 0x80 else 0),
     sizeof_header = 26, sizeof_PCI_DATA_STRUCTURE = 24\<rparr>"

definition mixed_items :: "rom_item list" where
  "mixed_items =
     [Entry \<lparr>e_Code = 0, e_Machine = 0xAA64, e_Blocks = 1, e_InitBlocks = 2, e_Offset = 0x40, e_Last = False\<rparr>, Gap,
      Entry \<lparr>e_Code = 3, e_Machine = 0x8664, e_Blocks = 2, e_InitBlocks = 2, e_Offset = 0x40, e_Last = False\<rparr>,
      Entry \<lparr>e_Code = 3, e_Machine = 0xAA64, e_Blocks = 2, e_InitBlocks = 2, e_Offset = 0x40, e_Last = True\<rparr>]"

definition mixed_device :: pci_device where
  "mixed_device = \<lparr>HandleProtocol_PciIo = EFI_SUCCESS, HandleProtocol_DevicePath = EFI_SUCCESS,
     PciIo_GetLocation = (EFI_SUCCESS, (0, 0, 3, 0)), PciIo_Rom = mixed_rom, PciIo_RomImage = 0x10000, PciIo_RomSize = 0xC00,
     services_for = \<lparr>LocateProtocol_Decompress = EFI_SUCCESS, Decompress_GetInfo = (EFI_SUCCESS, 0, 0), Destination_address = 0,
       Scratch_available = False, Decompress_Decompress = EFI_SUCCESS, AppendDevicePathNode_available = True,
       gBS_LoadImage = EFI_SUCCESS, gBS_StartImage = EFI_SUCCESS\<rparr>\<rparr>"

theorem AnalyzeROM_loads_first_supported_witness:
  "\<exists>es. AnalyzeROM 0xAA64 False False mixed_device =
    Some (es, LoadImage mixed_rom (services_for mixed_device) False 0x10800 no_image)"
proof -
  have r: "PciIo_Rom mixed_device = mixed_rom" "PciIo_RomImage mixed_device = 0x10000" "PciIo_RomSize mixed_device = 0xC00"
    by (simp_all add: mixed_device_def)
  have f: "first_supported 0xAA64 mixed_items = Some 4" by (simp add: mixed_items_def supported_def)
  show ?thesis
    using AnalyzeROM_loads_first_supported [where d = mixed_device and items = mixed_items and host = "0xAA64" and mOnlyList = False
        and mNoConnect = False]
    unfolding f r
    by (simp add: mixed_items_def mixed_rom_def holds_entry_def image_length_def Let_def)
qed

end
