(* ===== verification/Emulator_Life.thy ===== *)
theory Emulator_Life
  imports Driver_Start Run_Asserts
begin

text \<open>
  The running emulator over its life: a successful start, then images are
  registered and unregistered and native code calls them, in any order.  In every
  state that is reached the chain of contexts, the image list and the processors
  of the images are well-formed.
\<close>

section \<open>The step relation\<close>

text \<open>
  What the loader of the firmware guarantees for a registration: the record it
  allocates is a new one, and the image does not overlap another one.
\<close>

definition loader_ok :: "image_services \<Rightarrow> u64 \<Rightarrow> u64 \<Rightarrow> ('u, 'c, 'z) image_world_scheme \<Rightarrow> bool" where
  "loader_ok S Base Size w \<longleftrightarrow> (\<forall>p r. AllocatePool_Record S = Some (p, r) \<longrightarrow> fresh_range Base Size p w)"

definition machine_of :: "image_services \<Rightarrow> memory \<Rightarrow> u64 \<Rightarrow> u16" where
  "machine_of S m Base = snd (snd (PeCoffLoaderGetImageInfo S m Base))"

text \<open>The second argument gives the machine type the loader found in each image when it was registered.\<close>

inductive emulator_reaches ::
  "('u, 'c) start_env \<Rightarrow> (ptr \<Rightarrow> u16) \<Rightarrow> ('u, 'c, 'z) start_world_scheme \<Rightarrow> bool" for E where
  started: "fresh_driver w \<Longrightarrow> mImageList w = [] \<Longrightarrow>
    (EmulatorStart E w :: (unit, efi_status \<times> ('u, 'c, 'z) start_world_scheme) outcome option) = Some (Done (st, w')) \<Longrightarrow>
    \<not> EFI_ERROR st \<Longrightarrow> emulator_reaches E M w'"
| registered: "emulator_reaches E M w \<Longrightarrow> loader_ok S b n w \<Longrightarrow> AllocatePool_Record S = Some (p, r) \<Longrightarrow>
    (ImageProtocolRegister (Env (run_env_of E)) S b n e w :: (unit, efi_status \<times> u64 \<times> ('u, 'c, 'z) start_world_scheme) outcome) =
      Done (st, e', w') \<Longrightarrow> emulator_reaches E (M(p := machine_of S (mem w) b)) w'"
| not_registered: "emulator_reaches E M w \<Longrightarrow> AllocatePool_Record S = None \<Longrightarrow>
    (ImageProtocolRegister (Env (run_env_of E)) S b n e w :: (unit, efi_status \<times> u64 \<times> ('u, 'c, 'z) start_world_scheme) outcome) =
      Done (st, e', w') \<Longrightarrow> emulator_reaches E M w'"
| unregistered: "emulator_reaches E M w \<Longrightarrow>
    (ImageProtocolUnregister (Env (run_env_of E)) S b w :: (unit, efi_status \<times> ('u, 'c, 'z) start_world_scheme) outcome) =
      Done (st, w') \<Longrightarrow> emulator_reaches E M w'"
| ran: "emulator_reaches E M w \<Longrightarrow> run_native (run_env_of E) k t w = Some (Done (v, w')) \<Longrightarrow> emulator_reaches E M w'"

section \<open>Well-formed states\<close>

text \<open>Every image on the list is run by a processor of its own instruction set.\<close>

definition images_typed :: "(ptr \<Rightarrow> u16) \<Rightarrow> ('u, 'c, 'z) image_world_scheme \<Rightarrow> bool" where
  "images_typed M w \<longleftrightarrow>
     (\<forall>p \<in> set (mImageList w). \<exists>c. rec_Cpu (Records w p) = Some c \<and> isa_cpu c (cpus w c) \<and> EmuMachineType (cpus w c) = M p)"

definition processors_typed :: "build \<Rightarrow> ('u, 'c, 'z) machine_scheme \<Rightarrow> bool" where
  "processors_typed b w \<longleftrightarrow>
     (MAU_SUPPORTS_X64_BINS b \<longrightarrow> isa_cpu CpuX64 (cpus w CpuX64)) \<and>
     (MAU_SUPPORTS_AARCH64_BINS b \<longrightarrow> isa_cpu CpuAArch64 (cpus w CpuAArch64))"

lemma isa_cpu_fixed: "cpu_fixed x = cpu_fixed y \<Longrightarrow> isa_cpu c x = isa_cpu c y"
  by (cases x; cases y; cases c) (simp_all add: cpu_fixed_def isa_cpu_def X64_cpu_def)

lemma image_cpu_typed:
  assumes "image_cpu b m = Some c" "processors_typed b w"
  shows "isa_cpu c (cpus w c) \<and> EmuMachineType (cpus w c) = m"
  using assms by (auto simp: image_cpu_def processors_typed_def isa_cpu_def Let_def split: if_splits)

lemma images_ok_view: "image_view w' = image_view w \<Longrightarrow> images_ok w \<Longrightarrow> images_ok w'"
  unfolding image_view_def images_ok_def covers_def by (simp add: fun_eq_iff)

lemma images_typed_keep:
  assumes "image_view w' = image_view w" "\<forall>c. cpu_fixed (cpus w' c) = cpu_fixed (cpus w c)" "images_typed M w"
  shows "images_typed M w'"
  using assms(1,3) isa_cpu_fixed [OF assms(2) [rule_format]]
  unfolding image_view_def images_typed_def by (simp add: fun_eq_iff)

lemma processors_typed_keep:
  assumes "\<forall>c. cpu_fixed (cpus w' c) = cpu_fixed (cpus w c)" "processors_typed b w"
  shows "processors_typed b w'"
  using assms(2) isa_cpu_fixed [OF assms(1) [rule_format]] by (simp add: processors_typed_def)

section \<open>Registration leaves the contexts alone\<close>

lemma range_world [simp]:
  "cpus (image_added E c b n e p r w) = cpus w" "cpus (image_removed E p w) = cpus w"
  by (simp_all add: image_added_def image_removed_def Let_def frame_simps)

lemma range_run_inv:
  fixes w :: "('u, 'c, 'z) world_scheme"
  assumes "run_inv R K w"
  shows "run_inv R K (image_added E c b n e p r w)" "run_inv R K (image_removed E p w)"
proof -
  have q: "quiet (hooks w)" using assms by (simp add: run_inv_def)
  have f: "contexts (image_added E c b n e p r w) = contexts w" "RunContextAlloc (image_added E c b n e p r w) = RunContextAlloc w"
    "mTopContext (image_added E c b n e p r w) = mTopContext w" "pending (image_added E c b n e p r w) = pending w"
    "contexts (image_removed E p w) = contexts w" "RunContextAlloc (image_removed E p w) = RunContextAlloc w"
    "mTopContext (image_removed E p w) = mTopContext w" "pending (image_removed E p w) = pending w"
    by (simp_all add: image_added_def image_removed_def CpuRegisterCodeRange_def CpuUnregisterCodeRange_def Let_def split: prod.split)
  from assms show "run_inv R K (image_added E c b n e p r w)" "run_inv R K (image_removed E p w)"
    by (simp_all add: run_inv_def ctxs_ok_def f q)
qed

text \<open>What a call of the image protocol that returns has done.\<close>

lemma register_result:
  assumes "(ImageProtocolRegister E S b n e w :: ('j, efi_status \<times> u64 \<times> ('u, 'c, 'z) image_world_scheme) outcome) = Done (st, e', w')"
  shows "w' = w \<or> (\<exists>p r c. AllocatePool_Record S = Some (p, r) \<and> image_cpu (options E) (machine_of S (mem w) b) = Some c \<and>
    w' = image_added E c b n e p r w)"
  using assms
  by (auto simp: ImageProtocolRegister_def SetMemoryAttributes_def machine_of_def image_added_def Let_def
      split: prod.splits option.splits if_splits)

lemma unregister_result:
  assumes "images_ok w"
    and "(ImageProtocolUnregister E S b w :: ('j, efi_status \<times> ('u, 'c, 'z) image_world_scheme) outcome) = Done (st, w')"
  shows "w' = w \<or> (\<exists>p. w' = image_removed E p w)"
proof (cases "ImageFindByAddress b w")
  case None
  with assms(2) show ?thesis by (simp add: ImageProtocolUnregister_def)
next
  case (Some p)
  have "(ImageProtocolUnregister E S b w :: ('j, efi_status \<times> ('u, 'c, 'z) image_world_scheme) outcome) =
      Done (fw_SetMemoryAttributes S (ImageBase (Records w p)) (ImageSize (Records w p)) 0, image_removed E p w)"
    by (rule ImageProtocolUnregister_removed [OF assms(1) Some])
  with assms(2) show ?thesis by auto
qed

definition well_formed :: "('u, 'c) start_env \<Rightarrow> (ptr \<Rightarrow> u16) \<Rightarrow> ('u, 'c, 'z) start_world_scheme \<Rightarrow> bool" where
  "well_formed E M w \<longleftrightarrow>
     (\<exists>K. run_inv (run_env_of E) K w) \<and> images_ok w \<and> processors_typed (build_of E) w \<and> images_typed M w"

lemma added_well_formed:
  assumes "well_formed E M w" "fresh_range b n p w" "image_cpu (build_of E) m = Some c"
  shows "well_formed E (M(p := m)) (image_added (Env (run_env_of E)) c b n e p r w)"
proof -
  let ?w = "image_added (Env (run_env_of E)) c b n e p r w"
  have "images_typed (M(p := m)) ?w"
    using assms(1) image_cpu_typed [OF assms(3), of w]
    by (auto simp: well_formed_def images_typed_def)
  moreover have "processors_typed (build_of E) ?w"
    using assms(1) by (simp add: well_formed_def processors_typed_def)
  ultimately show ?thesis
    using assms(1) images_ok_added [OF _ assms(2)] range_run_inv(1) unfolding well_formed_def by blast
qed

lemma removed_well_formed:
  assumes "well_formed E M w"
  shows "well_formed E M (image_removed (Env (run_env_of E)) p w)"
proof -
  let ?w = "image_removed (Env (run_env_of E)) p w"
  have "images_typed M ?w" using assms by (auto simp: well_formed_def images_typed_def dest: notin_set_remove1)
  moreover have "processors_typed (build_of E) ?w" using assms by (simp add: well_formed_def processors_typed_def)
  ultimately show ?thesis
    using assms images_ok_removed range_run_inv(2) unfolding well_formed_def by blast
qed

lemma ran_well_formed:
  fixes w :: "('u, 'c, 'z) start_world_scheme"
  assumes "env_ok (run_env_of E)" "well_formed E M w" "run_native (run_env_of E) k t w = Some (Done (v, w'))"
  shows "well_formed E M w'"
proof -
  obtain K where "run_inv (run_env_of E) K w" using assms(2) by (auto simp: well_formed_def)
  then have I: "run_inv (run_env_of E) (K @ []) w" by simp
  obtain K' where s: "step (run_env_of E) {} [] K w K' w'" using goodD(1) [OF run_native_good [OF assms(1)] I assms(3)] by blast
  have cpus: "\<forall>c. cpu_fixed (cpus w' c) = cpu_fixed (cpus w c)" using step_keep [OF s] by (simp add: keep_def)
  have view: "image_view w' = image_view w"
    using run_frameD [OF run_native_frame [OF assms(1)] refl, of w k t] assms(3) by simp
  show ?thesis
    using step_inv [OF s] assms(2) images_ok_view [OF view] processors_typed_keep [OF cpus] images_typed_keep [OF view cpus]
    unfolding well_formed_def by blast
qed

lemma reached_well_formed:
  fixes w :: "('u, 'c, 'z) start_world_scheme"
  assumes "emulator_reaches E M w" "env_ok (run_env_of E)" "pages_apart (memory_for E)"
  shows "well_formed E M w"
  using assms(1)
proof induction
  case (started w st w' M)
  from EmulatorStart_running [OF started(1) assms(2,3) started(3,4)] started(2) show ?case
    by (auto simp: well_formed_def images_ok_def processors_typed_def images_typed_def initialised_def)
next
  case (registered M w S b n p r e st e' w')
  from registered.hyps(2,3) have f: "fresh_range b n p w" by (simp add: loader_ok_def)
  from register_result [OF registered.hyps(4)] show ?case
  proof (elim disjE exE conjE)
    assume "w' = w"
    moreover have "p \<notin> set (mImageList w)" using f by (simp add: fresh_range_def)
    ultimately show ?thesis using registered.IH by (auto simp: well_formed_def images_typed_def)
  next
    fix q r' c
    assume a: "AllocatePool_Record S = Some (q, r')" "image_cpu (build_of E) (machine_of S (mem w) b) = Some c"
      "w' = image_added (Env (run_env_of E)) c b n e q r' w"
    with registered.hyps(3) have "q = p" by simp
    show ?thesis unfolding a(3) \<open>q = p\<close> by (rule added_well_formed [OF registered.IH f a(2)])
  qed
next
  case (not_registered M w S b n e st e' w')
  from register_result [OF not_registered.hyps(3)] not_registered.hyps(2) not_registered.IH show ?case by auto
next
  case (unregistered M w S b st w')
  have "images_ok w" using unregistered.IH by (simp add: well_formed_def)
  from unregister_result [OF this unregistered.hyps(2)] removed_well_formed [OF unregistered.IH] unregistered.IH show ?case
    by auto
next
  case (ran M w k t v w')
  then show ?case using ran_well_formed [OF assms(2)] by blast
qed

text \<open>
  In a build with both instruction sets every processor is ready to run, so that
  no assertion fails while an image runs, in whatever state it is started.
\<close>

lemma both_cpus_ready:
  assumes "processors_typed b w" "MAU_SUPPORTS_X64_BINS b" "MAU_SUPPORTS_AARCH64_BINS b"
  shows "cpus_ready w"
proof -
  have "ProgramCounterReg (cpus w c) = program_counter_reg c" for c
    using assms by (cases c) (simp_all add: processors_typed_def isa_cpu_def X64_cpu_def program_counter_reg_def)
  then show ?thesis by (simp add: cpus_ready_def)
qed

lemma reached_image_run_keeps_assertions:
  fixes w :: "('u, 'c, 'z) start_world_scheme"
  assumes "emulator_reaches E M w" "assert_env (run_env_of E)" "pages_apart (memory_for E)"
    and "MAU_SUPPORTS_X64_BINS (build_of E)" "MAU_SUPPORTS_AARCH64_BINS (build_of E)"
  shows "flags (assert_failed (hooks w)) (CpuRunImage (run_env_of E) (run_native (run_env_of E) n) m fp H w)"
proof -
  have e: "env_ok (run_env_of E)" using assms(2) by (simp add: assert_env_def)
  note w = reached_well_formed [OF assms(1) e assms(3)]
  then obtain K where "run_inv (run_env_of E) K w" "cpus_ready w"
    using both_cpus_ready [OF _ assms(4,5)] by (auto simp: well_formed_def)
  from CpuRunImage_flag [OF run_native_good [OF e] run_native_calm [OF assms(2)] assms(2) this refl] show ?thesis .
qed

section \<open>Properties\<close>

text \<open>
  C6: in every state the emulator reaches from a successful start, by any
  sequence of registrations and removals of images and of calls of emulated code
  from native code (with all that happens in them), the chain of contexts and the
  pools are well-formed; no two images share an address; and every image on the
  list is assigned a processor set up for the instruction set that the loader
  found in its header, with the registers and thunks of that instruction set.
\<close>

theorem running_emulator_is_well_typed:
  fixes w :: "('u, 'c, 'z) start_world_scheme"
  assumes "emulator_reaches E M w" "env_ok (run_env_of E)" "pages_apart (memory_for E)"
  shows "(\<exists>K. run_inv (run_env_of E) K w) \<and> images_ok w \<and>
    (\<forall>p \<in> set (mImageList w). \<exists>c. rec_Cpu (Records w p) = Some c \<and> isa_cpu c (cpus w c) \<and> EmuMachineType (cpus w c) = M p)"
  using reached_well_formed [OF assms] by (simp add: well_formed_def images_typed_def)

section \<open>Witness\<close>

text \<open>A start, the registration of an X64 image at 0x40000, and native code that returns.\<close>

lemma example_registers:
  fixes w :: "(uc_reg \<Rightarrow> u64, uc_reg \<Rightarrow> u64) start_world"
  assumes "mImageList w = []"
  obtains w' where "(ImageProtocolRegister (Env example_run_env) (example_image_services EFI_SUCCESS) 0x40000 0x8000 0x40100 w ::
      (unit, _) outcome) = Done (EFI_SUCCESS, 0x3100, w')"
    "mImageList w' = [0x200]" "loader_ok (example_image_services EFI_SUCCESS) 0x40000 0x8000 w"
    "machine_of (example_image_services EFI_SUCCESS) (mem w) 0x40000 = 0x8664"
proof -
  let ?S = "example_image_services EFI_SUCCESS"
  have a: "address_of_CpuRunImage (Env example_run_env) = 0x3100" by (simp add: example_run_env_def example_env_def)
  have "(ImageProtocolRegister (Env example_run_env) ?S 0x40000 0x8000 0x40100 w ::
      (unit, _) outcome) =
      Done (EFI_SUCCESS, 0x3100, image_added (Env example_run_env) CpuX64 0x40000 0x8000 0x40100 0x200 example_record w)"
    by (subst ImageProtocolRegister_added [where st = EFI_SUCCESS and ty = 10 and machine = "0x8664" and p = "0x200"
          and r = example_record and c = CpuX64])
      (simp_all add: example_image_services_def ImageProtocolSupported_def EFI_IMAGE_SUBSYSTEM_EFI_APPLICATION_def image_cpu_def
        EFI_IMAGE_MACHINE_X64_def default_build_def a Let_def)
  then show ?thesis
    by (rule that) (use assms in \<open>simp_all add: loader_ok_def fresh_range_def example_image_services_def machine_of_def\<close>)
qed

theorem running_emulator_is_well_typed_witness:
  "\<exists>(w :: (uc_reg \<Rightarrow> u64, uc_reg \<Rightarrow> u64) start_world) M. emulator_reaches (example_start EFI_SUCCESS EFI_SUCCESS) M w \<and> mImageList w = [0x200] \<and> images_ok w \<and>
    (\<exists>c. rec_Cpu (Records w 0x200) = Some c \<and> EmuMachineType (cpus w c) = 0x8664)"
proof -
  let ?E = "example_start EFI_SUCCESS EFI_SUCCESS"
  obtain h where h: "EfiHooksInit (firmware_cpu (run_env_of ?E)) 2 (hooks example_fresh) = Some (EFI_SUCCESS, h)"
    by (rule example_hooks_init) simp
  obtain st w where r: "(EmulatorStart ?E example_fresh :: (unit, _) outcome option) = Some (Done (st, w))"
    "\<not> EFI_ERROR st" by (rule EmulatorStart_succeeds [OF example_all_succeed h])
  have e: "env_ok (run_env_of ?E)" "pages_apart (memory_for ?E)" by (simp_all add: example_env_ok example_pages)
  have none: "mImageList example_fresh = []" by (simp add: example_fresh_def)
  with EmulatorStart_running [OF example_fresh e r] have "mImageList w = []" by simp
  then obtain w' where w': "(ImageProtocolRegister (Env example_run_env) (example_image_services EFI_SUCCESS) 0x40000 0x8000 0x40100 w ::
      (unit, _) outcome) = Done (EFI_SUCCESS, 0x3100, w')" "mImageList w' = [0x200]"
    "loader_ok (example_image_services EFI_SUCCESS) 0x40000 0x8000 w"
    "machine_of (example_image_services EFI_SUCCESS) (mem w) 0x40000 = 0x8664" by (rule example_registers)
  have "AllocatePool_Record (example_image_services EFI_SUCCESS) = Some (0x200, example_record)"
    by (simp add: example_image_services_def)
  from emulator_reaches.registered [OF emulator_reaches.started [OF example_fresh none r] w'(3) this, of "0x40100"] w'(1,4)
  have "emulator_reaches ?E ((\<lambda>_. 0)(0x200 := 0x8664)) w'" by simp
  with running_emulator_is_well_typed [OF this e] w'(2) show ?thesis
    by (intro exI [of _ w'] exI [of _ "(\<lambda>_. 0)(0x200 := 0x8664) :: ptr \<Rightarrow> u16"]) auto
qed

end
