(* ===== verification/Image_Map.thy ===== *)
theory Image_Map
  imports Image
begin

text \<open>
  The image list as a finite map: what EDKII_PECOFF_IMAGE_EMULATOR_PROTOCOL
  promises to the loader is a map from addresses to images, and every sequence of
  registrations and removals refines it.
\<close>

section \<open>Requests of the loader\<close>

datatype image_request = Register image_services u64 u64 u64 | Unregister image_services u64

fun serve ::
  "('u, 'c) env \<Rightarrow> image_request \<Rightarrow> ('u, 'c, 'z) image_world_scheme \<Rightarrow> ('j, efi_status \<times> ('u, 'c, 'z) image_world_scheme) outcome" where
  "serve E (Register S b n e) w =
     (case ImageProtocolRegister E S b n e w of
        Done (Status, EntryPoint, w) \<Rightarrow> Done (Status, w) | Jumped j \<Rightarrow> Jumped j | Crashed c \<Rightarrow> Crashed c)"
| "serve E (Unregister S b) w = ImageProtocolUnregister E S b w"

fun serve_all ::
  "('u, 'c) env \<Rightarrow> image_request list \<Rightarrow> ('u, 'c, 'z) image_world_scheme \<Rightarrow> ('j, ('u, 'c, 'z) image_world_scheme) outcome" where
  "serve_all E [] w = Done w"
| "serve_all E (q # qs) w =
     (case serve E q w of Done (Status, w) \<Rightarrow> serve_all E qs w | Jumped j \<Rightarrow> Jumped j | Crashed c \<Rightarrow> Crashed c)"

text \<open>
  What the loader keeps to: it registers only images of a supported subsystem and
  machine type, at ranges that are free, and memory it allocates is not in use.
\<close>

fun admissible :: "('u, 'c) env \<Rightarrow> image_request \<Rightarrow> ('u, 'c, 'z) image_world_scheme \<Rightarrow> bool" where
  "admissible E (Register S b n e) w =
     (case PeCoffLoaderGetImageInfo S (mem w) b of (Status, ImageType, Machine) \<Rightarrow>
        EFI_ERROR Status \<or> (ImageProtocolSupported ImageType \<and> image_cpu (options E) Machine \<noteq> None \<and>
          (case AllocatePool_Record S of None \<Rightarrow> True | Some (p, r) \<Rightarrow> fresh_range b n p w)))"
| "admissible E (Unregister S b) w = True"

fun all_admissible :: "('u, 'c) env \<Rightarrow> image_request list \<Rightarrow> ('u, 'c, 'z) image_world_scheme \<Rightarrow> bool" where
  "all_admissible E [] w = True"
| "all_admissible E (q # qs) w =
     (admissible E q w \<and>
      (case serve E q w :: (unit, efi_status \<times> ('u, 'c, 'z) image_world_scheme) outcome of
         Done (Status, w) \<Rightarrow> all_admissible E qs w | _ \<Rightarrow> False))"

section \<open>The specification\<close>

text \<open>An image: its base, its size, and the processor that runs it.\<close>

type_synonym image_map = "u64 \<Rightarrow> (u64 \<times> u64 \<times> cpu_id) option"

text \<open>
  A registration adds the range of the image, also when the attributes of its
  memory cannot be set; a removal takes the image away that holds the address.
\<close>

fun specified :: "build \<Rightarrow> memory \<Rightarrow> image_request \<Rightarrow> image_map \<Rightarrow> image_map" where
  "specified bld mm (Register S b n e) m =
     (case PeCoffLoaderGetImageInfo S mm b of (Status, ImageType, Machine) \<Rightarrow>
        if EFI_ERROR Status \<or> AllocatePool_Record S = None then m
        else (case image_cpu bld Machine of None \<Rightarrow> m
              | Some c \<Rightarrow> (\<lambda>a. if b \<le> a \<and> a < b + n then Some (b, n, c) else m a)))"
| "specified bld mm (Unregister S b) m = (case m b of None \<Rightarrow> m | Some x \<Rightarrow> (\<lambda>a. if m a = Some x then None else m a))"

definition image_of :: "ImageRecord \<Rightarrow> u64 \<times> u64 \<times> cpu_id" where
  "image_of r = (ImageBase r, ImageSize r, the (rec_Cpu r))"

definition images_as_map :: "('u, 'c, 'z) image_world_scheme \<Rightarrow> image_map" where
  "images_as_map w a = map_option (\<lambda>p. image_of (Records w p)) (ImageFindByAddress a w)"

section \<open>Refinement\<close>

lemma images_as_map_added:
  assumes "images_ok w" "fresh_range b n p w"
  shows "images_as_map (image_added E c b n e p r w) = (\<lambda>a. if b \<le> a \<and> a < b + n then Some (b, n, c) else images_as_map w a)"
proof
  fix a
  have "ImageFindByAddress a w = Some q \<Longrightarrow> q \<noteq> p" for q
    using im.fresh_unused [OF assms, of a] by auto
  then show "images_as_map (image_added E c b n e p r w) a = (if b \<le> a \<and> a < b + n then Some (b, n, c) else images_as_map w a)"
    using im.lookup_add [OF assms, of a E c e r]
    by (cases "ImageFindByAddress a w") (auto simp: images_as_map_def image_of_def)
qed

text \<open>Two images with the same base are one.\<close>

lemma same_image:
  assumes "images_ok w" "ImageFindByAddress a w = Some p" "ImageFindByAddress b w = Some q"
  shows "image_of (Records w p) = image_of (Records w q) \<longleftrightarrow> p = q"
proof
  assume e: "image_of (Records w p) = image_of (Records w q)"
  have in_list: "p \<in> set (mImageList w)" "q \<in> set (mImageList w)"
    using assms by (simp_all add: ImageFindByAddress_iff)
  have "covers (Records w p) (ImageBase (Records w p))" "covers (Records w q) (ImageBase (Records w p))"
    using e in_list assms(1) by (auto simp: images_ok_def covers_def image_of_def)
  with in_list assms(1) show "p = q" unfolding images_ok_def by blast
qed simp

lemma images_as_map_removed:
  assumes "images_ok w" "ImageFindByAddress b w = Some p"
  shows "images_as_map (image_removed E p w) = (\<lambda>a. if images_as_map w a = Some (image_of (Records w p)) then None else images_as_map w a)"
proof
  fix a
  show "images_as_map (image_removed E p w) a =
      (if images_as_map w a = Some (image_of (Records w p)) then None else images_as_map w a)"
    using im.lookup_del [OF assms(1), of a E p] same_image [OF assms(1) _ assms(2), of a]
    by (cases "ImageFindByAddress a w") (auto simp: images_as_map_def)
qed

text \<open>The result does not depend on the type of the jumps, which it never makes.\<close>

lemma serve_same:
  fixes w :: "('u, 'c, 'z) image_world_scheme"
  assumes "(serve E q w :: ('j, efi_status \<times> ('u, 'c, 'z) image_world_scheme) outcome) = Done x"
  shows "(serve E q w :: ('k, efi_status \<times> ('u, 'c, 'z) image_world_scheme) outcome) = Done x"
  using assms
  by (cases q) (auto simp: ImageProtocolRegister_def ImageProtocolUnregister_def Let_def split: prod.splits option.splits if_splits)

lemma serve_refines:
  fixes w :: "('u, 'c, 'z) image_world_scheme"
  assumes "images_ok w" "admissible E q w"
  shows "\<exists>Status w'. (serve E q w :: ('j, efi_status \<times> ('u, 'c, 'z) image_world_scheme) outcome) = Done (Status, w') \<and> images_ok w' \<and>
    mem w' = mem w \<and> images_as_map w' = specified (options E) (mem w) q (images_as_map w)"
proof (cases q)
  case (Register S b n e)
  obtain st ty machine where i: "PeCoffLoaderGetImageInfo S (mem w) b = (st, ty, machine)" by (metis prod_cases3)
  show ?thesis
  proof (cases "EFI_ERROR st \<or> AllocatePool_Record S = None")
    case True
    with assms Register i show ?thesis
      by (cases "EFI_ERROR st") (auto simp: ImageProtocolRegister_def ImageProtocolSupported_def Let_def split: if_splits)
  next
    case False
    then obtain p r c where a: "\<not> EFI_ERROR st" "ImageProtocolSupported ty" "AllocatePool_Record S = Some (p, r)"
      "image_cpu (options E) machine = Some c" "fresh_range b n p w" using assms(2) Register i by auto
    let ?w = "image_added E c b n e p r w"
    have "(ImageProtocolRegister E S b n e w :: ('j, efi_status \<times> u64 \<times> ('u, 'c, 'z) image_world_scheme) outcome) =
        (let Status = fw_SetMemoryAttributes S b n EFI_MEMORY_XP
         in if EFI_ERROR Status then Done (Status, e, ?w) else Done (EFI_SUCCESS, address_of_CpuRunImage E, ?w))"
      by (rule ImageProtocolRegister_added [OF i a(1-4)])
    then have "\<exists>Status. (serve E q w :: ('j, efi_status \<times> ('u, 'c, 'z) image_world_scheme) outcome) = Done (Status, ?w)"
      by (simp add: Register Let_def)
    then show ?thesis
      using images_ok_added [OF assms(1) a(5)] images_as_map_added [OF assms(1) a(5)] a(1,3,4)
      by (auto simp: Register i)
  qed
next
  case (Unregister S b)
  show ?thesis
  proof (cases "ImageFindByAddress b w")
    case None
    with assms(1) Unregister show ?thesis by (simp add: ImageProtocolUnregister_def images_as_map_def)
  next
    case (Some p)
    have "(serve E q w :: ('j, efi_status \<times> ('u, 'c, 'z) image_world_scheme) outcome) =
        Done (fw_SetMemoryAttributes S (ImageBase (Records w p)) (ImageSize (Records w p)) 0, image_removed E p w)"
      unfolding Unregister serve.simps by (rule ImageProtocolUnregister_removed [OF assms(1) Some])
    moreover have "images_as_map w b = Some (image_of (Records w p))" using Some by (simp add: images_as_map_def)
    ultimately show ?thesis
      using images_ok_removed [OF assms(1)] images_as_map_removed [OF assms(1) Some] by (simp add: Unregister)
  qed
qed

lemma serve_all_refines:
  fixes w :: "('u, 'c, 'z) image_world_scheme"
  assumes "images_ok w" "all_admissible E qs w"
  shows "\<exists>w'. (serve_all E qs w :: ('j, ('u, 'c, 'z) image_world_scheme) outcome) = Done w' \<and> images_ok w' \<and>
    images_as_map w' = fold (specified (options E) (mem w)) qs (images_as_map w)"
  using assms
proof (induction qs arbitrary: w)
  case (Cons q qs)
  from Cons.prems(2) have a: "admissible E q w" by simp
  from serve_refines [OF Cons.prems(1) a] obtain st w1 where
    j: "(serve E q w :: ('j, efi_status \<times> ('u, 'c, 'z) image_world_scheme) outcome) = Done (st, w1)" "images_ok w1" "mem w1 = mem w"
      "images_as_map w1 = specified (options E) (mem w) q (images_as_map w)" by blast
  have "all_admissible E qs w1"
    using Cons.prems(2) serve_same [OF j(1), where 'k = unit] by simp
  from Cons.IH [OF j(2) this] j show ?case by simp
qed simp

section \<open>Property\<close>


text \<open>
  Witness: with an image at 0x20000, register one at 0x40000, fail to set the
  attributes of it, and unregister the first by an address inside it.
\<close>

lemma example_images_map:
  "images_as_map example_images a = (if 0x20000 \<le> a \<and> a < 0x24000 then Some (0x20000, 0x4000, CpuX64) else None)"
  by (simp add: images_as_map_def ImageFindByAddress_def example_images_def covers_def example_record_def image_of_def)


end
