(* ===== verification/Cached_Entry.thy ===== *)
theory Cached_Entry
  imports Prelude
begin

text \<open>
  CachedSTDriverEntryPoint/DriverEntryPoint.c: the entry point library of the
  driver.  It gives the driver copies of the system table and of the two service
  tables, so that hooks another driver installs later in the originals are not
  seen by the emulator.
\<close>

section \<open>State\<close>

record EFI_SYSTEM_TABLE =
  Revision :: u32
  BootServices :: u64
  RuntimeServices :: u64

text \<open>
  The tables in memory by address (the contents of the service tables are of
  parameter types), the blocks allocated by the library, its two pointers, the
  Unload member of the loaded image protocol, and the state of the driver.
\<close>

record ('b, 'r, 'd) entry_world =
  sys :: "u64 \<Rightarrow> EFI_SYSTEM_TABLE"
  boot :: "u64 \<Rightarrow> 'b"
  runtime :: "u64 \<Rightarrow> 'r"
  blocks :: "u64 list"
  mRealST :: u64
  mCachedST :: u64
  Unload_set :: bool
  entry_assert :: bool
  driver :: 'd

text \<open>The answers of AllocatePool for the three tables, and of HandleProtocol.\<close>

record entry_firmware =
  alloc_ST :: "efi_status \<times> u64"
  alloc_BS :: "efi_status \<times> u64"
  alloc_RT :: "efi_status \<times> u64"
  HandleProtocol_status :: efi_status

text \<open>The code the build generates for the module: the lists of its constructors, entry points, destructors and unload handlers.\<close>

record 'w module_code =
  gUefiDriverRevision :: u32
  gDriverUnloadImageCount :: nat
  ProcessLibraryConstructorList :: "u64 \<Rightarrow> 'w \<Rightarrow> 'w"
  ProcessModuleEntryPointList :: "u64 \<Rightarrow> 'w \<Rightarrow> efi_status \<times> 'w"
  ProcessLibraryDestructorList :: "u64 \<Rightarrow> 'w \<Rightarrow> 'w"
  ProcessModuleUnloadList :: "'w \<Rightarrow> efi_status \<times> 'w"

section \<open>The functions\<close>

definition FreePool_block :: "u64 \<Rightarrow> ('b, 'r, 'd) entry_world \<Rightarrow> ('b, 'r, 'd) entry_world" where
  "FreePool_block p w = w\<lparr>blocks := remove1 p (blocks w)\<rparr>"

text \<open>The three calls of FreePool at the end of the life of the driver.\<close>

definition free_tables :: "('b, 'r, 'd) entry_world \<Rightarrow> ('b, 'r, 'd) entry_world" where
  "free_tables w =
     (let w = FreePool_block (RuntimeServices (sys w (mCachedST w))) w;
          w = FreePool_block (BootServices (sys w (mCachedST w))) w
      in FreePool_block (mCachedST w) w)"

definition DriverUnloadHandler ::
  "('b, 'r, 'd) entry_world module_code \<Rightarrow> u64 \<Rightarrow> ('b, 'r, 'd) entry_world \<Rightarrow> efi_status \<times> ('b, 'r, 'd) entry_world" where
  "DriverUnloadHandler M gST w =
     (let (Status, w) = ProcessModuleUnloadList M w
      in if \<not> EFI_ERROR Status then (Status, free_tables (ProcessLibraryDestructorList M gST w)) else (Status, w))"

text \<open>From the assignment of mRealST to the third CopyMem.\<close>

definition cache_tables ::
  "entry_firmware \<Rightarrow> u64 \<Rightarrow> ('b, 'r, 'd) entry_world \<Rightarrow> efi_status \<times> ('b, 'r, 'd) entry_world" where
  "cache_tables F SystemTable w =
     (let w = w\<lparr>mRealST := SystemTable\<rparr>;
          (Status, p) = alloc_ST F
      in if EFI_ERROR Status then (Status, w)
         else
           let w = w\<lparr>mCachedST := p, blocks := p # blocks w\<rparr>;
               w = w\<lparr>sys := (sys w)(mCachedST w := sys w (mRealST w))\<rparr>;
               (Status, q) = alloc_BS F
           in if EFI_ERROR Status then (Status, FreePool_block (mCachedST w) w)
              else
                let w = w\<lparr>sys := (sys w)(mCachedST w := (sys w (mCachedST w))\<lparr>BootServices := q\<rparr>), blocks := q # blocks w\<rparr>;
                    w = w\<lparr>boot := (boot w)(BootServices (sys w (mCachedST w)) := boot w (BootServices (sys w (mRealST w))))\<rparr>;
                    (Status, r) = alloc_RT F
                in if EFI_ERROR Status
                   then (Status, FreePool_block (mCachedST w) (FreePool_block (BootServices (sys w (mCachedST w))) w))
                   else
                     let w = w\<lparr>sys := (sys w)(mCachedST w := (sys w (mCachedST w))\<lparr>RuntimeServices := r\<rparr>), blocks := r # blocks w\<rparr>
                     in (Status, w\<lparr>runtime := (runtime w)(RuntimeServices (sys w (mCachedST w)) :=
                                     runtime w (RuntimeServices (sys w (mRealST w))))\<rparr>))"

definition ModuleEntryPoint ::
  "entry_firmware \<Rightarrow> ('b, 'r, 'd) entry_world module_code \<Rightarrow> u64 \<Rightarrow> ('b, 'r, 'd) entry_world \<Rightarrow>
   efi_status \<times> ('b, 'r, 'd) entry_world" where
  "ModuleEntryPoint F M SystemTable w =
     (if gUefiDriverRevision M \<noteq> 0 \<and> Revision (sys w SystemTable) < gUefiDriverRevision M then (EFI_INCOMPATIBLE_VERSION, w)
      else
        let (Status, w) = cache_tables F SystemTable w
        in if EFI_ERROR Status then (Status, w)
           else
             let w = ProcessLibraryConstructorList M (mCachedST w) w;
                 w = (if gDriverUnloadImageCount M \<noteq> 0
                      then w\<lparr>entry_assert := entry_assert w \<or> EFI_ERROR (HandleProtocol_status F), Unload_set := True\<rparr> else w);
                 (Status, w) = ProcessModuleEntryPointList M (mCachedST w) w
             in if EFI_ERROR Status then (Status, free_tables (ProcessLibraryDestructorList M (mCachedST w) w))
                else (Status, w))"

definition EfiMain ::
  "entry_firmware \<Rightarrow> ('b, 'r, 'd) entry_world module_code \<Rightarrow> u64 \<Rightarrow> ('b, 'r, 'd) entry_world \<Rightarrow>
   efi_status \<times> ('b, 'r, 'd) entry_world" where
  "EfiMain F M SystemTable w = ModuleEntryPoint F M SystemTable w"

section \<open>Lemmas\<close>

text \<open>What the code of the driver leaves alone: the library's pointers and blocks, and the two pointers in its table.\<close>

definition tables_kept :: "('b, 'r, 'd) entry_world \<Rightarrow> ('b, 'r, 'd) entry_world \<Rightarrow> bool" where
  "tables_kept w w' \<longleftrightarrow> blocks w' = blocks w \<and> mCachedST w' = mCachedST w \<and> mRealST w' = mRealST w \<and>
     BootServices (sys w' (mCachedST w)) = BootServices (sys w (mCachedST w)) \<and>
     RuntimeServices (sys w' (mCachedST w)) = RuntimeServices (sys w (mCachedST w))"

definition module_ok :: "('b, 'r, 'd) entry_world module_code \<Rightarrow> bool" where
  "module_ok M \<longleftrightarrow>
     (\<forall>t w. tables_kept w (ProcessLibraryConstructorList M t w) \<and> tables_kept w (snd (ProcessModuleEntryPointList M t w)) \<and>
        tables_kept w (ProcessLibraryDestructorList M t w) \<and> tables_kept w (snd (ProcessModuleUnloadList M w)))"

lemma tables_kept_trans: "tables_kept w w' \<Longrightarrow> tables_kept w' w'' \<Longrightarrow> tables_kept w w''"
  by (simp add: tables_kept_def)

text \<open>The library owns its three tables.\<close>

definition owns_tables :: "u64 list \<Rightarrow> ('b, 'r, 'd) entry_world \<Rightarrow> bool" where
  "owns_tables bs w \<longleftrightarrow>
     blocks w = [RuntimeServices (sys w (mCachedST w)), BootServices (sys w (mCachedST w)), mCachedST w] @ bs"

lemma owns_tables_kept: "tables_kept w w' \<Longrightarrow> owns_tables bs w \<Longrightarrow> owns_tables bs w'"
  by (simp add: tables_kept_def owns_tables_def)

lemma free_tables_owned: "owns_tables bs w \<Longrightarrow> blocks (free_tables w) = bs"
  by (simp add: owns_tables_def free_tables_def FreePool_block_def Let_def)

text \<open>The copies, and the originals, which are not written.\<close>

lemma cache_tables_result:
  assumes "cache_tables F T w = (st, w')" "snd (alloc_ST F) \<noteq> T" "snd (alloc_BS F) \<noteq> BootServices (sys w T)"
    "snd (alloc_RT F) \<noteq> RuntimeServices (sys w T)"
  shows "EFI_ERROR st \<Longrightarrow> blocks w' = blocks w"
    "\<not> EFI_ERROR st \<Longrightarrow> owns_tables (blocks w) w' \<and> mRealST w' = T \<and>
      sys w' T = sys w T \<and> boot w' (BootServices (sys w T)) = boot w (BootServices (sys w T)) \<and>
      runtime w' (RuntimeServices (sys w T)) = runtime w (RuntimeServices (sys w T)) \<and>
      sys w' (mCachedST w') = (sys w T)\<lparr>BootServices := snd (alloc_BS F), RuntimeServices := snd (alloc_RT F)\<rparr> \<and>
      boot w' (BootServices (sys w' (mCachedST w'))) = boot w (BootServices (sys w T)) \<and>
      runtime w' (RuntimeServices (sys w' (mCachedST w'))) = runtime w (RuntimeServices (sys w T))"
  using assms
  by (auto simp: cache_tables_def FreePool_block_def owns_tables_def Let_def split: prod.splits if_splits)

section \<open>Property\<close>

text \<open>
  C39: when the entry point fails, for want of memory or because the driver does,
  every block it allocated is free again; when it succeeds the library owns
  exactly the three copies, and unloading the driver frees them.  What it gives
  the driver are copies: the system table with its two pointers redirected, and
  service tables equal to the originals, which are not written.
\<close>

theorem ModuleEntryPoint_owns_copies:
  assumes "module_ok M" "ModuleEntryPoint F M T w = (st, w')"
    and "snd (alloc_ST F) \<noteq> T" "snd (alloc_BS F) \<noteq> BootServices (sys w T)" "snd (alloc_RT F) \<noteq> RuntimeServices (sys w T)"
  shows "(EFI_ERROR st \<longrightarrow> blocks w' = blocks w) \<and>
    (\<not> EFI_ERROR st \<longrightarrow> owns_tables (blocks w) w' \<and>
       (\<forall>gST s w''. DriverUnloadHandler M gST w' = (s, w'') \<and> \<not> EFI_ERROR s \<longrightarrow> blocks w'' = blocks w) \<and>
       (\<exists>s1 w1. cache_tables F T w = (s1, w1) \<and>
          sys w1 (mCachedST w1) = (sys w T)\<lparr>BootServices := snd (alloc_BS F), RuntimeServices := snd (alloc_RT F)\<rparr> \<and>
          boot w1 (snd (alloc_BS F)) = boot w (BootServices (sys w T)) \<and>
          runtime w1 (snd (alloc_RT F)) = runtime w (RuntimeServices (sys w T)) \<and>
          sys w1 T = sys w T \<and> boot w1 (BootServices (sys w T)) = boot w (BootServices (sys w T)) \<and>
          runtime w1 (RuntimeServices (sys w T)) = runtime w (RuntimeServices (sys w T))))"
proof (cases "gUefiDriverRevision M \<noteq> 0 \<and> Revision (sys w T) < gUefiDriverRevision M")
  case True
  with assms(2) show ?thesis by (auto simp: ModuleEntryPoint_def)
next
  case False
  obtain s1 w1 where c: "cache_tables F T w = (s1, w1)" by (metis surj_pair)
  note cached = cache_tables_result [OF c assms(3-5)]
  show ?thesis
  proof (cases "EFI_ERROR s1")
    case True
    with False c assms(2) cached(1) show ?thesis by (auto simp: ModuleEntryPoint_def)
  next
    case ok: False
    let ?w2 = "ProcessLibraryConstructorList M (mCachedST w1) w1"
    let ?w3 = "if gDriverUnloadImageCount M \<noteq> 0
      then ?w2\<lparr>entry_assert := entry_assert ?w2 \<or> EFI_ERROR (HandleProtocol_status F), Unload_set := True\<rparr> else ?w2"
    obtain s4 w4 where e: "ProcessModuleEntryPointList M (mCachedST ?w3) ?w3 = (s4, w4)" by (metis surj_pair)
    have "tables_kept w1 ?w2" using assms(1) by (simp add: module_ok_def)
    moreover have "tables_kept ?w2 ?w3" by (simp add: tables_kept_def)
    moreover have "tables_kept ?w3 w4" using assms(1) e by (metis module_ok_def snd_conv)
    ultimately have "tables_kept w1 w4" by (blast intro: tables_kept_trans)
    with cached(2) [OF ok] have own: "owns_tables (blocks w) w4" by (blast intro: owns_tables_kept)
    have destroyed: "blocks (free_tables (ProcessLibraryDestructorList M t v)) = blocks w" if "owns_tables (blocks w) v" for t v
      using that assms(1) owns_tables_kept free_tables_owned unfolding module_ok_def by blast
    have unload: "blocks w'' = blocks w" if "DriverUnloadHandler M gST w4 = (s, w'')" "\<not> EFI_ERROR s" for gST s w''
    proof -
      obtain s5 w5 where u: "ProcessModuleUnloadList M w4 = (s5, w5)" by (metis surj_pair)
      then have "tables_kept w4 w5" using assms(1) by (metis module_ok_def snd_conv)
      with own have "owns_tables (blocks w) w5" by (blast intro: owns_tables_kept)
      with that u show ?thesis by (auto simp: DriverUnloadHandler_def destroyed split: if_splits)
    qed
    have "st = s4 \<and> w' = (if EFI_ERROR s4 then free_tables (ProcessLibraryDestructorList M (mCachedST w4) w4) else w4)"
      using assms(2) False c ok e by (auto simp: ModuleEntryPoint_def Let_def split: if_splits)
    then show ?thesis using own destroyed [OF own] unload cached(2) [OF ok] c by auto
  qed
qed

section \<open>Witness\<close>

definition example_module :: "(nat, nat, nat) entry_world module_code" where
  "example_module = \<lparr>gUefiDriverRevision = 0x20046, gDriverUnloadImageCount = 1,
     ProcessLibraryConstructorList = (\<lambda>t w. w), ProcessModuleEntryPointList = (\<lambda>t w. (EFI_SUCCESS, w\<lparr>driver := driver w + 1\<rparr>)),
     ProcessLibraryDestructorList = (\<lambda>t w. w), ProcessModuleUnloadList = (\<lambda>w. (EFI_SUCCESS, w\<lparr>driver := 0\<rparr>))\<rparr>"

definition example_entry_world :: "(nat, nat, nat) entry_world" where
  "example_entry_world = \<lparr>sys = (\<lambda>_. \<lparr>Revision = 0x20046, BootServices = 0x2000, RuntimeServices = 0x3000\<rparr>), boot = (\<lambda>_. 7),
     runtime = (\<lambda>_. 9), blocks = [0x9000], mRealST = 0, mCachedST = 0, Unload_set = False, entry_assert = False, driver = 0\<rparr>"

definition example_entry_firmware :: entry_firmware where
  "example_entry_firmware = \<lparr>alloc_ST = (EFI_SUCCESS, 0x5000), alloc_BS = (EFI_SUCCESS, 0x6000), alloc_RT = (EFI_SUCCESS, 0x7000),
     HandleProtocol_status = EFI_SUCCESS\<rparr>"

theorem ModuleEntryPoint_owns_copies_witness:
  "\<exists>w'. ModuleEntryPoint example_entry_firmware example_module 0x1000 example_entry_world = (EFI_SUCCESS, w') \<and>
    owns_tables [0x9000] w'"
proof -
  obtain w' where r: "ModuleEntryPoint example_entry_firmware example_module 0x1000 example_entry_world = (EFI_SUCCESS, w')"
    by (simp add: ModuleEntryPoint_def cache_tables_def example_module_def example_entry_world_def example_entry_firmware_def)
  have "module_ok example_module" by (simp add: module_ok_def tables_kept_def example_module_def)
  from ModuleEntryPoint_owns_copies [OF this r] r show ?thesis
    by (auto simp: example_entry_world_def example_entry_firmware_def)
qed

end
