(* ===== verification/Test_Protocol.thy ===== *)
theory Test_Protocol
  imports Run_Props
begin

text \<open>
  TestProtocol.c, the protocol of a DEBUG build that the test application calls
  from emulated code: calls with sixteen arguments in both directions, and the
  pair TestSj and TestLj, which leaves a call of emulated code by a long jump.
\<close>

section \<open>Values\<close>

definition ARG_VAL :: "u64 \<Rightarrow> u64" where "ARG_VAL x = push_bit 56 x OR x"
definition RET_VAL :: u64 where "RET_VAL = ARG_VAL 0xFF"

definition test_args :: args where
  "test_args i = (if i < 16 then ARG_VAL (of_nat (i + 1)) else 0)"

definition TestRet :: u64 where "TestRet = RET_VAL"

definition TestArgs :: "args \<Rightarrow> efi_status" where
  "TestArgs A = (if \<forall>i < 16. A i = ARG_VAL (of_nat (i + 1)) then EFI_SUCCESS else EFI_INVALID_PARAMETER)"

section \<open>Callbacks\<close>

text \<open>
  A call of Cb from the driver.  In a build with wrapped entry points
  TestWrappedCb looks the image up itself; otherwise the call of an emulated
  function faults, and the exception handler passes it on to EmulatorVmEntry.
\<close>

definition TestWrappedCb ::
  "('u, 'c) run_env \<Rightarrow> (native \<Rightarrow> ('u, 'c, 'z) world_scheme \<Rightarrow> (u64, ('u, 'c, 'z) world_scheme) run) \<Rightarrow>
   nat \<Rightarrow> u64 \<Rightarrow> u64 \<Rightarrow> args \<Rightarrow> ('u, 'c, 'z) world_scheme \<Rightarrow> (u64, ('u, 'c, 'z) world_scheme) run" where
  "TestWrappedCb R run n fp Cb A w =
     (case ImageFindByAddress Cb w of
        Some Record \<Rightarrow>
          let w = ASSERT_w (rec_Cpu (Records w Record) \<noteq> None) w
          in (case rec_Cpu (Records w Record) of
                None \<Rightarrow> Some (Crashed NULL_dereference)
              | Some Cpu \<Rightarrow> CpuRunFunc R run n fp Cpu Cb A w)
      | None \<Rightarrow> run (native_code R Cb A) w)"

definition call_Cb ::
  "('u, 'c) run_env \<Rightarrow> (native \<Rightarrow> ('u, 'c, 'z) world_scheme \<Rightarrow> (u64, ('u, 'c, 'z) world_scheme) run) \<Rightarrow>
   nat \<Rightarrow> u64 \<Rightarrow> u64 \<Rightarrow> args \<Rightarrow> ('u, 'c, 'z) world_scheme \<Rightarrow> (u64, ('u, 'c, 'z) world_scheme) run" where
  "call_Cb R run n fp Cb A w =
     (if MAU_WRAPPED_ENTRY_POINTS (options (Env R)) then TestWrappedCb R run n fp Cb A w
      else case ImageFindByAddress Cb w of
             Some Record \<Rightarrow> EmulatorVmEntry R run n fp Cb A Record w
           | None \<Rightarrow> run (native_code R Cb A) w)"

definition TestCbArgs ::
  "('u, 'c) run_env \<Rightarrow> (native \<Rightarrow> ('u, 'c, 'z) world_scheme \<Rightarrow> (u64, ('u, 'c, 'z) world_scheme) run) \<Rightarrow>
   nat \<Rightarrow> u64 \<Rightarrow> u64 \<Rightarrow> ('u, 'c, 'z) world_scheme \<Rightarrow> (u64, ('u, 'c, 'z) world_scheme) run" where
  "TestCbArgs R run n fp Cb w = call_Cb R run n fp Cb test_args w"

section \<open>SetJump and LongJump\<close>

text \<open>
  The jump buffer is a local variable of TestSj, at the address \<open>JumpBuffer\<close>.
  Without wrapped entry points the other arguments of Cb are not set.
\<close>

definition TestSj ::
  "('u, 'c) run_env \<Rightarrow> (native \<Rightarrow> ('u, 'c, 'z) world_scheme \<Rightarrow> (u64, ('u, 'c, 'z) world_scheme) run) \<Rightarrow>
   nat \<Rightarrow> u64 \<Rightarrow> u64 \<Rightarrow> u64 \<Rightarrow> ('u, 'c, 'z) world_scheme \<Rightarrow> (u64, ('u, 'c, 'z) world_scheme) run" where
  "TestSj R run n fp JumpBuffer Cb w =
     (let A = (\<lambda>i. if i = 0 then JumpBuffer else if MAU_WRAPPED_ENTRY_POINTS (options (Env R)) then 0 else uninitialised R i)
      in case call_Cb R run n fp Cb A w of
           None \<Rightarrow> None
         | Some (Done (v, w)) \<Rightarrow> Some (Done (EFI_INVALID_PARAMETER, w))
         | Some (Crashed c) \<Rightarrow> Some (Crashed c)
         | Some (Jumped (j, w)) \<Rightarrow>
             if j = ToNative (unat JumpBuffer) then Some (Done (EFI_SUCCESS, w)) else Some (Jumped (j, w)))"

definition TestLj :: "u64 \<Rightarrow> native" where
  "TestLj Buffer = NLongJump (unat Buffer)"

section \<open>Lemmas\<close>

text \<open>A callback behaves the same in both builds.\<close>

lemma call_Cb_emulated:
  assumes "ImageFindByAddress Cb w = Some Record" "rec_Cpu (Records w Record) = Some c"
  shows "call_Cb R run n fp Cb A w = CpuRunFunc R run n fp c Cb A w"
  using assms by (simp add: call_Cb_def TestWrappedCb_def EmulatorVmEntry_def)

text \<open>The arguments of TestCbArgs are the ones TestArgs accepts.\<close>

lemma TestArgs_test_args: "TestArgs test_args = EFI_SUCCESS"
  by (simp add: TestArgs_def test_args_def)

text \<open>
  Emulated code that passes the sixteen values on to the test protocol unchanged
  is accepted: a leaf function gets exactly the values of TestCbArgs.
\<close>

lemma TestCbArgs_leaf:
  fixes w :: "('u, 'c, 'z) world_scheme"
  assumes "env_ok R" "run_inv R L w" "X64_leaf (UC (Env R)) Cb TestArgs"
    and "X64_cpu (cpus w CpuX64)" "pending w = []" "FreeList (RunContextAlloc w CpuX64) \<noteq> []"
    and "ImageFindByAddress Cb w = Some Record" "rec_Cpu (Records w Record) = Some CpuX64"
  obtains w' where "TestCbArgs R (run_native R n) (Suc m) fp Cb w = Some (Done (EFI_SUCCESS, w'))" "step R {} L [] w [] w'"
proof -
  obtain w' where "CpuRunFunc R (run_native R n) (Suc m) fp CpuX64 Cb test_args w = Some (Done (TestArgs test_args, w'))"
    "step R {} L [] w [] w'" using leaf_call [OF assms(1-6)] by blast
  then show ?thesis
    using that by (simp add: TestCbArgs_def call_Cb_emulated [OF assms(7,8)] TestArgs_test_args)
qed

text \<open>
  TestSj reports success exactly when the callback left by TestLj.  The contexts
  this leaked are then still on the chain, above those that were live, and
  unwinding them brings back the registers: the check of the native thunk through
  which emulated code called TestSj does that.
\<close>

lemma TestSj_leaks:
  fixes w w' :: "('u, 'c, 'z) world_scheme"
  assumes "env_ok R" "run_inv R L w" "TestSj R (run_native R n) m fp JumpBuffer Cb w = Some (Done (v, w'))"
    and "ImageFindByAddress Cb w = Some Record" "rec_Cpu (Records w Record) = Some c"
  shows "\<exists>K. step R {} L [] w K w' \<and> (v = EFI_SUCCESS \<or> v = EFI_INVALID_PARAMETER \<and> K = [])"
proof -
  let ?A = "\<lambda>i. if i = 0 then JumpBuffer else if MAU_WRAPPED_ENTRY_POINTS (options (Env R)) then 0 else uninitialised R i"
  let ?x = "CpuRunFunc R (run_native R n) m fp c Cb ?A w"
  note call = CpuRunFunc_step [OF run_native_good [OF assms(1)] assms(1,2)]
  have x: "(\<exists>u. ?x = Some (Done (u, w')) \<and> v = EFI_INVALID_PARAMETER) \<or> (\<exists>j. ?x = Some (Jumped (j, w')) \<and> v = EFI_SUCCESS)"
    using assms(3) unfolding TestSj_def Let_def call_Cb_emulated [OF assms(4,5)]
    by (auto split: option.splits outcome.splits if_splits)
  then show ?thesis using call by blast
qed

end
