(* ===== verification/Emulator_Test.thy ===== *)
theory Emulator_Test
  imports Test_Protocol
begin

text \<open>
  EmulatorTest.c: the test application that runs in an emulated image.  It calls
  the test protocol and the boot services, which are parameters here, and logs a
  result per test; the model keeps the log.
\<close>

section \<open>State\<close>

text \<open>
  The calls that leave the application.  The callbacks are the application's own
  functions TestCbArgs, TestCbLj and TestExit.
\<close>

datatype test_call =
    Call_TestRet
  | Call_TestArgs args
  | Call_TestCbArgs
  | Call_TestCbArgs_TestExit
  | Call_TestSj_TestCbLj
  | Call_GetPerformanceCounterProperties
  | Call_GetPerformanceCounter
  | Call_RaiseTPL_HIGH_LEVEL
  | Call_RestoreTPL u64
  | Call_address u64
  | Read_address u64
  | Write_address u64 u64
  | Call_SelfModCodeFn u64
  | Write_SelfModCodeFn "u8 list"
  | Call_CpuSleep
  | Call_CreateEvent
  | Call_SetTimer
  | Call_CloseEvent
  | Call_GetNextMonotonicCount

text \<open>
  What a call returns and does to the state of the machine; TestGetDebugState;
  and how often a loop finds IsDone unset before TestTimerHandler sets it.
\<close>

record 's test_env =
  answer :: "test_call \<Rightarrow> 's \<Rightarrow> u64 \<times> 's"
  TestGetDebugState :: "'s \<Rightarrow> EMU_TEST_DEBUG_STATE"
  turns_until_done :: "'s \<Rightarrow> nat"
  mTest_located :: bool
  MDE_CPU_X64_app :: bool

record 's test_world =
  test_log :: "(string \<times> bool) list"
  outside :: 's
  test_assert :: bool
  loops_printed :: "u64 list"

definition LogResult :: "string \<Rightarrow> bool \<Rightarrow> ('s, 'z) test_world_scheme \<Rightarrow> ('s, 'z) test_world_scheme" where
  "LogResult String Result w = w\<lparr>test_log := test_log w @ [(String, Result)]\<rparr>"

definition leave_app :: "'s test_env \<Rightarrow> test_call \<Rightarrow> ('s, 'z) test_world_scheme \<Rightarrow> u64 \<times> ('s, 'z) test_world_scheme" where
  "leave_app E c w = (let (v, s) = answer E c (outside w) in (v, w\<lparr>outside := s\<rparr>))"

definition ASSERT_EFI_ERROR :: "u64 \<Rightarrow> ('s, 'z) test_world_scheme \<Rightarrow> ('s, 'z) test_world_scheme" where
  "ASSERT_EFI_ERROR Status w = (if EFI_ERROR Status then w\<lparr>test_assert := True\<rparr> else w)"

section \<open>Calls through the test protocol\<close>

text \<open>The callback that TestCbArgs of the protocol is given.\<close>

definition app_TestCbArgs :: "args \<Rightarrow> efi_status" where
  "app_TestCbArgs A =
     (if A 0 = ARG_VAL 1 \<and> A 1 = ARG_VAL 2 \<and> A 2 = ARG_VAL 3 \<and> A 3 = ARG_VAL 4 \<and>
         A 4 = ARG_VAL 5 \<and> A 5 = ARG_VAL 6 \<and> A 6 = ARG_VAL 7 \<and> A 7 = ARG_VAL 8 \<and>
         A 8 = ARG_VAL 9 \<and> A 9 = ARG_VAL 10 \<and> A 10 = ARG_VAL 11 \<and> A 11 = ARG_VAL 12 \<and>
         A 12 = ARG_VAL 13 \<and> A 13 = ARG_VAL 14 \<and> A 14 = ARG_VAL 15 \<and> A 15 = ARG_VAL 16
      then EFI_SUCCESS else EFI_INVALID_PARAMETER)"

text \<open>One turn of the loop of TestTplAndCb: the new Last, or None when it breaks.  Max is only printed.\<close>

definition tpl_turn :: "'s test_env \<Rightarrow> u64 \<Rightarrow> ('s, 'z) test_world_scheme \<Rightarrow> u64 option \<times> ('s, 'z) test_world_scheme" where
  "tpl_turn E Stop w =
     (let (OldTpl, w) = leave_app E Call_RaiseTPL_HIGH_LEVEL w;
          (Status, w) = leave_app E Call_TestCbArgs w
      in if Status \<noteq> EFI_SUCCESS then (None, LogResult ''TestTplAndCb'' False w)
         else
           let (Ticks, w) = leave_app E Call_GetPerformanceCounter w;
               (_, w) = leave_app E (Call_RestoreTPL OldTpl) w
           in if Ticks \<ge> Stop then (None, LogResult ''TestTplAndCb'' True w) else (Some Ticks, w))"

partial_function (option) tpl_loop :: "'s test_env \<Rightarrow> u64 \<Rightarrow> ('s, 'z) test_world_scheme \<Rightarrow> ('s, 'z) test_world_scheme option" where
  "tpl_loop E Stop w = (case tpl_turn E Stop w of (None, w) \<Rightarrow> Some w | (Some Last, w) \<Rightarrow> tpl_loop E Stop w)"

definition TestTplAndCb :: "'s test_env \<Rightarrow> ('s, 'z) test_world_scheme \<Rightarrow> ('s, 'z) test_world_scheme option" where
  "TestTplAndCb E w =
     (let (freq, w) = leave_app E Call_GetPerformanceCounterProperties w;
          Ticks = (2000 * freq) div 1000;
          (Last, w) = leave_app E Call_GetPerformanceCounter w
      in tpl_loop E (Last + Ticks) w)"

definition DoTestProtocolTests :: "'s test_env \<Rightarrow> ('s, 'z) test_world_scheme \<Rightarrow> ('s, 'z) test_world_scheme option" where
  "DoTestProtocolTests E w =
     (let (Ret, w) = leave_app E Call_TestRet w;
          w = LogResult ''Value return'' (Ret = RET_VAL) w;
          (Ret, w) = leave_app E (Call_TestArgs test_args) w;
          w = LogResult ''Argument passing'' (Ret = EFI_SUCCESS) w;
          (Ret, w) = leave_app E Call_TestCbArgs w;
          w = LogResult ''Callback args passing'' (Ret = EFI_SUCCESS) w;
          (Ret, w) = leave_app E Call_TestSj_TestCbLj w;
          w = LogResult ''TestSj/TestLj passing'' (Ret = EFI_SUCCESS) w
      in map_option (LogResult ''TestTplAndCb'' True) (TestTplAndCb E w))"

section \<open>The NULL page, timers, self-modifying code\<close>

definition TestNullCall :: "'s test_env \<Rightarrow> ('s, 'z) test_world_scheme \<Rightarrow> ('s, 'z) test_world_scheme" where
  "TestNullCall E w = (let (Ret, w) = leave_app E (Call_address 8) w in LogResult ''NULL(0x8) call'' (Ret = EFI_UNSUPPORTED) w)"

definition TestNullCall2 :: "'s test_env \<Rightarrow> ('s, 'z) test_world_scheme \<Rightarrow> ('s, 'z) test_world_scheme" where
  "TestNullCall2 E w = (let (Ret, w) = leave_app E (Call_address 0) w in LogResult ''NULL(0x0) call'' (Ret = EFI_UNSUPPORTED) w)"

definition TestNullDeref :: "'s test_env \<Rightarrow> ('s, 'z) test_world_scheme \<Rightarrow> ('s, 'z) test_world_scheme" where
  "TestNullDeref E w =
     (let (v, w) = leave_app E (Read_address 8) w;
          w = LogResult ''NULL read'' (v = 0xAFAFAFAFAFAFAFAF) w;
          (_, w) = leave_app E (Write_address 8 8) w
      in LogResult ''NULL write'' True w)"

definition TestCpuSleep :: "'s test_env \<Rightarrow> ('s, 'z) test_world_scheme \<Rightarrow> ('s, 'z) test_world_scheme" where
  "TestCpuSleep E w = (let (_, w) = leave_app E Call_CpuSleep w in LogResult ''CpuSleep'' True w)"

definition TestTimer :: "'s test_env \<Rightarrow> bool \<Rightarrow> ('s, 'z) test_world_scheme \<Rightarrow> ('s, 'z) test_world_scheme" where
  "TestTimer E WithCpuSleep w =
     (let (Status, w) = leave_app E Call_CreateEvent w;
          w = ASSERT_EFI_ERROR Status w;
          (Status, w) = leave_app E Call_SetTimer w;
          w = ASSERT_EFI_ERROR Status w;
          w = ((\<lambda>w. if WithCpuSleep then snd (leave_app E Call_CpuSleep w) else w) ^^ turns_until_done E (outside w)) w;
          w = LogResult (if WithCpuSleep then ''CpuSleep loop + timer'' else ''Tight loop + timer'') True w
      in snd (leave_app E Call_CloseEvent w))"

definition Patch1 :: "u8 list" where "Patch1 = [0x48, 0x89, 0xC8, 0xC3]"
definition Patch2 :: "u8 list" where "Patch2 = [0x48, 0xC7, 0xC0, 0xED, 0xFE, 0x00, 0x00, 0xC3]"

definition TestSelfModCode :: "'s test_env \<Rightarrow> ('s, 'z) test_world_scheme \<Rightarrow> ('s, 'z) test_world_scheme" where
  "TestSelfModCode E w =
     (if MDE_CPU_X64_app E then
        let (v, w) = leave_app E (Call_SelfModCodeFn 0x1337) w;
            w = LogResult ''Self-modifying code test before'' (v = 0) w;
            (_, w) = leave_app E (Write_SelfModCodeFn Patch1) w;
            (v, w) = leave_app E (Call_SelfModCodeFn 0xf00d) w;
            w = LogResult ''Self-modifying code test after 1'' (v = 0xf00d) w;
            (_, w) = leave_app E (Write_SelfModCodeFn Patch2) w;
            (v, w) = leave_app E (Call_SelfModCodeFn 0xf00d) w
        in LogResult ''Self-modifying code test after 2'' (v = 0xfeed) w
      else w)"

section \<open>Performance loops\<close>

text \<open>
  n is the number of times IsDone is found unset.  TestArray is a list of 64-bit
  words; an access of x bits at an element touches its low bits.  The store loops
  return a value of x bits.
\<close>

definition TestPerfMyCall1 :: u64 where "TestPerfMyCall1 = 1"

definition TestPerfEmpty :: "nat \<Rightarrow> u64" where "TestPerfEmpty n = ((\<lambda>Result. Result + 1) ^^ n) 0"

definition TestPerfMyCall :: "nat \<Rightarrow> u64" where "TestPerfMyCall n = ((\<lambda>Result. Result + TestPerfMyCall1) ^^ n) 0"

definition TestPerfLoad :: "nat \<Rightarrow> u64 list \<Rightarrow> nat \<Rightarrow> u64" where
  "TestPerfLoad x A n = ((\<lambda>Result. Result + take_bit x (A ! (unat Result mod length A))) ^^ n) 0"

definition store_low :: "nat \<Rightarrow> u64 \<Rightarrow> u64 \<Rightarrow> u64" where
  "store_low x v old = (old AND NOT (mask x)) OR take_bit x v"

definition TestPerfStore :: "nat \<Rightarrow> u64 list \<Rightarrow> nat \<Rightarrow> u64 \<times> u64 list" where
  "TestPerfStore x A n =
     (let (Result, A) = ((\<lambda>(Result, A). let i = unat Result mod length A
                            in (Result + 1, A[i := store_low x 1 (A ! i)])) ^^ n) (0, A)
      in (take_bit x Result, A))"

text \<open>PREP and PTEST: start the timer, run the loop, print its result.\<close>

definition perf_test :: "'s test_env \<Rightarrow> (nat \<Rightarrow> u64) \<Rightarrow> ('s, 'z) test_world_scheme \<Rightarrow> ('s, 'z) test_world_scheme" where
  "perf_test E loop w =
     (let (Status, w) = leave_app E Call_SetTimer w;
          w = ASSERT_EFI_ERROR Status w
      in w\<lparr>loops_printed := loops_printed w @ [loop (turns_until_done E (outside w))]\<rparr>)"

definition TestPerfNativeCall :: "'s test_env \<Rightarrow> ('s, 'z) test_world_scheme \<Rightarrow> ('s, 'z) test_world_scheme" where
  "TestPerfNativeCall E w =
     (let (Status, w) = leave_app E Call_SetTimer w;
          w = ASSERT_EFI_ERROR Status w;
          (Result, w) = ((\<lambda>(Result, w). (Result + 1, snd (leave_app E Call_GetNextMonotonicCount w))) ^^
                           turns_until_done E (outside w)) (0, w)
      in w\<lparr>loops_printed := loops_printed w @ [Result]\<rparr>)"

text \<open>
  The array holds ones, and the loops that store write ones, so each test finds
  it as the one before did.
\<close>

definition TestArray :: "u64 list" where "TestArray = replicate 512 1"

definition TestPerf :: "'s test_env \<Rightarrow> ('s, 'z) test_world_scheme \<Rightarrow> ('s, 'z) test_world_scheme" where
  "TestPerf E w =
     (let (Status, w) = leave_app E Call_CreateEvent w;
          w = ASSERT_EFI_ERROR Status w;
          w = TestPerfNativeCall E (perf_test E TestPerfMyCall (perf_test E TestPerfEmpty w));
          w = fold (\<lambda>x. perf_test E (TestPerfLoad x TestArray)) [64, 32, 16, 8] w;
          w = fold (\<lambda>x. perf_test E (\<lambda>n. fst (TestPerfStore x TestArray n))) [64, 32, 16, 8] w;
          w = LogResult ''TestPerf'' True w
      in snd (leave_app E Call_CloseEvent w))"

section \<open>The entry point\<close>

text \<open>TestExit, the last callback, leaves the image and does not come back; so neither does the entry point then.\<close>

definition tests_without_protocol :: "'s test_env \<Rightarrow> ('s, 'z) test_world_scheme \<Rightarrow> ('s, 'z) test_world_scheme" where
  "tests_without_protocol E w = TestPerf E (TestTimer E True (TestTimer E False (TestCpuSleep E (TestSelfModCode E w))))"

definition EmulatorTestEntryPoint ::
  "'s test_env \<Rightarrow> ('s, 'z) test_world_scheme \<Rightarrow> (efi_status \<times> ('s, 'z) test_world_scheme) option" where
  "EmulatorTestEntryPoint E w =
     (if \<not> mTest_located E then Some (EFI_SUCCESS, tests_without_protocol E w)
      else
        let mBeginDebugState = TestGetDebugState E (outside w)
        in case DoTestProtocolTests E w of
             None \<Rightarrow> None
           | Some w \<Rightarrow>
               let w = (if HostMachineType mBeginDebugState \<noteq> CallerMachineType mBeginDebugState
                        then TestNullDeref E (TestNullCall2 E (TestNullCall E w)) else w);
                   w = tests_without_protocol E w;
                   DebugState = TestGetDebugState E (outside w);
                   w = (if ContextCount DebugState = X64ContextCount DebugState + AArch64ContextCount DebugState then w
                        else w\<lparr>test_assert := True\<rparr>);
                   (_, w) = leave_app E Call_TestCbArgs_TestExit w
               in Some (EFI_ABORTED, w))"

section \<open>Lemmas\<close>

text \<open>The application and the driver check the same sixteen values.\<close>

lemma app_TestCbArgs_eq: "app_TestCbArgs A = TestArgs A"
  by (auto simp: app_TestCbArgs_def TestArgs_def All_less_Suc eval_nat_numeral)

text \<open>The counts of the loops.  A store loop of x bits reports its count modulo 2 ^ x.\<close>

lemma count_up: "((\<lambda>r. r + 1) ^^ n) 0 = (of_nat n :: u64)"
  by (induction n) simp_all

lemma TestPerf_counts: "TestPerfEmpty n = of_nat n" "TestPerfMyCall n = of_nat n"
  by (simp_all add: TestPerfEmpty_def TestPerfMyCall_def TestPerfMyCall1_def count_up)

lemma TestPerfLoad_count:
  assumes "0 < x"
  shows "TestPerfLoad x TestArray n = of_nat n"
proof -
  have "take_bit x (TestArray ! (unat r mod length TestArray)) = 1" for r :: u64
    using assms by (simp add: TestArray_def)
  then have "(\<lambda>r. r + take_bit x (TestArray ! (unat r mod length TestArray))) = (\<lambda>r. r + 1)" by simp
  then show ?thesis by (simp only: TestPerfLoad_def count_up)
qed

lemma TestPerfStore_count:
  assumes "0 < x"
  shows "TestPerfStore x TestArray n = (take_bit x (of_nat n), TestArray)"
proof -
  have one: "store_low x 1 1 = 1"
    using assms by (auto simp: store_low_def bit_eq_iff bit_simps)
  have keep: "TestArray[i := store_low x 1 (TestArray ! i)] = TestArray" if "i < 512" for i
    by (rule nth_equalityI) (use that in \<open>auto simp: TestArray_def one nth_list_update\<close>)
  have "((\<lambda>(Result, A). let i = unat Result mod length A in (Result + 1, A[i := store_low x 1 (A ! i)])) ^^ n) (0 :: u64, TestArray) =
      (of_nat n, TestArray)"
    by (induction n) (simp_all add: Let_def keep TestArray_def [THEN arg_cong [where f = length]] add.commute)
  then show ?thesis by (simp add: TestPerfStore_def)
qed

text \<open>
  A machine on which TestTplAndCb ends: every reading of the performance counter
  makes it advance, no call takes more than D ticks, callbacks succeed,
  RaiseTPL and RestoreTPL set the task priority level as UEFI says, and reading
  the counter or its frequency leaves it alone.
\<close>

definition timed :: "'s test_env \<Rightarrow> ('s \<Rightarrow> nat) \<Rightarrow> ('s \<Rightarrow> u64) \<Rightarrow> nat \<Rightarrow> bool" where
  "timed E clock tpl D \<longleftrightarrow>
     (\<forall>c s. clock s \<le> clock (snd (answer E c s)) \<and> clock (snd (answer E c s)) \<le> clock s + D) \<and>
     (\<forall>s. fst (answer E Call_GetPerformanceCounter s) = of_nat (clock s) \<and>
        clock s < clock (snd (answer E Call_GetPerformanceCounter s))) \<and>
     (\<forall>s. fst (answer E Call_RaiseTPL_HIGH_LEVEL s) = tpl s) \<and>
     (\<forall>s v. tpl (snd (answer E (Call_RestoreTPL v) s)) = v) \<and>
     (\<forall>s. fst (answer E Call_TestCbArgs s) = EFI_SUCCESS) \<and>
     (\<forall>s. tpl (snd (answer E Call_GetPerformanceCounter s)) = tpl s \<and>
        tpl (snd (answer E Call_GetPerformanceCounterProperties s)) = tpl s)"

lemma tpl_turn_timed:
  assumes "timed E clock tpl D" "clock (outside w) + 2 * D < 2 ^ 64"
  shows "\<exists>t w'. tpl_turn E Stop w = (if of_nat t \<ge> Stop then None else Some (of_nat t),
      if of_nat t \<ge> Stop then LogResult ''TestTplAndCb'' True w' else w') \<and>
    test_log w' = test_log w \<and> tpl (outside w') = tpl (outside w) \<and> clock (outside w) \<le> t \<and> t < 2 ^ 64 \<and>
    t < clock (outside w') \<and> clock (outside w') \<le> t + 2 * D"
proof -
  let ?s1 = "snd (answer E Call_RaiseTPL_HIGH_LEVEL (outside w))"
  let ?s2 = "snd (answer E Call_TestCbArgs ?s1)"
  let ?s3 = "snd (answer E Call_GetPerformanceCounter ?s2)"
  let ?s4 = "snd (answer E (Call_RestoreTPL (tpl (outside w))) ?s3)"
  have step: "clock s \<le> clock (snd (answer E c s))" "clock (snd (answer E c s)) \<le> clock s + D" for c s
    using assms(1) by (simp_all add: timed_def)
  have read: "fst (answer E Call_GetPerformanceCounter ?s2) = of_nat (clock ?s2)" "clock ?s2 < clock ?s3"
    "fst (answer E Call_RaiseTPL_HIGH_LEVEL (outside w)) = tpl (outside w)" "tpl ?s4 = tpl (outside w)"
    "fst (answer E Call_TestCbArgs ?s1) = EFI_SUCCESS"
    using assms(1) by (simp_all add: timed_def)
  have t: "clock (outside w) \<le> clock ?s2" "clock ?s2 \<le> clock (outside w) + 2 * D" "clock ?s4 \<le> clock ?s2 + 2 * D" "clock ?s2 < clock ?s4"
    using step(1) [of "outside w" Call_RaiseTPL_HIGH_LEVEL] step(2) [of Call_RaiseTPL_HIGH_LEVEL "outside w"]
      step(1) [of ?s1 Call_TestCbArgs] step(2) [of Call_TestCbArgs ?s1] step(2) [of Call_GetPerformanceCounter ?s2]
      step(1) [of ?s3 "Call_RestoreTPL (tpl (outside w))"] step(2) [of "Call_RestoreTPL (tpl (outside w))" ?s3] read(2) by linarith+
  have "tpl_turn E Stop w =
      (if of_nat (clock ?s2) \<ge> Stop then None else Some (of_nat (clock ?s2)),
       if of_nat (clock ?s2) \<ge> Stop then LogResult ''TestTplAndCb'' True (w\<lparr>outside := ?s4\<rparr>) else w\<lparr>outside := ?s4\<rparr>)"
    using read by (simp add: tpl_turn_def leave_app_def case_prod_beta Let_def)
  with read(4) t assms(2) show ?thesis by (intro exI [of _ "clock ?s2"] exI [of _ "w\<lparr>outside := ?s4\<rparr>"]) simp
qed

text \<open>The loop ends, restores the task priority level and logs success.\<close>

lemma tpl_loop_ends:
  assumes "timed E clock tpl D" "unat Stop + 4 * D < 2 ^ 64" "clock (outside w) \<le> unat Stop + 2 * D"
  shows "\<exists>w'. tpl_loop E Stop w = Some w' \<and> test_log w' = test_log w @ [(''TestTplAndCb'', True)] \<and> tpl (outside w') = tpl (outside w)"
  using assms(3)
proof (induction "unat Stop + 2 * D - clock (outside w)" arbitrary: w rule: less_induct)
  case less
  have "clock (outside w) + 2 * D < 2 ^ 64" using less.prems assms(2) by simp
  from tpl_turn_timed [OF assms(1) this, of Stop] obtain t w1 where
    turn: "tpl_turn E Stop w = (if of_nat t \<ge> Stop then None else Some (of_nat t),
      if of_nat t \<ge> Stop then LogResult ''TestTplAndCb'' True w1 else w1)"
    and w1: "test_log w1 = test_log w" "tpl (outside w1) = tpl (outside w)" "clock (outside w) \<le> t" "t < 2 ^ 64"
      "t < clock (outside w1)" "clock (outside w1) \<le> t + 2 * D" by blast
  show ?case
  proof (cases "of_nat t \<ge> Stop")
    case True
    with turn w1(1,2) show ?thesis by (subst tpl_loop.simps) (simp add: LogResult_def)
  next
    case False
    then have "t < unat Stop" using unat_of_nat64 [OF w1(4)] by (simp add: word_le_nat_alt)
    then have "unat Stop + 2 * D - clock (outside w1) < unat Stop + 2 * D - clock (outside w)" "clock (outside w1) \<le> unat Stop + 2 * D"
      using w1 less.prems by linarith+
    from less.hyps [OF this] False turn w1(1,2) show ?thesis by (subst tpl_loop.simps) simp
  qed
qed

text \<open>
  A failing callback ends the loop too, but the task priority level stays at
  TPL\_HIGH\_LEVEL, and DoTestProtocolTests still logs a success afterwards.
\<close>

lemma tpl_loop_callback_fails:
  assumes "fst (answer E Call_TestCbArgs (snd (answer E Call_RaiseTPL_HIGH_LEVEL (outside w)))) \<noteq> EFI_SUCCESS"
  shows "\<exists>w'. tpl_loop E Stop w = Some w' \<and> test_log w' = test_log w @ [(''TestTplAndCb'', False)] \<and>
    outside w' = snd (answer E Call_TestCbArgs (snd (answer E Call_RaiseTPL_HIGH_LEVEL (outside w))))"
  using assms by (subst tpl_loop.simps) (simp add: tpl_turn_def leave_app_def case_prod_beta Let_def LogResult_def)

text \<open>
  The assertion at the end of the application holds whenever the debug state is
  the one CpuGetDebugState reports in a state of the running emulator.
\<close>

lemma debug_state_assertion:
  fixes v :: "('u, 'c, 'z) world_scheme"
  assumes "run_inv R K v" "MAU_SUPPORTS_X64_BINS (options (Env R))" "MAU_SUPPORTS_AARCH64_BINS (options (Env R))"
    and "CpuGetDebugState (Env R) v = Some (st, d, v')"
  shows "ContextCount d = X64ContextCount d + AArch64ContextCount d \<and> v' = v \<and> st = EFI_SUCCESS"
proof -
  have "ctxs_ok [] K v" "quiet (hooks v)" using assms(1) by (simp_all add: run_inv_def)
  from CpuGetDebugState_reports_chain [OF this assms(2,3)] assms(4) show ?thesis by auto
qed

section \<open>Property\<close>


text \<open>A machine with a counter of 1 MHz; its state is the counter and the task priority level.\<close>

definition example_test_env :: "(nat \<times> u64) test_env" where
  "example_test_env = \<lparr>answer = (\<lambda>c (k, t). case c of
       Call_GetPerformanceCounterProperties \<Rightarrow> (1000000, k, t)
     | Call_GetPerformanceCounter \<Rightarrow> (of_nat k, Suc k, t)
     | Call_RaiseTPL_HIGH_LEVEL \<Rightarrow> (t, k, 31)
     | Call_RestoreTPL v \<Rightarrow> (0, k, v)
     | _ \<Rightarrow> (EFI_SUCCESS, k, t)),
     TestGetDebugState = (\<lambda>_. \<lparr>HostMachineType = 0xAA64, CallerMachineType = 0x8664, ContextCount = 1, ExitPeriodMs = 1,
       X64ExitPeriodTicks = 1000, X64ExitPeriodTbs = 64, X64ContextCount = 1, AArch64ExitPeriodTicks = 0,
       AArch64ExitPeriodTbs = 64, AArch64ContextCount = 0\<rparr>),
     turns_until_done = (\<lambda>_. 3), mTest_located = True, MDE_CPU_X64_app = True\<rparr>"

lemma example_timed: "timed example_test_env fst snd 1"
  by (auto simp: timed_def example_test_env_def split: test_call.split)


end
