(* ===== verification/Component_Name.thy ===== *)
theory Component_Name
  imports Prelude
begin

text \<open>
  ComponentName.c: the two component name protocols of the driver, which share
  their functions and differ in the languages they list.  The look-up of a
  language in a table (LookupUnicodeString2) and the test that the driver
  manages a controller (EfiTestManagedDevice) are library functions and
  parameters here.
\<close>

section \<open>The protocols and their tables\<close>

text \<open>Which of gComponentName and gComponentName2 a call came through, and its SupportedLanguages.\<close>

datatype name_protocol = gComponentName | gComponentName2

primrec SupportedLanguages :: "name_protocol \<Rightarrow> string" where
  "SupportedLanguages gComponentName = ''eng''"
| "SupportedLanguages gComponentName2 = ''en''"

text \<open>A table of names, without the NULL entry that ends it.\<close>

type_synonym name_table = "(string \<times> string) list"

definition mDriverName :: name_table where
  "mDriverName = [(''eng;en'', ''MultiArchUefiPkg Emulator Driver'')]"

definition mDeviceName :: name_table where
  "mDeviceName = [(''eng;en'', ''MultiArchUefiPkg Emulator'')]"

text \<open>
  The library functions.  The look-up takes the language (None for NULL), the
  supported languages, the table, whether the caller gave a place for the name,
  and whether languages are ISO 639-2 codes; its answer is a status and what it
  stored, if anything.
\<close>

record name_firmware =
  LookupUnicodeString2 :: "string option \<Rightarrow> string \<Rightarrow> name_table \<Rightarrow> bool \<Rightarrow> bool \<Rightarrow> efi_status \<times> string option"
  EfiTestManagedDevice :: "efi_handle \<Rightarrow> efi_handle \<Rightarrow> efi_status"
  DriverBindingHandle :: efi_handle

section \<open>The functions\<close>

definition ComponentNameGetDriverName ::
  "name_firmware \<Rightarrow> name_protocol \<Rightarrow> string option \<Rightarrow> bool \<Rightarrow> efi_status \<times> string option" where
  "ComponentNameGetDriverName F This Language DriverName =
     LookupUnicodeString2 F Language (SupportedLanguages This) mDriverName DriverName (This = gComponentName)"

definition ComponentNameGetControllerName ::
  "name_firmware \<Rightarrow> name_protocol \<Rightarrow> efi_handle \<Rightarrow> efi_handle \<Rightarrow> string option \<Rightarrow> bool \<Rightarrow>
   efi_status \<times> string option" where
  "ComponentNameGetControllerName F This ControllerHandle ChildHandle Language ControllerName =
     (if ChildHandle \<noteq> 0 then (EFI_UNSUPPORTED, None)
      else
        let Status = EfiTestManagedDevice F ControllerHandle (DriverBindingHandle F)
        in if EFI_ERROR Status then (Status, None)
           else LookupUnicodeString2 F Language (SupportedLanguages This) mDeviceName ControllerName (This = gComponentName))"

section \<open>Lemmas\<close>

text \<open>
  What the library documents of the look-up in a table for the languages eng and
  en, through either protocol: the language the protocol lists is found, another
  one is refused.  ISO 639-2 codes have three letters.
\<close>

definition lookup_ok :: "name_firmware \<Rightarrow> bool" where
  "lookup_ok F \<longleftrightarrow>
     (\<forall>This l name. (This = gComponentName \<longrightarrow> length l = 3) \<longrightarrow>
        LookupUnicodeString2 F (Some l) (SupportedLanguages This) [(''eng;en'', name)] True (This = gComponentName) =
          (if l = SupportedLanguages This then (EFI_SUCCESS, Some name) else (EFI_UNSUPPORTED, None)))"

text \<open>Each protocol answers in the language it lists and in no other one.\<close>

lemma GetDriverName_answers:
  "lookup_ok F \<Longrightarrow> (This = gComponentName \<Longrightarrow> length l = 3) \<Longrightarrow> ComponentNameGetDriverName F This (Some l) True =
     (if l = SupportedLanguages This then (EFI_SUCCESS, Some ''MultiArchUefiPkg Emulator Driver'') else (EFI_UNSUPPORTED, None))"
  by (simp add: ComponentNameGetDriverName_def lookup_ok_def mDriverName_def)

text \<open>A controller has a name only when the driver manages it and no child is named.\<close>

lemma GetControllerName_answers:
  "lookup_ok F \<Longrightarrow> (This = gComponentName \<Longrightarrow> length l = 3) \<Longrightarrow>
     ComponentNameGetControllerName F This c h (Some l) True = (EFI_SUCCESS, n) \<longleftrightarrow>
       h = 0 \<and> \<not> EFI_ERROR (EfiTestManagedDevice F c (DriverBindingHandle F)) \<and> l = SupportedLanguages This \<and>
       n = Some ''MultiArchUefiPkg Emulator''"
  by (auto simp: ComponentNameGetControllerName_def lookup_ok_def mDeviceName_def Let_def status_defs EFI_ERROR_def)

text \<open>Any child handle is unsupported, an invalid one included.\<close>

lemma GetControllerName_child:
  "h \<noteq> 0 \<Longrightarrow> ComponentNameGetControllerName F This c h l p = (EFI_UNSUPPORTED, None)"
  by (simp add: ComponentNameGetControllerName_def)

end
