(* ===== verification/Set_Con.thy ===== *)
theory Set_Con
  imports Get_Opt
begin

text \<open>
  SetCon.c: the editor of the console variables (ConIn, ConOut, ErrOut).  The
  result of a run is its status and the calls of SetVariable it makes.  Device
  paths are a parameter type with the functions of DevicePathLib on them; NULL is
  None.  The calls of FreePool have no effect here.
\<close>

section \<open>Services\<close>

datatype con_protocol = SimpleTextIn | SimpleTextOut

text \<open>
  The size and then the contents of a variable as GetVariable gives them, the
  memory for it, the functions on device paths, and the handles of a protocol
  with the answer of HandleProtocol for their device path.
\<close>

record 'p con_services =
  GetVariable_size :: "wstring \<Rightarrow> efi_status"
  AllocatePool_available :: bool
  GetVariable :: "wstring \<Rightarrow> efi_status \<times> u32 \<times> 'p"
  IsDevicePathValid :: "'p \<Rightarrow> bool"
  ConvertTextToDevicePath :: "wstring \<Rightarrow> 'p option"
  DuplicateDevicePathFromHandle :: "u64 \<Rightarrow> 'p option"
  ConvertHandleIndexToHandle :: "u64 \<Rightarrow> u64 option"
  StrHexToUintn :: "wstring \<Rightarrow> u64"
  AppendDevicePathInstance :: "'p option \<Rightarrow> 'p option \<Rightarrow> 'p option"
  LocateHandleBuffer :: "con_protocol \<Rightarrow> efi_status \<times> (efi_status \<times> 'p) list"
  SetVariable :: "wstring \<Rightarrow> u32 \<Rightarrow> 'p option \<Rightarrow> efi_status"

section \<open>The current value\<close>

text \<open>Status, OutPath and what is stored through Attributes (None when nothing is).\<close>

definition GetVarPath :: "'p con_services \<Rightarrow> wstring \<Rightarrow> efi_status \<times> 'p option \<times> u32 option" where
  "GetVarPath S Var =
     (let Status = GetVariable_size S Var
      in if Status = EFI_NOT_FOUND then (Status, None, None)
         else if Status \<noteq> EFI_BUFFER_TOO_SMALL then (Status, None, None)
         else if \<not> AllocatePool_available S then (EFI_OUT_OF_RESOURCES, None, None)
         else
           let (Status, Attributes, Variable) = GetVariable S Var
           in if EFI_ERROR Status then (Status, None, None)
              else if \<not> IsDevicePathValid S Variable then (EFI_SUCCESS, None, Some Attributes)
              else (EFI_SUCCESS, Some Variable, Some Attributes))"

section \<open>AutoPath\<close>

definition ConOut :: wstring where "ConOut = [0x43, 0x6F, 0x6E, 0x4F, 0x75, 0x74]"
definition ErrOut :: wstring where "ErrOut = [0x45, 0x72, 0x72, 0x4F, 0x75, 0x74]"
definition ConIn :: wstring where "ConIn = [0x43, 0x6F, 0x6E, 0x49, 0x6E]"

text \<open>StrnCmp with the length of the name: a prefix test.\<close>

definition has_prefix :: "wstring \<Rightarrow> wstring \<Rightarrow> bool" where
  "has_prefix p s \<longleftrightarrow> take (length p) s = p"

text \<open>The for loop over the handles; handles without a device path are skipped.\<close>

fun auto_loop :: "'p con_services \<Rightarrow> (efi_status \<times> 'p) list \<Rightarrow> 'p option \<Rightarrow> efi_status \<times> 'p option" where
  "auto_loop S [] Build = (if Build = None then EFI_NOT_FOUND else EFI_SUCCESS, Build)"
| "auto_loop S ((Status, Path) # hs) Build =
     (if Status \<noteq> EFI_SUCCESS then auto_loop S hs Build
      else case AppendDevicePathInstance S Build (Some Path) of
             None \<Rightarrow> (EFI_OUT_OF_RESOURCES, Build)
           | Some New \<Rightarrow> auto_loop S hs (Some New))"

definition AutoPath :: "'p con_services \<Rightarrow> wstring \<Rightarrow> efi_status \<times> 'p option" where
  "AutoPath S VarName =
     (let Proto = (if has_prefix ConOut VarName \<or> has_prefix ErrOut VarName then Some SimpleTextOut
                   else if has_prefix ConIn VarName then Some SimpleTextIn else None)
      in case Proto of
           None \<Rightarrow> (EFI_INVALID_PARAMETER, None)
         | Some P \<Rightarrow>
             let (Status, Handles) = LocateHandleBuffer S P
             in if Status \<noteq> EFI_SUCCESS then (EFI_NOT_FOUND, None)
                else let (Status, Build) = auto_loop S Handles None
                     in (Status, if Status \<noteq> EFI_SUCCESS then None else Build))"

section \<open>The entry point\<close>

record 'p con_options =
  opt_Set :: bool
  opt_Append :: bool
  opt_Auto :: bool
  opt_Path :: "'p option"

definition ihp :: wstring where "ihp = [0x69, 0x68, 0x70]"

text \<open>
  The switch for one option; Inl is a return.  A -p whose text is no device path
  sets Set with no path: the Status it stores is overwritten by the next GetOpt.
\<close>

definition con_option :: "'p con_services \<Rightarrow> u16 \<times> wstring option \<Rightarrow> 'p con_options \<Rightarrow> efi_status + 'p con_options" where
  "con_option S x c =
     (let (Opt, OptArg) = x;
          usage = Inl EFI_INVALID_PARAMETER;
          with_arg = (\<lambda>f. case OptArg of
              None \<Rightarrow> usage
            | Some a \<Rightarrow> if opt_Set c \<or> opt_Auto c then usage else f a);
          with_path = (\<lambda>Path. case Path of
              None \<Rightarrow> Inl EFI_INVALID_PARAMETER
            | Some p \<Rightarrow> Inr (c\<lparr>opt_Path := Some p, opt_Set := True\<rparr>))
      in if Opt = 0x41 then
           (if opt_Set c \<or> opt_Append c then usage else Inr (c\<lparr>opt_Auto := True, opt_Set := True\<rparr>))
         else if Opt = 0x61 then (if opt_Auto c then usage else Inr (c\<lparr>opt_Append := True\<rparr>))
         else if Opt = 0x70 then with_arg (\<lambda>a. Inr (c\<lparr>opt_Path := ConvertTextToDevicePath S a, opt_Set := True\<rparr>))
         else if Opt = 0x68 then with_arg (\<lambda>a. with_path (DuplicateDevicePathFromHandle S (StrHexToUintn S a)))
         else if Opt = 0x69 then
           with_arg (\<lambda>a. case ConvertHandleIndexToHandle S (StrHexToUintn S a) of
             None \<Rightarrow> Inl EFI_INVALID_PARAMETER
           | Some h \<Rightarrow> with_path (DuplicateDevicePathFromHandle S h))
         else usage)"

fun con_options_loop :: "'p con_services \<Rightarrow> (u16 \<times> wstring option) list \<Rightarrow> 'p con_options \<Rightarrow> efi_status + 'p con_options" where
  "con_options_loop S [] c = Inr c"
| "con_options_loop S (x # xs) c = (case con_option S x c of Inl Status \<Rightarrow> Inl Status | Inr c \<Rightarrow> con_options_loop S xs c)"

definition edit_variable ::
  "'p con_services \<Rightarrow> u32 \<Rightarrow> wstring \<Rightarrow> 'p con_options \<Rightarrow> efi_status \<times> (wstring \<times> u32 \<times> 'p option) list" where
  "edit_variable S uninit VarName c =
     (let (Status, CurrentPath, attributes) = GetVarPath S VarName;
          CurrentAttributes = (case attributes of None \<Rightarrow> uninit | Some a \<Rightarrow> a);
          set = (\<lambda>Path. (SetVariable S VarName CurrentAttributes Path, [(VarName, CurrentAttributes, Path)]))
      in if Status \<noteq> EFI_SUCCESS then (Status, [])
         else if \<not> opt_Set c then (Status, [])
         else if opt_Auto c then
           (let (Status, Path) = AutoPath S VarName in if Status \<noteq> EFI_SUCCESS then (Status, []) else set Path)
         else if opt_Append c then
           (case AppendDevicePathInstance S CurrentPath (opt_Path c) of
              None \<Rightarrow> (EFI_OUT_OF_RESOURCES, [])
            | Some NewPath \<Rightarrow> set (Some NewPath))
         else set (opt_Path c))"

definition SetCon_EntryPoint ::
  "'p con_services \<Rightarrow> u32 \<Rightarrow> efi_status \<times> wstring list option \<Rightarrow> efi_status \<times> (wstring \<times> u32 \<times> 'p option) list" where
  "SetCon_EntryPoint S uninit shell_args =
     (case shell_args of
        (Status, None) \<Rightarrow> (EFI_ABORTED, [])
      | (Status, Some Argv) \<Rightarrow>
          if Status \<noteq> EFI_SUCCESS \<or> length Argv < 1 then (EFI_ABORTED, [])
          else
            let (opts, ctx) = get_options Argv (Some ihp) INIT_GET_OPT_CONTEXT
            in case con_options_loop S opts \<lparr>opt_Set = False, opt_Append = False, opt_Auto = False, opt_Path = None\<rparr> of
                 Inl Status \<Rightarrow> (Status, [])
               | Inr c \<Rightarrow>
                   if (of_nat (length Argv) - of_nat (OptIndex ctx) :: u64) < 1 then (EFI_INVALID_PARAMETER, [])
                   else edit_variable S uninit (Argv ! OptIndex ctx) c)"

section \<open>Properties\<close>

text \<open>
  C38: SetCon -p text variable stores the device path that the text stands for in
  the variable, with the attributes the variable has; when the text stands for
  none, it does not stop with an error but calls SetVariable without a value,
  which deletes the variable.
\<close>

theorem SetCon_path_option:
  assumes "char_at s 0 \<noteq> dash" "char_at var 0 \<noteq> dash"
    and "GetVarPath S var = (EFI_SUCCESS, cur, Some attr)"
  shows "SetCon_EntryPoint S uninit (EFI_SUCCESS, Some [name, [dash, 0x70], s, var]) =
    (SetVariable S var attr (ConvertTextToDevicePath S s), [(var, attr, ConvertTextToDevicePath S s)])"
proof -
  have "s = [] \<or> hd s \<noteq> dash" using assms(1) by (cases s) (simp_all add: char_at_def)
  then have wf: "list_all (well_formed_option ihp) [(0x70, Separate s)]" by (simp add: ihp_def)
  have "[var] = [] \<or> char_at (hd [var]) 0 \<noteq> dash \<or> hd [var] = [dash]" using assms(2) by simp
  from written_options [OF wf this, of name] obtain ys c where
    g: "get_options [name, [dash, 0x70], s, var] (Some ihp) INIT_GET_OPT_CONTEXT = (ys, c)"
    and ys: "map fst ys = [0x70]" "snd (ys ! 0) = Some s" and c: "OptIndex c = 3 + skip_dash [var]"
    by (auto simp: write_options_def ihp_def)
  from ys have "ys = [(0x70, Some s)]" by (cases ys) auto
  moreover have "skip_dash [var] = 0" using assms(2) by (auto simp: skip_dash_def char_at_def)
  ultimately show ?thesis
    using g c assms(3) by (simp add: SetCon_EntryPoint_def con_option_def edit_variable_def Let_def)
qed

section \<open>Witness\<close>

definition example_console :: "wstring con_services" where
  "example_console = \<lparr>GetVariable_size = (\<lambda>_. EFI_BUFFER_TOO_SMALL), AllocatePool_available = True,
     GetVariable = (\<lambda>_. (EFI_SUCCESS, 7, [0x31])), IsDevicePathValid = (\<lambda>_. True), ConvertTextToDevicePath = (\<lambda>_. None),
     DuplicateDevicePathFromHandle = (\<lambda>_. None), ConvertHandleIndexToHandle = (\<lambda>_. None), StrHexToUintn = (\<lambda>_. 0),
     AppendDevicePathInstance = (\<lambda>a b. b), LocateHandleBuffer = (\<lambda>_. (EFI_NOT_FOUND, [])), SetVariable = (\<lambda>_ _ _. EFI_SUCCESS)\<rparr>"

theorem SetCon_path_option_witness:
  "SetCon_EntryPoint example_console 0 (EFI_SUCCESS, Some [[0x73], [dash, 0x70], [0x78], ConOut]) = (EFI_SUCCESS, [(ConOut, 7, None)])"
  by (subst SetCon_path_option [where cur = "Some [0x31]" and attr = 7])
    (simp_all add: GetVarPath_def example_console_def char_at_def ConOut_def Let_def status_defs EFI_ERROR_def)

end
