(* ===== verification/Serial_Port.thy ===== *)
theory Serial_Port
  imports Prelude
begin

text \<open>
  BaseSerialPortLibSerialIoProtocol.c: a SerialPortLib on top of the serial I/O
  protocol.  The protocol is a parameter; the state of the library is the pointer
  mSio, which is looked up when it is needed and kept once it is found.
\<close>

record serial_attributes =
  BaudRate :: u64
  ReceiveFifoDepth :: u32
  Timeout :: u32
  Parity :: u32
  DataBits :: u8
  StopBits :: u32

record 's serial_io =
  sio_Write :: "u8 list \<Rightarrow> 's \<Rightarrow> (efi_status \<times> u64) \<times> 's"
  sio_Read :: "u64 \<Rightarrow> 's \<Rightarrow> (efi_status \<times> u64 \<times> u8 list) \<times> 's"
  sio_GetControl :: "'s \<Rightarrow> efi_status \<times> u32"
  sio_SetControl :: "u32 \<Rightarrow> 's \<Rightarrow> efi_status \<times> 's"
  sio_SetAttributes :: "serial_attributes \<Rightarrow> 's \<Rightarrow> efi_status \<times> 's"

text \<open>
  gBS is set when boot services are there; \<open>located\<close> is what LocateProtocol
  finds.  \<open>device\<close> is the state of the serial device.
\<close>

record 's serial_world =
  gBS_set :: bool
  located :: "'s serial_io option"
  mSio :: "'s serial_io option"
  device :: 's

definition SerialPortInitialize :: "('s, 'z) serial_world_scheme \<Rightarrow> ('s, 'z) serial_world_scheme" where
  "SerialPortInitialize w = (if gBS_set w \<and> mSio w = None then w\<lparr>mSio := located w\<rparr> else w)"

text \<open>Write and Read of the protocol take the number of bytes through a pointer and update it.\<close>

definition SerialPortWrite :: "u8 list \<Rightarrow> u64 \<Rightarrow> ('s, 'z) serial_world_scheme \<Rightarrow> u64 \<times> ('s, 'z) serial_world_scheme" where
  "SerialPortWrite Buffer NumberOfBytes w =
     (if NumberOfBytes = 0 then (0, w)
      else
        let w = SerialPortInitialize w
        in case mSio w of
             None \<Rightarrow> (0, w)
           | Some sio \<Rightarrow>
               let ((Status, Written), d) = sio_Write sio (take (unat NumberOfBytes) Buffer) (device w)
               in (if EFI_ERROR Status then 0 else Written, w\<lparr>device := d\<rparr>))"

definition SerialPortRead :: "u64 \<Rightarrow> ('s, 'z) serial_world_scheme \<Rightarrow> (u64 \<times> u8 list) \<times> ('s, 'z) serial_world_scheme" where
  "SerialPortRead NumberOfBytes w =
     (if NumberOfBytes = 0 then ((0, []), w)
      else
        let w = SerialPortInitialize w
        in case mSio w of
             None \<Rightarrow> ((0, []), w)
           | Some sio \<Rightarrow>
               let ((Status, Read, Buffer), d) = sio_Read sio NumberOfBytes (device w)
               in ((if EFI_ERROR Status then 0 else Read, Buffer), w\<lparr>device := d\<rparr>))"

abbreviation EFI_SERIAL_INPUT_BUFFER_EMPTY :: u32 where "EFI_SERIAL_INPUT_BUFFER_EMPTY \<equiv> 0x100"

text \<open>A failing GetControl counts as waiting data.\<close>

definition SerialPortPoll :: "('s, 'z) serial_world_scheme \<Rightarrow> bool \<times> ('s, 'z) serial_world_scheme" where
  "SerialPortPoll w =
     (let w = SerialPortInitialize w
      in case mSio w of
           None \<Rightarrow> (False, w)
         | Some sio \<Rightarrow>
             let (Status, Control) = sio_GetControl sio (device w)
             in (EFI_ERROR Status \<or> Control AND EFI_SERIAL_INPUT_BUFFER_EMPTY = 0, w))"

definition SerialPortSetControl :: "u32 \<Rightarrow> ('s, 'z) serial_world_scheme \<Rightarrow> efi_status \<times> ('s, 'z) serial_world_scheme" where
  "SerialPortSetControl Control w =
     (let w = SerialPortInitialize w
      in case mSio w of
           None \<Rightarrow> (EFI_UNSUPPORTED, w)
         | Some sio \<Rightarrow> let (Status, d) = sio_SetControl sio Control (device w) in (Status, w\<lparr>device := d\<rparr>))"

definition SerialPortGetControl :: "('s, 'z) serial_world_scheme \<Rightarrow> (efi_status \<times> u32 option) \<times> ('s, 'z) serial_world_scheme" where
  "SerialPortGetControl w =
     (let w = SerialPortInitialize w
      in case mSio w of
           None \<Rightarrow> ((EFI_UNSUPPORTED, None), w)
         | Some sio \<Rightarrow> let (Status, Control) = sio_GetControl sio (device w) in ((Status, Some Control), w))"

text \<open>
  The attributes are pointers; the values they point to are passed on, and what
  they point to afterwards (the third component) is what they pointed to before.
\<close>

definition SerialPortSetAttributes ::
  "serial_attributes \<Rightarrow> ('s, 'z) serial_world_scheme \<Rightarrow> efi_status \<times> serial_attributes \<times> ('s, 'z) serial_world_scheme" where
  "SerialPortSetAttributes A w =
     (let w = SerialPortInitialize w
      in case mSio w of
           None \<Rightarrow> (EFI_UNSUPPORTED, A, w)
         | Some sio \<Rightarrow> let (Status, d) = sio_SetAttributes sio A (device w) in (Status, A, w\<lparr>device := d\<rparr>))"

section \<open>Lemmas\<close>

text \<open>Without the protocol nothing is transferred, and the device is not touched.\<close>

lemma no_protocol:
  assumes "mSio w = None" "located w = None \<or> \<not> gBS_set w"
  shows "SerialPortWrite Buffer n w = (0, w)" "SerialPortRead n w = ((0, []), w)" "SerialPortPoll w = (False, w)"
    "SerialPortSetControl c w = (EFI_UNSUPPORTED, w)" "SerialPortGetControl w = ((EFI_UNSUPPORTED, None), w)"
    "SerialPortSetAttributes A w = (EFI_UNSUPPORTED, A, w)"
proof -
  have "SerialPortInitialize w = w" using assms by (cases w) (auto simp: SerialPortInitialize_def)
  with assms show "SerialPortWrite Buffer n w = (0, w)" "SerialPortRead n w = ((0, []), w)" "SerialPortPoll w = (False, w)"
    "SerialPortSetControl c w = (EFI_UNSUPPORTED, w)" "SerialPortGetControl w = ((EFI_UNSUPPORTED, None), w)"
    "SerialPortSetAttributes A w = (EFI_UNSUPPORTED, A, w)"
    by (simp_all add: SerialPortWrite_def SerialPortRead_def SerialPortPoll_def SerialPortSetControl_def SerialPortGetControl_def
      SerialPortSetAttributes_def)
qed

text \<open>A protocol that was found once is kept.\<close>

lemma SerialPortInitialize_keeps: "mSio w = Some sio \<Longrightarrow> SerialPortInitialize w = w"
  by (simp add: SerialPortInitialize_def)

lemma SerialPortInitialize_idem [simp]: "SerialPortInitialize (SerialPortInitialize w) = SerialPortInitialize w"
  by (cases "located w") (simp_all add: SerialPortInitialize_def)

text \<open>
  A write never reports more bytes than asked for, when the protocol does not:
  fewer bytes is the failure the comment of SerialPortWrite describes.
\<close>

lemma SerialPortWrite_bound:
  assumes "\<And>sio b s. mSio (SerialPortInitialize w) = Some sio \<Longrightarrow> snd (fst (sio_Write sio b s)) \<le> of_nat (length b)"
    and "length Buffer \<le> unat n"
  shows "fst (SerialPortWrite Buffer n w) \<le> of_nat (length Buffer)"
proof (cases "n = 0 \<or> mSio (SerialPortInitialize w) = None")
  case True
  then show ?thesis by (auto simp: SerialPortWrite_def)
next
  case False
  then obtain sio where m: "mSio (SerialPortInitialize w) = Some sio" by blast
  obtain st v d where "sio_Write sio (take (unat n) Buffer) (device (SerialPortInitialize w)) = ((st, v), d)"
    by (metis surj_pair)
  with assms(1) [OF m, of Buffer "device (SerialPortInitialize w)"] assms(2) m False show ?thesis
    by (simp add: SerialPortWrite_def)
qed

end
